(* ===== verification/Talon_Prelude.thy ===== *)
theory Talon_Prelude
  imports Main "HOL-Library.Word" "HOL-Library.Monad_Syntax" "HOL-Library.Char_ord"
    "HOL-Library.List_Lexorder"
begin

text \<open>
  Shared vocabulary of the development.

  Bytes are the \<open>char\<close>s of HOL (eight bits), so a \<open>std::vector<char>\<close>, a \<open>std::string\<close> and a
  string literal are all \<open>byte list\<close>s.  A C++ \<open>int32_t\<close> is a \<open>32 word\<close> read with \<open>sint\<close>;
  arithmetic on C++ \<open>int\<close> variables is done on \<open>int\<close> with an explicit range check.

  A C++ expression whose behaviour is undefined (a read or write outside an array, a
  \<open>memcpy\<close> of a negative length, a signed overflow, a null dereference) or that throws or
  aborts has the value \<open>None\<close>; a defined one has a value \<open>Some v\<close>.  The operations are written
  with the \<open>do\<close> notation of the option monad.

  The second half models the parts of the C and C++ standard libraries the sources use:
  \<open>memcpy\<close>, C strings, \<open>htonl\<close>/\<open>ntohl\<close>, \<open>std::string::find_first_of\<close>, \<open>substr\<close>,
  \<open>std::to_string\<close> and \<open>atoi\<close>.
\<close>

section \<open>Types\<close>

type_synonym byte = char
type_synonym int32 = "32 word"

named_theorems talon_ub \<open>when an operation on raw memory is defined, and its value\<close>
named_theorems talon_inv \<open>preservation of the representation invariants\<close>
named_theorems talon_eval \<open>evaluation of the library functions on literals\<close>

section \<open>Undefined behaviour and C++ int\<close>

abbreviation INT_MAX :: int where "INT_MAX \<equiv> 2147483647"

definition int_ok :: "int \<Rightarrow> bool" where
  "int_ok x \<longleftrightarrow> - 2147483648 \<le> x \<and> x \<le> INT_MAX"

definition require :: "bool \<Rightarrow> unit option" where
  "require b = (if b then Some () else None)"

lemma require_simps [simp]: "require True = Some ()" "require False = None"
  by (simp_all add: require_def)

lemma require_eq_Some [simp]: "require b = Some u \<longleftrightarrow> b"
  by (simp add: require_def)

lemma bind_require [simp]: "require b \<bind> f = (if b then f () else None)"
  by (simp add: require_def)

section \<open>Raw memory\<close>

definition mem_get :: "byte list \<Rightarrow> int \<Rightarrow> byte option" where
  "mem_get v i = (if 0 \<le> i \<and> i < int (length v) then Some (v ! nat i) else None)"

definition mem_read :: "byte list \<Rightarrow> int \<Rightarrow> int \<Rightarrow> byte list option" where
  "mem_read v off n =
     (if 0 \<le> off \<and> 0 \<le> n \<and> off + n \<le> int (length v)
      then Some (take (nat n) (drop (nat off) v)) else None)"

definition mem_write :: "byte list \<Rightarrow> int \<Rightarrow> byte list \<Rightarrow> byte list option" where
  "mem_write v off bs =
     (if 0 \<le> off \<and> off + int (length bs) \<le> int (length v)
      then Some (take (nat off) v @ bs @ drop (nat off + length bs) v) else None)"

lemma mem_get_nat [talon_ub]: "i < length v \<Longrightarrow> mem_get v (int i) = Some (v ! i)"
  by (simp add: mem_get_def)

lemma mem_read_nat [talon_ub]:
  "off + n \<le> length v \<Longrightarrow> mem_read v (int off) (int n) = Some (take n (drop off v))"
  by (simp add: mem_read_def)

lemma mem_read_negative [talon_ub]: "n < 0 \<Longrightarrow> mem_read v off n = None"
  by (simp add: mem_read_def)

lemma mem_read_at [talon_ub]:
  "mem = a @ f @ c \<Longrightarrow> i = int (length a) \<Longrightarrow> n = int (length f) \<Longrightarrow> mem_read mem i n = Some f"
  by (simp add: mem_read_nat)

lemma mem_get_at [talon_ub]:
  "mem = a @ x # c \<Longrightarrow> i = int (length a) \<Longrightarrow> mem_get mem i = Some x"
  by (simp add: mem_get_nat)

lemma mem_read_length: "mem_read v off n = Some bs \<Longrightarrow> length bs = nat n"
  by (auto simp: mem_read_def split: if_splits)

lemma mem_write_nat [talon_ub]:
  "off + length bs \<le> length v \<Longrightarrow>
   mem_write v (int off) bs = Some (take off v @ bs @ drop (off + length bs) v)"
  by (simp add: mem_write_def)

lemma mem_write_length: "mem_write v off bs = Some v' \<Longrightarrow> length v' = length v"
  by (auto simp: mem_write_def split: if_splits)

section \<open>C strings\<close>

abbreviation NUL :: byte where "NUL \<equiv> CHR 0x00"

text \<open>The \<open>std::string\<close> built from a NUL-terminated array; undefined when no NUL is in it.\<close>

definition c_string :: "byte list \<Rightarrow> string option" where
  "c_string buf = (if NUL \<in> set buf then Some (takeWhile (\<lambda>c. c \<noteq> NUL) buf) else None)"

text \<open>Copying \<open>src\<close> into a zero-initialised \<open>char a[n]\<close> and reading \<open>a\<close> back as a C string.\<close>

definition via_char_array :: "nat \<Rightarrow> byte list \<Rightarrow> string option" where
  "via_char_array n src =
     (if length src \<le> n then c_string (src @ replicate (n - length src) NUL) else None)"

lemma takeWhile_append_NUL:
  "NUL \<notin> set s \<Longrightarrow> takeWhile (\<lambda>c. c \<noteq> NUL) (s @ replicate (Suc k) NUL) = s"
  by (induction s) auto

lemma via_char_array_id [talon_ub]:
  assumes "length s < n" "NUL \<notin> set s"
  shows "via_char_array n s = Some s"
proof -
  obtain k where k: "n - length s = Suc k" using assms(1) by (cases "n - length s") auto
  then show ?thesis
    using assms takeWhile_append_NUL [OF assms(2), of k]
    by (simp add: via_char_array_def c_string_def)
qed

section \<open>Network byte order\<close>

definition htonl_bytes :: "int32 \<Rightarrow> byte list" where
  "htonl_bytes w = (let n = unat w in
     [char_of (n div 16777216), char_of (n div 65536), char_of (n div 256), char_of n])"

definition ntohl_bytes :: "byte list \<Rightarrow> int32" where
  "ntohl_bytes bs = word_of_nat
     (of_char (bs ! 0) * 16777216 + of_char (bs ! 1) * 65536
      + of_char (bs ! 2) * 256 + of_char (bs ! 3))"

lemma length_htonl_bytes [simp]: "length (htonl_bytes w) = 4"
  by (simp add: htonl_bytes_def Let_def)

lemma nat_four_bytes:
  fixes n :: nat
  assumes "n < 4294967296"
  shows "(n div 16777216) mod 256 * 16777216 + (n div 65536) mod 256 * 65536
         + (n div 256) mod 256 * 256 + n mod 256 = n"
proof -
  have a: "n div 65536 = n div 256 div 256" by (simp add: div_mult2_eq [symmetric])
  have b: "n div 16777216 = n div 256 div 256 div 256" by (simp add: div_mult2_eq [symmetric])
  have "n div 16777216 < 256" using assms by simp
  then have c: "n div 256 div 256 div 256 mod 256 = n div 256 div 256 div 256"
    unfolding b by simp
  have "n = n div 256 * 256 + n mod 256"
    and "n div 256 = n div 256 div 256 * 256 + n div 256 mod 256"
    and "n div 256 div 256 = n div 256 div 256 div 256 * 256 + n div 256 div 256 mod 256"
    by simp_all
  then show ?thesis unfolding a b c by linarith
qed

lemma ntohl_htonl [simp]: "ntohl_bytes (htonl_bytes w) = w"
proof -
  have b: "unat w < 4294967296" using unsigned_less [of w, where 'a = nat] by simp
  have "ntohl_bytes (htonl_bytes w) = word_of_nat
          ((unat w div 16777216) mod 256 * 16777216 + (unat w div 65536) mod 256 * 65536
           + (unat w div 256) mod 256 * 256 + unat w mod 256)"
    by (simp add: ntohl_bytes_def htonl_bytes_def Let_def del: of_nat_add of_nat_mult)
  then show ?thesis by (simp only: nat_four_bytes [OF b] of_nat_unat ucast_id)
qed

lemma ntohl_htonl_take [simp]: "ntohl_bytes (take 4 (htonl_bytes w @ rest)) = w"
  by simp

lemma sint_word_of_nat_small:
  assumes "n < 2147483648"
  shows "sint (word_of_nat n :: int32) = int n"
  using assms by (simp add: signed_of_nat signed_take_bit_int_eq_self)

section \<open>std::string\<close>

definition find_first_of :: "char \<Rightarrow> string \<Rightarrow> nat option" where
  "find_first_of c s = (if c \<in> set s then Some (length (takeWhile (\<lambda>x. x \<noteq> c) s)) else None)"

definition substr :: "string \<Rightarrow> nat \<Rightarrow> nat \<Rightarrow> string" where
  "substr s pos len = take len (drop pos s)"

lemma find_first_of_None [simp]: "find_first_of c s = None \<longleftrightarrow> c \<notin> set s"
  by (simp add: find_first_of_def)

lemma find_first_of_append [simp]:
  "c \<notin> set a \<Longrightarrow> find_first_of c (a @ c # b) = Some (length a)"
  by (induction a) (auto simp: find_first_of_def)

lemma find_first_of_SomeD:
  assumes "find_first_of c s = Some i"
  shows "i < length s" "s ! i = c" "c \<notin> set (take i s)"
proof -
  have s: "c \<in> set s" and i: "i = length (takeWhile (\<lambda>x. x \<noteq> c) s)"
    using assms by (auto simp: find_first_of_def split: if_splits)
  have "dropWhile (\<lambda>x. x \<noteq> c) s \<noteq> []" using s by (auto simp: dropWhile_eq_Nil_conv)
  then show l: "i < length s"
    using takeWhile_dropWhile_id [of "\<lambda>x. x \<noteq> c" s] unfolding i
    by (metis length_append length_greater_0_conv less_add_same_cancel1)
  show "s ! i = c" using nth_length_takeWhile [of "\<lambda>x. x \<noteq> c" s] l unfolding i by simp
  show "c \<notin> set (take i s)" unfolding i
    by (metis (mono_tags, lifting) set_takeWhileD takeWhile_eq_take)
qed

section \<open>Decimal numbers: std::to_string and atoi\<close>

definition digit_char :: "nat \<Rightarrow> char" where
  "digit_char d = char_of (48 + d)"

definition is_digit :: "char \<Rightarrow> bool" where
  "is_digit c \<longleftrightarrow> (48::nat) \<le> of_char c \<and> of_char c \<le> (57::nat)"

definition digit_value :: "char \<Rightarrow> nat" where
  "digit_value c = of_char c - 48"

definition is_space :: "char \<Rightarrow> bool" where
  "is_space c \<longleftrightarrow> of_char c = (32::nat) \<or> (9::nat) \<le> of_char c \<and> of_char c \<le> (13::nat)"

fun nat_to_string :: "nat \<Rightarrow> string" where
  "nat_to_string n =
     (if n < 10 then [digit_char n] else nat_to_string (n div 10) @ [digit_char (n mod 10)])"

declare nat_to_string.simps [simp del]

definition to_string :: "int \<Rightarrow> string" where
  "to_string i = (if i < 0 then CHR ''-'' # nat_to_string (nat (- i)) else nat_to_string (nat i))"

definition digits_value :: "string \<Rightarrow> nat" where
  "digits_value s = foldl (\<lambda>a c. 10 * a + digit_value c) 0 s"

text \<open>\<open>atoi\<close> is undefined when the value does not fit an \<open>int\<close>.\<close>

definition atoi :: "string \<Rightarrow> int option" where
  "atoi s =
     (let s1 = dropWhile is_space s;
          neg = (case s1 of c # _ \<Rightarrow> c = CHR ''-'' | [] \<Rightarrow> False);
          s2 = (case s1 of c # r \<Rightarrow> if c = CHR ''-'' \<or> c = CHR ''+'' then r else s1 | [] \<Rightarrow> []);
          n = int (digits_value (takeWhile is_digit s2));
          v = (if neg then - n else n)
      in if int_ok v then Some v else None)"

lemma of_char_digit_char: "d < 10 \<Longrightarrow> of_char (digit_char d) = (48 + d :: nat)"
  by (simp add: digit_char_def)

lemma is_digit_digit_char [simp]: "d < 10 \<Longrightarrow> is_digit (digit_char d)"
  by (simp add: is_digit_def of_char_digit_char)

lemma digit_value_digit_char [simp]: "d < 10 \<Longrightarrow> digit_value (digit_char d) = d"
  by (simp add: digit_value_def of_char_digit_char)

lemma nat_to_string_digits: "\<forall>c \<in> set (nat_to_string n). is_digit c"
proof (induction n rule: nat_to_string.induct)
  case (1 n)
  then show ?case by (subst nat_to_string.simps) auto
qed

lemma nat_to_string_nonempty: "nat_to_string n \<noteq> []"
  by (subst nat_to_string.simps) simp

lemma digits_value_append: "digits_value (s @ [c]) = 10 * digits_value s + digit_value c"
  by (simp add: digits_value_def)

lemma digits_value_nat_to_string [simp]: "digits_value (nat_to_string n) = n"
proof (induction n rule: nat_to_string.induct)
  case (1 n)
  show ?case
  proof (cases "n < 10")
    case True
    then show ?thesis by (subst nat_to_string.simps) (simp add: digits_value_def)
  next
    case False
    with "1.IH" show ?thesis
      by (subst nat_to_string.simps) (simp add: digits_value_append)
  qed
qed

lemma is_digit_not_space: "is_digit c \<Longrightarrow> \<not> is_space c"
  by (auto simp: is_digit_def is_space_def)

lemma is_digit_not_sign: "is_digit c \<Longrightarrow> c \<noteq> CHR ''-'' \<and> c \<noteq> CHR ''+''"
  by (auto simp: is_digit_def)

lemma is_digit_not_colon: "is_digit c \<Longrightarrow> c \<noteq> CHR '':'' \<and> c \<noteq> CHR '' '' \<and> c \<noteq> NUL"
  by (auto simp: is_digit_def)

lemma takeWhile_digits [simp]: "takeWhile is_digit (nat_to_string n) = nat_to_string n"
  using nat_to_string_digits by (simp add: takeWhile_eq_all_conv)

lemma atoi_to_string:
  assumes "int_ok i"
  shows "atoi (to_string i) = Some i"
proof -
  obtain c r where cr: "nat_to_string (nat (\<bar>i\<bar>)) = c # r"
    using nat_to_string_nonempty by (meson neq_Nil_conv)
  then have d: "is_digit c" using nat_to_string_digits by (metis list.set_intros(1))
  have m: "\<not> is_space (CHR ''-'')" by (simp add: is_space_def)
  show ?thesis
  proof (cases "i < 0")
    case True
    have "int (digits_value (takeWhile is_digit (nat_to_string (nat (- i))))) = - i"
      using True by simp
    then show ?thesis using True assms m
      by (simp add: atoi_def to_string_def del: takeWhile_digits)
  next
    case False
    then have e: "nat_to_string (nat i) = c # r" using cr by simp
    have "int (digits_value (takeWhile is_digit (c # r))) = i"
      using False by (simp flip: e)
    then show ?thesis
      using False assms is_digit_not_space [OF d] is_digit_not_sign [OF d]
      by (simp add: atoi_def to_string_def e)
  qed
qed

lemma to_string_no_colon: "CHR '':'' \<notin> set (to_string i)"
  using nat_to_string_digits is_digit_not_colon by (auto simp: to_string_def)

lemma to_string_no_space: "CHR '' '' \<notin> set (to_string i)"
  using nat_to_string_digits is_digit_not_colon by (auto simp: to_string_def)

lemma to_string_no_NUL: "NUL \<notin> set (to_string i)"
  using nat_to_string_digits is_digit_not_colon by (auto simp: to_string_def)

lemma to_string_nonempty [simp]: "to_string i \<noteq> []"
  by (simp add: to_string_def nat_to_string_nonempty)

lemmas talon_eval_defs [talon_eval] =
  htonl_bytes_def ntohl_bytes_def char_of_def bit_Suc_0_iff Let_def
  atoi_def is_space_def is_digit_def digits_value_def digit_value_def int_ok_def
  to_string_def nat_to_string.simps digit_char_def
  find_first_of_def substr_def mem_get_def mem_read_def mem_write_def
  c_string_def via_char_array_def

end
