(* ===== verification/Tcp_Buffer.thy ===== *)
theory Tcp_Buffer
  imports Talon_Prelude
begin

text \<open>
  The connection buffer, \<^verbatim>\<open>net/tcp/tcp_buffer.{h,cc}\<close>: a byte vector with a read and a write
  index.  The bytes between the two indices are the unread bytes, \<open>contents\<close>; the other bytes of
  the vector are stale.  The abstract specification is a FIFO of bytes (locale \<open>byte_fifo\<close>); the
  interpretation \<open>tb\<close> at the end shows that \<open>TcpBuffer\<close> implements it.

  The indices are natural numbers because every assignment to them is a sum of non-negative
  values or has passed the check against the vector's size; the operations take their
  \<open>int\<close> arguments as \<open>int\<close>, since callers can pass a negative one.
\<close>

section \<open>State and operations\<close>

record tcp_buffer =
  m_read_index :: nat
  m_write_index :: nat
  m_size :: int
  m_buffer :: "byte list"

definition TcpBuffer_new :: "int \<Rightarrow> tcp_buffer option" where
  "TcpBuffer_new sz = do {
     require (0 \<le> sz);
     Some \<lparr>m_read_index = 0, m_write_index = 0, m_size = sz,
           m_buffer = replicate (nat sz) NUL\<rparr> }"

definition readAble :: "tcp_buffer \<Rightarrow> int" where
  "readAble b = int (m_write_index b) - int (m_read_index b)"

definition writeAble :: "tcp_buffer \<Rightarrow> int" where
  "writeAble b = int (length (m_buffer b)) - int (m_write_index b)"

definition readIndex :: "tcp_buffer \<Rightarrow> nat" where
  "readIndex b = m_read_index b"

definition writeIndex :: "tcp_buffer \<Rightarrow> nat" where
  "writeIndex b = m_write_index b"

definition resizeBuffer :: "tcp_buffer \<Rightarrow> int \<Rightarrow> tcp_buffer option" where
  "resizeBuffer b new_size = do {
     require (0 \<le> new_size);
     let count = min new_size (readAble b);
     src \<leftarrow> mem_read (m_buffer b) (int (m_read_index b)) count;
     tmp \<leftarrow> mem_write (replicate (nat new_size) NUL) 0 src;
     Some (b\<lparr>m_buffer := tmp, m_read_index := 0, m_write_index := nat count\<rparr>) }"

definition adjustBuffer :: "tcp_buffer \<Rightarrow> tcp_buffer option" where
  "adjustBuffer b =
     (if m_read_index b < length (m_buffer b) div 3 then Some b
      else do {
        let count = readAble b;
        src \<leftarrow> mem_read (m_buffer b) (int (m_read_index b)) count;
        buffer \<leftarrow> mem_write (replicate (length (m_buffer b)) NUL) 0 src;
        Some (b\<lparr>m_buffer := buffer, m_read_index := 0, m_write_index := nat count\<rparr>) })"

text \<open>
  \<open>writeToBuffer(buf, size)\<close> with \<open>bs\<close> the \<open>size\<close> bytes at \<open>buf\<close>; \<open>(int)(1.5 * k)\<close> is exact
  in a \<open>double\<close> for every \<open>int\<close> \<open>k\<close> and truncates, hence \<open>3 * k div 2\<close> for \<open>0 \<le> k\<close>.
\<close>

definition writeToBuffer :: "tcp_buffer \<Rightarrow> byte list \<Rightarrow> tcp_buffer option" where
  "writeToBuffer b bs = do {
     let sz = int (length bs);
     require (int_ok sz);
     b' \<leftarrow> (if sz > writeAble b
            then do {
              require (int_ok (int (m_write_index b) + sz));
              let new_size = 3 * (int (m_write_index b) + sz) div 2;
              require (int_ok new_size);
              resizeBuffer b new_size }
            else Some b);
     mem \<leftarrow> mem_write (m_buffer b') (int (m_write_index b')) bs;
     Some (b'\<lparr>m_buffer := mem, m_write_index := m_write_index b' + length bs\<rparr>) }"

definition readFromBuffer :: "tcp_buffer \<Rightarrow> byte list \<Rightarrow> int \<Rightarrow> (byte list \<times> tcp_buffer) option" where
  "readFromBuffer b re sz =
     (if readAble b = 0 then Some (re, b)
      else do {
        let read_size = (if readAble b > sz then sz else readAble b);
        tmp \<leftarrow> mem_read (m_buffer b) (int (m_read_index b)) read_size;
        b' \<leftarrow> adjustBuffer (b\<lparr>m_read_index := nat (int (m_read_index b) + read_size)\<rparr>);
        Some (tmp, b') })"

text \<open>
  The sum is an \<open>int\<close> converted to \<open>size_t\<close>: a negative sum is a huge index, and both that and
  an index at or past the end of the vector are logged and ignored.
\<close>

definition moveReadIndex :: "tcp_buffer \<Rightarrow> int \<Rightarrow> tcp_buffer option" where
  "moveReadIndex b sz = do {
     let j = int (m_read_index b) + sz;
     require (int_ok j);
     (if j < 0 \<or> j \<ge> int (length (m_buffer b)) then Some b
      else adjustBuffer (b\<lparr>m_read_index := nat j\<rparr>)) }"

definition moveWriteIndex :: "tcp_buffer \<Rightarrow> int \<Rightarrow> tcp_buffer option" where
  "moveWriteIndex b sz = do {
     let j = int (m_write_index b) + sz;
     require (int_ok j);
     (if j < 0 \<or> j \<ge> int (length (m_buffer b)) then Some b
      else adjustBuffer (b\<lparr>m_write_index := nat j\<rparr>)) }"

section \<open>Invariant and abstraction\<close>

definition buf_inv :: "tcp_buffer \<Rightarrow> bool" where
  "buf_inv b \<longleftrightarrow> m_read_index b \<le> m_write_index b
     \<and> m_write_index b \<le> length (m_buffer b) \<and> int (length (m_buffer b)) \<le> INT_MAX"

definition contents :: "tcp_buffer \<Rightarrow> byte list" where
  "contents b = take (m_write_index b - m_read_index b) (drop (m_read_index b) (m_buffer b))"

text \<open>The bytes that can still be appended before the \<open>int\<close> size computation overflows.\<close>

definition buf_room :: "tcp_buffer \<Rightarrow> nat \<Rightarrow> bool" where
  "buf_room b n \<longleftrightarrow> m_write_index b + n \<le> 1431655765"

lemma buf_inv_readAble: "buf_inv b \<Longrightarrow> readAble b = int (length (contents b))"
  by (auto simp: buf_inv_def readAble_def contents_def)

lemma contents_length:
  "buf_inv b \<Longrightarrow> length (contents b) = m_write_index b - m_read_index b"
  by (auto simp: buf_inv_def contents_def)

lemma mem_read_contents:
  assumes "buf_inv b" "n \<le> length (contents b)"
  shows "mem_read (m_buffer b) (int (m_read_index b)) (int n) = Some (take n (contents b))"
proof -
  have "m_read_index b + n \<le> length (m_buffer b)"
    using assms by (auto simp: buf_inv_def contents_def)
  then show ?thesis using assms
    by (simp add: mem_read_nat contents_def min_absorb1)
qed

lemma buffer_split:
  assumes "buf_inv b"
  shows "m_buffer b = take (m_read_index b) (m_buffer b) @ contents b @ drop (m_write_index b) (m_buffer b)"
proof -
  have "drop (m_read_index b) (m_buffer b) = contents b
      @ drop (m_write_index b - m_read_index b) (drop (m_read_index b) (m_buffer b))"
    by (simp only: contents_def append_take_drop_id)
  moreover have "drop (m_write_index b - m_read_index b) (drop (m_read_index b) (m_buffer b))
      = drop (m_write_index b) (m_buffer b)"
    using assms by (simp add: buf_inv_def)
  ultimately show ?thesis by (metis append_take_drop_id)
qed

lemma mem_write_zeros:
  "length src \<le> n \<Longrightarrow> mem_write (replicate n NUL) 0 src = Some (src @ replicate (n - length src) NUL)"
  using mem_write_nat [of 0 src "replicate n NUL"] by simp

lemma TcpBuffer_new_inv:
  assumes "0 \<le> sz" "sz \<le> INT_MAX"
  shows "\<exists>b. TcpBuffer_new sz = Some b \<and> buf_inv b \<and> contents b = [] \<and>
    length (m_buffer b) = nat sz"
  using assms by (simp add: TcpBuffer_new_def buf_inv_def contents_def)

lemma resizeBuffer_grow:
  assumes "buf_inv b" "length (contents b) \<le> n" "int n \<le> INT_MAX"
  shows "\<exists>b'. resizeBuffer b (int n) = Some b' \<and> buf_inv b' \<and> contents b' = contents b
    \<and> m_read_index b' = 0 \<and> m_write_index b' = length (contents b) \<and> length (m_buffer b') = n"
proof -
  have m: "min (int n) (readAble b) = int (length (contents b))"
    using assms buf_inv_readAble by simp
  have r: "mem_read (m_buffer b) (int (m_read_index b)) (int (length (contents b))) = Some (contents b)"
    using mem_read_contents [OF assms(1), of "length (contents b)"] by simp
  have w: "mem_write (replicate n NUL) 0 (contents b)
      = Some (contents b @ replicate (n - length (contents b)) NUL)"
    by (rule mem_write_zeros [OF assms(2)])
  let ?b' = "b\<lparr>m_buffer := contents b @ replicate (n - length (contents b)) NUL,
       m_read_index := 0, m_write_index := length (contents b)\<rparr>"
  have "resizeBuffer b (int n) = Some ?b'"
    unfolding resizeBuffer_def Let_def m by (simp add: r w)
  moreover have "buf_inv ?b' \<and> contents ?b' = contents b" 
    using assms by (simp add: buf_inv_def contents_def [of ?b'])
  ultimately show ?thesis using assms(2) by auto
qed

lemma adjustBuffer_ok:
  assumes "buf_inv b"
  shows "\<exists>b'. adjustBuffer b = Some b' \<and> buf_inv b' \<and> contents b' = contents b
    \<and> m_write_index b' \<le> m_write_index b \<and> length (m_buffer b') = length (m_buffer b)"
proof (cases "m_read_index b < length (m_buffer b) div 3")
  case True
  then show ?thesis using assms by (simp add: adjustBuffer_def)
next
  case False
  have l: "length (contents b) \<le> length (m_buffer b)"
    using assms by (auto simp: contents_length buf_inv_def)
  have r: "mem_read (m_buffer b) (int (m_read_index b)) (int (length (contents b))) = Some (contents b)"
    using mem_read_contents [OF assms, of "length (contents b)"] by simp
  let ?b' = "b\<lparr>m_buffer := contents b @ replicate (length (m_buffer b) - length (contents b)) NUL,
       m_read_index := 0, m_write_index := length (contents b)\<rparr>"
  have "adjustBuffer b = Some ?b'"
    using False by (simp add: adjustBuffer_def buf_inv_readAble [OF assms] r mem_write_zeros [OF l])
  moreover have "buf_inv ?b' \<and> contents ?b' = contents b"
    using assms l by (simp add: buf_inv_def contents_def [of ?b'])
  moreover have "length (contents b) \<le> m_write_index b"
    using assms by (simp add: contents_length)
  ultimately show ?thesis using l by auto
qed

lemma writeToBuffer_fits:
  assumes "buf_inv b" "int (length bs) \<le> writeAble b"
  shows "\<exists>b'. writeToBuffer b bs = Some b' \<and> buf_inv b' \<and> contents b' = contents b @ bs
    \<and> m_write_index b' = m_write_index b + length bs"
proof -
  have l: "m_write_index b + length bs \<le> length (m_buffer b)"
    using assms by (simp add: writeAble_def)
  have ok: "int_ok (int (length bs))" using l assms(1) by (simp add: int_ok_def buf_inv_def)
  let ?m = "take (m_write_index b) (m_buffer b) @ bs @ drop (m_write_index b + length bs) (m_buffer b)"
  let ?b' = "b\<lparr>m_buffer := ?m, m_write_index := m_write_index b + length bs\<rparr>"
  have "writeToBuffer b bs = Some ?b'"
    using assms(2) ok l by (simp add: writeToBuffer_def Let_def mem_write_nat)
  moreover have "buf_inv ?b'" using assms(1) l by (simp add: buf_inv_def)
  moreover have "contents ?b' = contents b @ bs"
    using assms(1) l
    by (simp add: contents_def buf_inv_def drop_take min_absorb1 Suc_diff_le)
  ultimately show ?thesis by auto
qed

lemma writeToBuffer_append:
  assumes "buf_inv b" "buf_room b (length bs)"
  shows "\<exists>b'. writeToBuffer b bs = Some b' \<and> buf_inv b' \<and> contents b' = contents b @ bs
    \<and> m_write_index b' \<le> m_write_index b + length bs"
proof (cases "int (length bs) > writeAble b")
  case False
  then show ?thesis using writeToBuffer_fits [OF assms(1)] by (metis not_less order_refl)
next
  case True
  define n where "n = 3 * (m_write_index b + length bs) div 2"
  have n: "(3 * int (m_write_index b) + 3 * int (length bs)) div 2 = int n"
    unfolding n_def by (simp add: of_nat_div)
  have nb: "int n \<le> INT_MAX" using assms(2) unfolding n_def buf_room_def by (simp add: of_nat_div)
  have c: "length (contents b) + length bs \<le> n"
    using contents_length [OF assms(1)] unfolding n_def by (simp add: less_eq_div_iff_mult_less_eq)
  obtain b1 where b1: "resizeBuffer b (int n) = Some b1" "buf_inv b1" "contents b1 = contents b"
      "m_write_index b1 = length (contents b)" "length (m_buffer b1) = n"
    using resizeBuffer_grow [OF assms(1) _ nb] c by auto
  have ok: "int_ok (int (length bs))" "int_ok (int (m_write_index b) + int (length bs))" "int_ok (int n)"
    using assms(2) nb by (simp_all add: buf_room_def int_ok_def)
  have "writeToBuffer b bs = writeToBuffer b1 bs"
    using True ok b1 c by (simp add: writeToBuffer_def Let_def n writeAble_def)
  moreover have "int (length bs) \<le> writeAble b1" using b1 c by (simp add: writeAble_def)
  ultimately show ?thesis
    using writeToBuffer_fits [OF b1(2)] b1(3,4) contents_length [OF assms(1)] by fastforce
qed

lemma readFromBuffer_prefix:
  assumes "buf_inv b" "0 \<le> n" "contents b \<noteq> []"
  shows "\<exists>b'. readFromBuffer b re n = Some (take (nat n) (contents b), b') \<and> buf_inv b'
    \<and> contents b' = drop (nat n) (contents b) \<and> m_write_index b' \<le> m_write_index b"
proof -
  define k where "k = min (nat n) (length (contents b))"
  have k: "(if readAble b > n then n else readAble b) = int k"
    using assms(2) by (auto simp: k_def buf_inv_readAble [OF assms(1)])
  let ?b1 = "b\<lparr>m_read_index := m_read_index b + k\<rparr>"
  have r: "mem_read (m_buffer b) (int (m_read_index b)) (int k) = Some (take (nat n) (contents b))"
    using mem_read_contents [OF assms(1), of k] by (simp add: k_def min_def)
  have kb: "m_read_index b + k \<le> m_write_index b"
    using contents_length [OF assms(1)] assms(1) by (auto simp: k_def buf_inv_def)
  have i: "buf_inv ?b1" using assms(1) kb by (simp add: buf_inv_def)
  have c: "contents ?b1 = drop (nat n) (contents b)"
  proof -
    have "contents ?b1 = drop k (contents b)"
      using kb by (simp add: contents_def drop_take add.commute)
    then show ?thesis by (simp add: k_def min_def)
  qed
  have ne: "readAble b \<noteq> 0" using assms(3) buf_inv_readAble [OF assms(1)] by simp
  obtain b' where b': "adjustBuffer ?b1 = Some b'" "buf_inv b'" "contents b' = contents ?b1"
      "m_write_index b' \<le> m_write_index ?b1"
    using adjustBuffer_ok [OF i] by blast
  have e: "nat (int (m_read_index b) + int k) = m_read_index b + k" by simp
  show ?thesis
    using ne b' c by (simp add: readFromBuffer_def Let_def k r e del: nat_add_distrib)
qed

text \<open>Consuming \<open>n\<close> bytes succeeds unless they end exactly at the end of the vector.\<close>

lemma moveReadIndex_drop:
  assumes "buf_inv b" "n \<le> length (contents b)" "m_read_index b + n < length (m_buffer b)"
  shows "\<exists>b'. moveReadIndex b (int n) = Some b' \<and> buf_inv b' \<and> contents b' = drop n (contents b)
    \<and> length (m_buffer b') = length (m_buffer b) \<and> m_write_index b' \<le> m_write_index b"
proof -
  let ?b1 = "b\<lparr>m_read_index := m_read_index b + n\<rparr>"
  have kb: "m_read_index b + n \<le> m_write_index b"
    using assms contents_length [OF assms(1)] by (auto simp: buf_inv_def)
  have i: "buf_inv ?b1" using assms(1) kb by (simp add: buf_inv_def)
  have c: "contents ?b1 = drop n (contents b)"
    by (simp add: contents_def drop_take add.commute)
  have "moveReadIndex b (int n) = adjustBuffer ?b1"
    using assms by (simp add: moveReadIndex_def Let_def int_ok_def buf_inv_def nat_int_add)
  then show ?thesis using adjustBuffer_ok [OF i] c by auto
qed

lemma moveReadIndex_refused:
  assumes "buf_inv b" "int (m_read_index b) + n = int (length (m_buffer b))"
  shows "moveReadIndex b n = Some b"
  using assms by (simp add: moveReadIndex_def int_ok_def buf_inv_def)

lemma moveWriteIndex_append:
  assumes "buf_inv b" "m_write_index b + n < length (m_buffer b)"
  shows "\<exists>b'. moveWriteIndex b (int n) = Some b' \<and> buf_inv b'
    \<and> contents b' = contents b @ take n (drop (m_write_index b) (m_buffer b))
    \<and> length (m_buffer b') = length (m_buffer b) \<and> m_write_index b' \<le> m_write_index b + n"
proof -
  let ?b1 = "b\<lparr>m_write_index := m_write_index b + n\<rparr>"
  have i: "buf_inv ?b1" using assms by (simp add: buf_inv_def)
  have c: "contents ?b1 = contents b @ take n (drop (m_write_index b) (m_buffer b))"
  proof -
    have r: "m_read_index b \<le> m_write_index b" using assms(1) by (simp add: buf_inv_def)
    then have e: "m_write_index b + n - m_read_index b = (m_write_index b - m_read_index b) + n"
      by simp
    have "contents ?b1 = take ((m_write_index b - m_read_index b) + n) (drop (m_read_index b) (m_buffer b))"
      using e by (simp add: contents_def)
    also have "\<dots> = contents b @ take n (drop (m_write_index b) (m_buffer b))"
      unfolding take_add contents_def using r by simp
    finally show ?thesis .
  qed
  have "moveWriteIndex b (int n) = adjustBuffer ?b1"
    using assms by (simp add: moveWriteIndex_def Let_def int_ok_def buf_inv_def nat_int_add)
  then show ?thesis using adjustBuffer_ok [OF i] c by auto
qed

lemma moveWriteIndex_refused:
  assumes "buf_inv b" "int (m_write_index b) + n = int (length (m_buffer b))"
  shows "moveWriteIndex b n = Some b"
  using assms by (simp add: moveWriteIndex_def int_ok_def buf_inv_def)

section \<open>The interface: a FIFO of bytes\<close>

text \<open>
  What the coders and the connection rely on: \<open>put\<close> appends, \<open>get\<close> removes a prefix, and
  \<open>room\<close> says how much can be appended before the size arithmetic leaves \<open>int\<close>.
\<close>

locale byte_fifo =
  fixes cont :: "'b \<Rightarrow> byte list"
    and invar :: "'b \<Rightarrow> bool"
    and room :: "'b \<Rightarrow> nat \<Rightarrow> bool"
    and put :: "'b \<Rightarrow> byte list \<Rightarrow> 'b option"
    and get :: "'b \<Rightarrow> byte list \<Rightarrow> int \<Rightarrow> (byte list \<times> 'b) option"
  assumes put_spec: "invar b \<Longrightarrow> room b (length bs) \<Longrightarrow>
      \<exists>b'. put b bs = Some b' \<and> invar b' \<and> cont b' = cont b @ bs"
    and put_room: "invar b \<Longrightarrow> room b (length bs + m) \<Longrightarrow> put b bs = Some b' \<Longrightarrow> room b' m"
    and room_mono: "room b n \<Longrightarrow> m \<le> n \<Longrightarrow> room b m"
    and get_spec: "invar b \<Longrightarrow> 0 \<le> i \<Longrightarrow> cont b \<noteq> [] \<Longrightarrow>
      \<exists>b'. get b re i = Some (take (nat i) (cont b), b') \<and> invar b' \<and> cont b' = drop (nat i) (cont b)"
begin

fun put_all :: "'b \<Rightarrow> byte list list \<Rightarrow> 'b option" where
  "put_all b [] = Some b"
| "put_all b (x # xs) = do { b' \<leftarrow> put b x; put_all b' xs }"

lemma put_all_spec:
  "invar b \<Longrightarrow> room b (length (concat xs)) \<Longrightarrow>
   \<exists>b'. put_all b xs = Some b' \<and> invar b' \<and> cont b' = cont b @ concat xs"
proof (induction xs arbitrary: b)
  case Nil
  then show ?case by simp
next
  case (Cons x xs)
  have "room b (length x)" using Cons.prems(2) room_mono by simp
  then obtain b1 where b1: "put b x = Some b1" "invar b1" "cont b1 = cont b @ x"
    using put_spec Cons.prems(1) by blast
  have "room b1 (length (concat xs))" using put_room [OF Cons.prems(1) _ b1(1)] Cons.prems(2) by simp
  from Cons.IH [OF b1(2) this] b1 show ?case by auto
qed

lemma get_all_after_put_all:
  assumes "invar b" "room b (length (concat xs))" "put_all b xs = Some b'" "cont b' \<noteq> []"
  shows "\<exists>b''. get b' re (int (length (cont b'))) = Some (cont b @ concat xs, b'') \<and> cont b'' = []"
proof -
  have i: "invar b'" and c: "cont b' = cont b @ concat xs"
    using put_all_spec [OF assms(1,2)] assms(3) by auto
  show ?thesis using get_spec [OF i _ assms(4), of "int (length (cont b'))" re] c by auto
qed

end

interpretation tb: byte_fifo contents buf_inv buf_room writeToBuffer readFromBuffer
proof unfold_locales
  fix b and bs :: "byte list" assume "buf_inv b" "buf_room b (length bs)"
  then show "\<exists>b'. writeToBuffer b bs = Some b' \<and> buf_inv b' \<and> contents b' = contents b @ bs"
    using writeToBuffer_append by blast
next
  fix b b' m and bs :: "byte list" assume "buf_inv b" "buf_room b (length bs + m)" "writeToBuffer b bs = Some b'"
  moreover from this have "m_write_index b' \<le> m_write_index b + length bs"
    using writeToBuffer_append [of b bs] by (auto simp: buf_room_def)
  ultimately show "buf_room b' m" by (simp add: buf_room_def)
next
  fix b n m assume "buf_room b n" "m \<le> n"
  then show "buf_room b m" by (simp add: buf_room_def)
next
  fix b re and n :: int assume "buf_inv b" "0 \<le> n" "contents b \<noteq> []"
  then show "\<exists>b'. readFromBuffer b re n = Some (take (nat n) (contents b), b') \<and> buf_inv b'
      \<and> contents b' = drop (nat n) (contents b)"
    using readFromBuffer_prefix by blast
qed

section \<open>Properties\<close>

definition sample_buffer :: tcp_buffer where
  "sample_buffer = \<lparr>m_read_index = 1, m_write_index = 3, m_size = 4, m_buffer = ''xabz''\<rparr>"

lemma sample_buffer_inv: "buf_inv sample_buffer" and sample_buffer_contents: "contents sample_buffer = ''ab''"
  by (simp_all add: sample_buffer_def buf_inv_def contents_def)

text \<open>
  C22. \<open>writeToBuffer\<close> implements append: as long as the sizes stay inside \<open>int\<close>, it is defined (it
  grows the vector when needed), keeps the invariant and leaves exactly the old unread bytes
  followed by the new ones.
\<close>

theorem writeToBuffer_appends:
  assumes "buf_inv b" "buf_room b (length bs)"
  shows "\<exists>b'. writeToBuffer b bs = Some b' \<and> buf_inv b' \<and> contents b' = contents b @ bs"
  using assms by (rule tb.put_spec)

theorem writeToBuffer_appends_witness:
  "\<exists>b'. writeToBuffer sample_buffer ''cdefg'' = Some b' \<and> contents b' = ''abcdefg''"
  using writeToBuffer_appends [OF sample_buffer_inv, of "''cdefg''"]
  by (auto simp: buf_room_def sample_buffer_contents sample_buffer_def [THEN arg_cong [of _ _ m_write_index]])

text \<open>
  \<open>readFromBuffer\<close> hands out the first \<open>n\<close> unread bytes (all of them when there are fewer) and
  leaves exactly the others unread, also when it compacts the vector.
\<close>

theorem readFromBuffer_takes:
  assumes "buf_inv b" "0 \<le> n" "contents b \<noteq> []"
  shows "\<exists>b'. readFromBuffer b re n = Some (take (nat n) (contents b), b') \<and> buf_inv b'
    \<and> contents b' = drop (nat n) (contents b)"
  using assms by (rule tb.get_spec)

theorem readFromBuffer_takes_witness:
  "\<exists>b'. readFromBuffer sample_buffer [] 1 = Some (''a'', b') \<and> contents b' = ''b''"
  using readFromBuffer_takes [OF sample_buffer_inv, of 1 "[]"] by (auto simp add: sample_buffer_contents)

text \<open>
  \<open>moveReadIndex\<close> and \<open>moveWriteIndex\<close> on the last byte of the vector: a move that would put
  the index at the vector's size is refused and changes nothing, although it is a legal position;
  every shorter move inside the unread bytes consumes them.
\<close>

theorem moveReadIndex_consumes_unless_at_end:
  assumes "buf_inv b" "n \<le> length (contents b)" "0 < n"
  shows "(m_read_index b + n < length (m_buffer b) \<longrightarrow>
            (\<exists>b'. moveReadIndex b (int n) = Some b' \<and> buf_inv b' \<and> contents b' = drop n (contents b)))
       \<and> (m_read_index b + n = length (m_buffer b) \<longrightarrow>
            moveReadIndex b (int n) = Some b \<and> contents b \<noteq> [])"
  using moveReadIndex_drop [OF assms(1,2)] moveReadIndex_refused [OF assms(1)] assms(2,3) by fastforce

theorem moveReadIndex_consumes_unless_at_end_witness:
  "\<exists>b'. moveReadIndex sample_buffer 2 = Some b' \<and> contents b' = []"
  using moveReadIndex_consumes_unless_at_end [OF sample_buffer_inv, of 2]
  by (auto simp: sample_buffer_contents) (simp_all add: sample_buffer_def)

end
