(* ===== verification/Tinypb_Coder.thy ===== *)
theory Tinypb_Coder
  imports Tcp_Buffer
begin

text \<open>
  The wire format, \<^verbatim>\<open>net/coder/\<close>: \<open>AbstractProtocol\<close> and \<open>TinyPBProtocol\<close> (one record),
  \<open>TinyPBCoder\<close> (\<open>encodeTinyPB\<close>, \<open>encode\<close>, \<open>decode\<close>) and \<open>StringCoder\<close>.

  \<open>decode\<close> is a \<^verbatim>\<open>while(true)\<close> loop that can fail to end, so it is a partial function: \<open>None\<close> says
  that it does not return, \<open>Some Undefined\<close> that it runs into undefined behaviour, and
  \<open>Some (Returns (msgs, b))\<close> that it returns with the messages pushed to \<open>out_messages\<close> and the
  buffer left in state \<open>b\<close>.
\<close>

section \<open>Protocol objects\<close>

definition PB_START :: byte where "PB_START = CHR 0x02"
definition PB_END :: byte where "PB_END = CHR 0x03"

record tiny_pb =
  m_msg_id :: string
  m_pk_len :: int32
  m_msg_id_len :: int32
  m_method_name_len :: int32
  m_method_name :: string
  m_err_code :: int32
  m_err_info_len :: int32
  m_err_info :: string
  m_pb_data :: string
  m_check_sum :: int32
  parse_success :: bool

definition TinyPBProtocol_new :: tiny_pb where
  "TinyPBProtocol_new = \<lparr>m_msg_id = [], m_pk_len = 0, m_msg_id_len = 0, m_method_name_len = 0,
     m_method_name = [], m_err_code = 0, m_err_info_len = 0, m_err_info = [], m_pb_data = [],
     m_check_sum = 0, parse_success = False\<rparr>"

definition getReqId :: "tiny_pb \<Rightarrow> string" where
  "getReqId m = m_msg_id m"

definition setReqId :: "tiny_pb \<Rightarrow> string \<Rightarrow> tiny_pb" where
  "setReqId m req_id = m\<lparr>m_msg_id := req_id\<rparr>"

definition getInt32FromNetByte :: "byte list \<Rightarrow> int \<Rightarrow> int32 option" where
  "getInt32FromNetByte mem i = do { bs \<leftarrow> mem_read mem i 4; Some (ntohl_bytes bs) }"

section \<open>Encoding\<close>

text \<open>
  \<open>encodeTinyPB\<close> returns the bytes written to the block of \<open>pk_len\<close> bytes and the message with
  the fields it sets; it is undefined when the packet length leaves \<open>int\<close>.
\<close>

definition frame_size :: "tiny_pb \<Rightarrow> nat" where
  "frame_size m = 2 + 24 + length (m_msg_id m) + length (m_method_name m)
     + length (m_err_info m) + length (m_pb_data m)"

definition with_msg_id :: "tiny_pb \<Rightarrow> tiny_pb" where
  "with_msg_id m = (if m_msg_id m = [] then m\<lparr>m_msg_id := ''123456789''\<rparr> else m)"

definition encodeTinyPB :: "tiny_pb \<Rightarrow> (byte list \<times> tiny_pb) option" where
  "encodeTinyPB message = do {
     let m = with_msg_id message;
     require (int (frame_size m) \<le> INT_MAX);
     let pk_len = word_of_nat (frame_size m);
     let msg_id_len = word_of_nat (length (m_msg_id m));
     let method_name_len = word_of_nat (length (m_method_name m));
     let err_info_len = word_of_nat (length (m_err_info m));
     let buf = [PB_START] @ htonl_bytes pk_len
       @ htonl_bytes msg_id_len @ m_msg_id m
       @ htonl_bytes method_name_len @ m_method_name m
       @ htonl_bytes (m_err_code m)
       @ htonl_bytes err_info_len @ m_err_info m
       @ m_pb_data m
       @ htonl_bytes 1 @ [PB_END];
     Some (buf, m\<lparr>m_pk_len := pk_len, m_msg_id_len := msg_id_len,
       m_method_name_len := method_name_len, m_err_info_len := err_info_len,
       parse_success := True\<rparr>) }"

fun encode :: "tiny_pb list \<Rightarrow> tcp_buffer \<Rightarrow> (tiny_pb list \<times> tcp_buffer) option" where
  "encode [] out_buffer = Some ([], out_buffer)"
| "encode (i # messages) out_buffer = do {
     (buf, msg) \<leftarrow> encodeTinyPB i;
     out_buffer' \<leftarrow> (if length buf \<noteq> 0 then writeToBuffer out_buffer buf else Some out_buffer);
     (msgs, out_buffer'') \<leftarrow> encode messages out_buffer';
     Some (msg # msgs, out_buffer'') }"

section \<open>Decoding\<close>

datatype scan_result = Scan_End | Scan_Found nat int int32

definition scan_at :: "byte list \<Rightarrow> nat \<Rightarrow> nat \<Rightarrow> (int \<times> int32) option option" where
  "scan_at tmp w i = do {
     c \<leftarrow> mem_get tmp (int i);
     (if c = PB_START \<and> i + 1 < w
      then do {
        pk_len \<leftarrow> getInt32FromNetByte tmp (int i + 1);
        require (int_ok (int i + sint pk_len));
        require (int_ok (int i + sint pk_len - 1));
        let j = int i + sint pk_len - 1;
        (if j \<ge> int w then Some None
         else do {
           e \<leftarrow> mem_get tmp j;
           Some (if e = PB_END then Some (j, pk_len) else None) }) }
      else Some None) }"

function scan :: "byte list \<Rightarrow> nat \<Rightarrow> nat \<Rightarrow> scan_result option" where
  "scan tmp w i =
     (if i < w
      then case scan_at tmp w i of
          None \<Rightarrow> None
        | Some None \<Rightarrow> scan tmp w (Suc i)
        | Some (Some (j, pk_len)) \<Rightarrow> Some (Scan_Found i j pk_len)
      else Some Scan_End)"
  by pat_completeness auto
termination
  by (relation "measure (\<lambda>(tmp, w, i). w - i)") auto

declare scan.simps [simp del]

text \<open>
  The body of \<^verbatim>\<open>if (parse_success)\<close> after the read index has moved: \<open>Some None\<close> is an
  \<^verbatim>\<open>ERRORLOG(...); continue;\<close>.  The sums cannot overflow: each summand read from the packet has
  been the length of a \<open>memcpy\<close> that stayed inside \<open>tmp\<close>.
\<close>

definition parse_frame :: "byte list \<Rightarrow> int \<Rightarrow> int \<Rightarrow> int32 \<Rightarrow> tiny_pb option option" where
  "parse_frame tmp start_index end_index pk_len = do {
     let msg_id_len_index = start_index + 1 + 4;
     (if msg_id_len_index \<ge> end_index then Some None else do {
     msg_id_len \<leftarrow> getInt32FromNetByte tmp msg_id_len_index;
     let msg_id_index = msg_id_len_index + 4;
     msg_id_raw \<leftarrow> mem_read tmp msg_id_index (sint msg_id_len);
     msg_id \<leftarrow> via_char_array 100 msg_id_raw;
     let method_name_len_index = msg_id_index + sint msg_id_len;
     (if method_name_len_index \<ge> end_index then Some None else do {
     method_name_len \<leftarrow> getInt32FromNetByte tmp method_name_len_index;
     let method_name_index = method_name_len_index + 4;
     method_name_raw \<leftarrow> mem_read tmp method_name_index (sint method_name_len);
     method_name \<leftarrow> via_char_array 512 method_name_raw;
     let err_code_index = method_name_index + sint method_name_len;
     (if err_code_index \<ge> end_index then Some None else do {
     err_code \<leftarrow> getInt32FromNetByte tmp err_code_index;
     let error_info_len_index = err_code_index + 4;
     (if error_info_len_index \<ge> end_index then Some None else do {
     err_info_len \<leftarrow> getInt32FromNetByte tmp error_info_len_index;
     let err_info_index = error_info_len_index + 4;
     err_info_raw \<leftarrow> mem_read tmp err_info_index (sint err_info_len);
     err_info \<leftarrow> via_char_array 512 err_info_raw;
     let pb_data_len =
       sint pk_len - sint method_name_len - sint msg_id_len - sint err_info_len - 2 - 24;
     let pd_data_index = err_info_index + sint err_info_len;
     pb_data \<leftarrow> mem_read tmp pd_data_index pb_data_len;
     Some (Some (TinyPBProtocol_new\<lparr>m_pk_len := pk_len,
       m_msg_id_len := msg_id_len, m_msg_id := msg_id,
       m_method_name_len := method_name_len, m_method_name := method_name,
       m_err_code := err_code,
       m_err_info_len := err_info_len, m_err_info := err_info,
       m_pb_data := pb_data, parse_success := True\<rparr>)) }) }) }) }) }"

datatype decode_result = Decode_End | Decode_Next tcp_buffer "tiny_pb option"

definition decode_step :: "tcp_buffer \<Rightarrow> decode_result option" where
  "decode_step buffer = do {
     let tmp = m_buffer buffer;
     s \<leftarrow> scan tmp (writeIndex buffer) (readIndex buffer);
     (case s of
        Scan_End \<Rightarrow> Some Decode_End
      | Scan_Found start_index end_index pk_len \<Rightarrow> do {
          buffer' \<leftarrow> moveReadIndex buffer (end_index - int start_index + 1);
          message \<leftarrow> parse_frame tmp (int start_index) end_index pk_len;
          Some (Decode_Next buffer' message) }) }"

datatype 'a outcome = Undefined | Returns 'a

partial_function (option) decode ::
    "tiny_pb list \<Rightarrow> tcp_buffer \<Rightarrow> (tiny_pb list \<times> tcp_buffer) outcome option" where
  "decode out_messages buffer =
     (case decode_step buffer of
        None \<Rightarrow> Some Undefined
      | Some Decode_End \<Rightarrow> Some (Returns (out_messages, buffer))
      | Some (Decode_Next buffer' message) \<Rightarrow>
          decode (out_messages @ (case message of None \<Rightarrow> [] | Some m \<Rightarrow> [m])) buffer')"

section \<open>StringCoder\<close>

record string_protocol =
  sp_msg_id :: string
  info :: string

fun string_encode :: "string_protocol list \<Rightarrow> tcp_buffer \<Rightarrow> tcp_buffer option" where
  "string_encode [] out_buffer = Some out_buffer"
| "string_encode (msg # messages) out_buffer = do {
     out_buffer' \<leftarrow> writeToBuffer out_buffer (info msg);
     string_encode messages out_buffer' }"

definition string_decode ::
    "string_protocol list \<Rightarrow> tcp_buffer \<Rightarrow> (string_protocol list \<times> tcp_buffer) option" where
  "string_decode out_messages buffer = do {
     (re, buffer') \<leftarrow> readFromBuffer buffer [] (readAble buffer);
     Some (out_messages @ [\<lparr>sp_msg_id = ''12345'', info = re\<rparr>], buffer') }"

section \<open>Frames\<close>

definition frame_bytes :: "tiny_pb \<Rightarrow> byte list" where
  "frame_bytes m = [PB_START] @ htonl_bytes (word_of_nat (frame_size m))
     @ htonl_bytes (word_of_nat (length (m_msg_id m))) @ m_msg_id m
     @ htonl_bytes (word_of_nat (length (m_method_name m))) @ m_method_name m
     @ htonl_bytes (m_err_code m)
     @ htonl_bytes (word_of_nat (length (m_err_info m))) @ m_err_info m
     @ m_pb_data m @ htonl_bytes 1 @ [PB_END]"

text \<open>The message a receiver should rebuild from a sent one.\<close>

definition received :: "tiny_pb \<Rightarrow> tiny_pb" where
  "received m = m\<lparr>m_pk_len := word_of_nat (frame_size m),
     m_msg_id_len := word_of_nat (length (m_msg_id m)),
     m_method_name_len := word_of_nat (length (m_method_name m)),
     m_err_info_len := word_of_nat (length (m_err_info m)),
     m_check_sum := 0, parse_success := True\<rparr>"

text \<open>
  Messages that fit the decoder's fixed arrays (\<open>char[100]\<close>, \<open>char[512]\<close>, \<open>char[512]\<close>, each with
  its terminating NUL) and carry no NUL in the fields it reads as C strings.
\<close>

definition wire_ok :: "tiny_pb \<Rightarrow> bool" where
  "wire_ok m \<longleftrightarrow> m_msg_id m \<noteq> [] \<and> length (m_msg_id m) < 100 \<and> NUL \<notin> set (m_msg_id m)
     \<and> length (m_method_name m) < 512 \<and> NUL \<notin> set (m_method_name m)
     \<and> length (m_err_info m) < 512 \<and> NUL \<notin> set (m_err_info m)
     \<and> int (frame_size m) \<le> INT_MAX"

lemma length_frame_bytes [simp]: "length (frame_bytes m) = frame_size m"
  by (simp add: frame_bytes_def frame_size_def)

lemma frame_bytes_nonempty [simp]: "frame_bytes m \<noteq> []"
  by (simp add: frame_bytes_def)

lemma encodeTinyPB_frame:
  "int (frame_size (with_msg_id m)) \<le> INT_MAX \<Longrightarrow>
   encodeTinyPB m = Some (frame_bytes (with_msg_id m),
     (received (with_msg_id m))\<lparr>m_check_sum := m_check_sum m\<rparr>)"
  by (simp add: encodeTinyPB_def frame_bytes_def received_def Let_def with_msg_id_def)

lemma with_msg_id_wire_ok: "wire_ok m \<Longrightarrow> with_msg_id m = m"
  by (simp add: with_msg_id_def wire_ok_def)

lemma getInt32_at [talon_ub]:
  "mem = a @ htonl_bytes w @ c \<Longrightarrow> i = int (length a) \<Longrightarrow> getInt32FromNetByte mem i = Some w"
  unfolding getInt32FromNetByte_def
  by (subst mem_read_at [where a = a and f = "htonl_bytes w" and c = c]) simp_all

text \<open>Where the fields of a frame lie in the received bytes.\<close>

lemma frame_fields:
  fixes m :: tiny_pb
  defines "li \<equiv> word_of_nat (length (m_msg_id m)) :: int32" and "lm \<equiv> word_of_nat (length (m_method_name m)) :: int32"
    and "le \<equiv> word_of_nat (length (m_err_info m)) :: int32"
  assumes ok: "wire_ok m" and tmp: "tmp = pre @ frame_bytes m @ post" and s: "s = int (length pre)"
  shows "getInt32FromNetByte tmp (s + 1 + 4) = Some li"
    and "mem_read tmp (s + 1 + 4 + 4) (sint li) = Some (m_msg_id m)"
    and "getInt32FromNetByte tmp (s + 1 + 4 + 4 + sint li) = Some lm"
    and "mem_read tmp (s + 1 + 4 + 4 + sint li + 4) (sint lm) = Some (m_method_name m)"
    and "getInt32FromNetByte tmp (s + 1 + 4 + 4 + sint li + 4 + sint lm) = Some (m_err_code m)"
    and "getInt32FromNetByte tmp (s + 1 + 4 + 4 + sint li + 4 + sint lm + 4) = Some le"
    and "mem_read tmp (s + 1 + 4 + 4 + sint li + 4 + sint lm + 4 + 4) (sint le) = Some (m_err_info m)"
    and "mem_read tmp (s + 1 + 4 + 4 + sint li + 4 + sint lm + 4 + 4 + sint le)
      (sint (word_of_nat (frame_size m) :: int32) - sint lm - sint li - sint le - 2 - 24) = Some (m_pb_data m)"
proof -
  let ?H = "htonl_bytes"
  let ?a1 = "pre @ [PB_START] @ ?H (word_of_nat (frame_size m))" and ?c8 = "?H 1 @ [PB_END] @ post"
  let ?a3 = "?a1 @ ?H li @ m_msg_id m" and ?c6 = "m_err_info m @ m_pb_data m @ ?c8"
  let ?a5 = "?a3 @ ?H lm @ m_method_name m" and ?c4 = "?H (m_err_code m) @ ?H le @ ?c6"
  let ?a7 = "?a5 @ ?H (m_err_code m) @ ?H le" and ?c2 = "?H lm @ m_method_name m @ ?c4"
  have "sint li = int (length (m_msg_id m))" "sint lm = int (length (m_method_name m))" "sint le = int (length (m_err_info m))"
      "sint (word_of_nat (frame_size m) :: int32) = int (frame_size m)"
    using ok by (simp_all add: wire_ok_def sint_word_of_nat_small li_def lm_def le_def)
  note t = tmp frame_bytes_def s this li_def [symmetric] lm_def [symmetric] le_def [symmetric]
  show "getInt32FromNetByte tmp (s + 1 + 4) = Some li"
    by (rule getInt32_at [of _ ?a1 _ "m_msg_id m @ ?c2"]) (simp_all add: t)
  show "mem_read tmp (s + 1 + 4 + 4) (sint li) = Some (m_msg_id m)"
    by (rule mem_read_at [of _ "?a1 @ ?H li" _ ?c2]) (simp_all add: t)
  show "getInt32FromNetByte tmp (s + 1 + 4 + 4 + sint li) = Some lm"
    by (rule getInt32_at [of _ ?a3 _ "m_method_name m @ ?c4"]) (simp_all add: t)
  show "mem_read tmp (s + 1 + 4 + 4 + sint li + 4) (sint lm) = Some (m_method_name m)"
    by (rule mem_read_at [of _ "?a3 @ ?H lm" _ ?c4]) (simp_all add: t)
  show "getInt32FromNetByte tmp (s + 1 + 4 + 4 + sint li + 4 + sint lm) = Some (m_err_code m)"
    by (rule getInt32_at [of _ ?a5 _ "?H le @ ?c6"]) (simp_all add: t)
  show "getInt32FromNetByte tmp (s + 1 + 4 + 4 + sint li + 4 + sint lm + 4) = Some le"
    by (rule getInt32_at [of _ "?a5 @ ?H (m_err_code m)" _ ?c6]) (simp_all add: t)
  show "mem_read tmp (s + 1 + 4 + 4 + sint li + 4 + sint lm + 4 + 4) (sint le) = Some (m_err_info m)"
    by (rule mem_read_at [of _ ?a7 _ "m_pb_data m @ ?c8"]) (simp_all add: t)
  show "mem_read tmp (s + 1 + 4 + 4 + sint li + 4 + sint lm + 4 + 4 + sint le)
      (sint (word_of_nat (frame_size m) :: int32) - sint lm - sint li - sint le - 2 - 24) = Some (m_pb_data m)"
    by (rule mem_read_at [of _ "?a7 @ m_err_info m" _ ?c8]) (simp_all add: t, simp add: frame_size_def)
qed

lemma parse_frame_frame_bytes:
  assumes ok: "wire_ok m" and tmp: "tmp = pre @ frame_bytes m @ post"
    and s: "s = int (length pre)" and e: "e = s + int (frame_size m) - 1"
  shows "parse_frame tmp s e (word_of_nat (frame_size m)) = Some (Some
    (TinyPBProtocol_new\<lparr>m_pk_len := word_of_nat (frame_size m),
       m_msg_id_len := word_of_nat (length (m_msg_id m)), m_msg_id := m_msg_id m,
       m_method_name_len := word_of_nat (length (m_method_name m)), m_method_name := m_method_name m,
       m_err_code := m_err_code m,
       m_err_info_len := word_of_nat (length (m_err_info m)), m_err_info := m_err_info m,
       m_pb_data := m_pb_data m, parse_success := True\<rparr>))"
proof -
  let ?li = "word_of_nat (length (m_msg_id m)) :: int32" and ?lm = "word_of_nat (length (m_method_name m)) :: int32"
  have sz: "sint ?li = int (length (m_msg_id m))" "sint ?lm = int (length (m_method_name m))"
    using ok by (simp_all add: wire_ok_def sint_word_of_nat_small)
  have v: "via_char_array 100 (m_msg_id m) = Some (m_msg_id m)"
      "via_char_array 512 (m_method_name m) = Some (m_method_name m)"
      "via_char_array 512 (m_err_info m) = Some (m_err_info m)"
    using ok by (simp_all add: wire_ok_def via_char_array_id)
  have c: "(e \<le> s + 1 + 4) = False" "(e \<le> s + 1 + 4 + 4 + sint ?li) = False"
      "(e \<le> s + 1 + 4 + 4 + sint ?li + 4 + sint ?lm) = False"
      "(e \<le> s + 1 + 4 + 4 + sint ?li + 4 + sint ?lm + 4) = False"
    by (simp_all add: e sz frame_size_def)
  show ?thesis
    unfolding parse_frame_def Let_def
    by (simp only: c frame_fields [OF ok tmp s] v if_False Option.bind.simps)
qed

lemma received_fields:
  "received m = TinyPBProtocol_new\<lparr>m_pk_len := word_of_nat (frame_size m),
       m_msg_id_len := word_of_nat (length (m_msg_id m)), m_msg_id := m_msg_id m,
       m_method_name_len := word_of_nat (length (m_method_name m)), m_method_name := m_method_name m,
       m_err_code := m_err_code m,
       m_err_info_len := word_of_nat (length (m_err_info m)), m_err_info := m_err_info m,
       m_pb_data := m_pb_data m, parse_success := True\<rparr>"
  by (simp add: received_def TinyPBProtocol_new_def)

section \<open>Scanning\<close>

lemma frame_last: "\<exists>xs. frame_bytes m = xs @ [PB_END]"
  by (simp add: frame_bytes_def)

lemma frame_first: "frame_bytes m = PB_START # tl (frame_bytes m)"
  by (simp add: frame_bytes_def)

lemma frame_header:
  "frame_bytes m = [PB_START] @ htonl_bytes (word_of_nat (frame_size m)) @ drop 5 (frame_bytes m)"
  by (simp add: frame_bytes_def)

lemma frame_size_ge: "26 \<le> frame_size m"
  by (simp add: frame_size_def)

text \<open>What \<open>scan_at\<close> reads at a frame header, whether or not the rest has arrived.\<close>

lemma scan_at_header:
  assumes tmp: "tmp = pre @ [PB_START] @ htonl_bytes (word_of_nat n) @ post"
    and i: "i = length pre" and w: "i + 1 < w" and n: "int i + int n \<le> INT_MAX"
  shows "scan_at tmp w i =
     (let j = int i + int n - 1 in
      if j \<ge> int w then Some None
      else do { e \<leftarrow> mem_get tmp j; Some (if e = PB_END then Some (j, word_of_nat n) else None) })"
proof -
  have g: "mem_get tmp (int i) = Some PB_START"
    by (rule mem_get_at [of _ pre _ "htonl_bytes (word_of_nat n) @ post"]) (simp_all add: tmp i)
  have h: "getInt32FromNetByte tmp (int i + 1) = Some (word_of_nat n)"
    by (rule getInt32_at [of _ "pre @ [PB_START]" _ post]) (simp_all add: tmp i)
  have s: "sint (word_of_nat n :: int32) = int n"
    using n by (intro sint_word_of_nat_small) simp
  have o: "int_ok (int i + int n)" "int_ok (int i + int n - 1)"
    using n by (simp_all add: int_ok_def)
  show ?thesis using w by (simp add: scan_at_def g h s o Let_def cong: if_cong)
qed

lemma scan_at_frame:
  assumes tmp: "tmp = pre @ frame_bytes m @ post" and i: "i = length pre"
    and w: "i + frame_size m \<le> w" and len: "int (length tmp) \<le> INT_MAX"
  shows "scan_at tmp w i = Some (Some (int i + int (frame_size m) - 1, word_of_nat (frame_size m)))"
proof -
  obtain xs where xs: "frame_bytes m = xs @ [PB_END]" using frame_last by blast
  then have lx: "length xs = frame_size m - 1" by (metis length_frame_bytes butlast_snoc length_butlast)
  have e: "mem_get tmp (int i + int (frame_size m) - 1) = Some PB_END"
    using frame_size_ge [of m]
    by (intro mem_get_at [of _ "pre @ xs" _ post]) (simp_all add: tmp xs i lx)
  have t: "tmp = pre @ [PB_START] @ htonl_bytes (word_of_nat (frame_size m))
      @ drop 5 (frame_bytes m) @ post"
    using frame_header [of m] tmp by (metis append.assoc)
  have "int i + int (frame_size m) \<le> INT_MAX" using len by (simp add: tmp i)
  from scan_at_header [OF t i _ this, of w] show ?thesis
    using w e frame_size_ge [of m] by (simp add: Let_def)
qed

lemma scan_no_start:
  assumes "w \<le> length tmp" "\<forall>j. i \<le> j \<and> j < w \<longrightarrow> tmp ! j \<noteq> PB_START"
  shows "scan tmp w i = Some Scan_End"
  using assms
proof (induction tmp w i rule: scan.induct)
  case (1 tmp w i)
  show ?case
  proof (cases "i < w")
    case True
    then have "scan_at tmp w i = Some None" using "1.prems" by (simp add: scan_at_def mem_get_nat)
    then show ?thesis using True 1 by (subst scan.simps) simp
  next
    case False
    then show ?thesis by (subst scan.simps) simp
  qed
qed

text \<open>
  Unread bytes the decoder waits with.  Wherever a start byte occurs in them with a byte behind it, \<^emph>\<open>also inside an
  unfinished frame\<close>, the four bytes read as a length have arrived, and the position they announce lies behind the unread bytes or holds no end byte;
  it does not lie in front of them, and the length is at most \<open>lim\<close>.
\<close>

definition quiet_at :: "int \<Rightarrow> byte list \<Rightarrow> nat \<Rightarrow> bool" where
  "quiet_at lim tail i \<longleftrightarrow> (tail ! i = PB_START \<and> i + 1 < length tail \<longrightarrow>
     i + 5 \<le> length tail \<and>
     (let n = sint (ntohl_bytes (take 4 (drop (i + 1) tail))); j = int i + n - 1 in
      n \<le> lim \<and> 0 \<le> j \<and> (j < int (length tail) \<longrightarrow> tail ! nat j \<noteq> PB_END)))"

definition waiting_tail :: "int \<Rightarrow> byte list \<Rightarrow> bool" where
  "waiting_tail lim tail \<longleftrightarrow> (\<forall>i < length tail. quiet_at lim tail i)"

lemma scan_at_quiet:
  assumes tmp: "tmp = pre @ tail @ post" and w: "w = length pre + length tail" and i: "i < length tail"
    and q: "quiet_at lim tail i" and b: "int (length tmp) + lim \<le> INT_MAX"
  shows "scan_at tmp w (length pre + i) = Some None"
proof (cases "tail ! i = PB_START \<and> i + 1 < length tail")
  case False
  have "mem_get tmp (int (length pre + i)) = Some (tail ! i)"
    using i by (subst mem_get_nat) (simp_all add: tmp nth_append)
  then show ?thesis using False i w by (auto simp: scan_at_def)
next
  case True
  define n where "n = ntohl_bytes (take 4 (drop (i + 1) tail))"
  have l: "i + 5 \<le> length tail" "sint n \<le> lim" "0 \<le> int i + sint n - 1"
      "int i + sint n - 1 < int (length tail) \<longrightarrow> tail ! nat (int i + sint n - 1) \<noteq> PB_END"
    using q True by (simp_all add: quiet_at_def Let_def n_def)
  have c: "mem_get tmp (int (length pre + i)) = Some PB_START"
    using i True by (subst mem_get_nat) (simp_all add: tmp nth_append)
  have "mem_read tmp (int (length pre + i + 1)) (int 4) = Some (take 4 (drop (i + 1) tail))"
    using l(1) by (subst mem_read_nat) (simp_all add: tmp)
  then have g: "getInt32FromNetByte tmp (int (length pre + i) + 1) = Some n"
    by (simp add: getInt32FromNetByte_def n_def algebra_simps)
  have o: "int_ok (int (length pre + i) + sint n)" "int_ok (int (length pre + i) + sint n - 1)"
    using l b i by (simp_all add: int_ok_def tmp)
  let ?j = "int (length pre + i) + sint n - 1"
  have e: "mem_get tmp ?j = Some (tail ! nat (int i + sint n - 1))" if "?j < int w"
  proof -
    define k where "k = nat (int i + sint n - 1)"
    have "?j = int (length pre + k)" "k < length tail" using that l(3) w by (simp_all add: k_def)
    then show ?thesis by (simp only: k_def [symmetric]) (subst mem_get_nat, simp_all add: tmp nth_append)
  qed
  show ?thesis
  proof (cases "?j < int w")
    case True
    then have "int i + sint n - 1 < int (length tail)" using w by simp
    then show ?thesis using True e [OF True] l(4) \<open>tail ! i = PB_START \<and> i + 1 < length tail\<close> w
      by (simp only: scan_at_def c g o Option.bind.simps) (simp add: Let_def o)
  next
    case False
    then show ?thesis using \<open>tail ! i = PB_START \<and> i + 1 < length tail\<close> w
      by (simp only: scan_at_def c g o Option.bind.simps) (simp add: Let_def o)
  qed
qed

text \<open>The scan passes over quiet positions.\<close>

lemma scan_quiet:
  assumes "tmp = pre @ tail @ post" "w = length pre + length tail" "k \<le> length tail"
    and "\<forall>i < k. quiet_at lim tail i" "int (length tmp) + lim \<le> INT_MAX"
  shows "scan tmp w (length pre) = scan tmp w (length pre + k)"
  using assms(3,4)
proof (induction k)
  case (Suc k)
  have "scan_at tmp w (length pre + k) = Some None"
    using Suc.prems by (intro scan_at_quiet [OF assms(1,2) _ _ assms(5)]) simp_all
  then have "scan tmp w (length pre + k) = scan tmp w (length pre + Suc k)"
    using Suc.prems(1) assms(2) by (subst scan.simps) simp
  then show ?case using Suc by simp
qed simp

lemma scan_waiting_tail:
  assumes "tmp = pre @ tail @ post" "w = length pre + length tail"
    and "waiting_tail lim tail" "int (length tmp) + lim \<le> INT_MAX"
  shows "scan tmp w (length pre) = Some Scan_End"
proof -
  have "scan tmp w (length pre + length tail) = Some Scan_End" using assms(2) by (subst scan.simps) simp
  then show ?thesis using scan_quiet [OF assms(1,2) le_refl _ assms(4)] assms(3) by (simp add: waiting_tail_def)
qed

text \<open>A frame of which one byte or the header has arrived, with no other start byte in what has arrived, is waited for.\<close>

lemma waiting_tail_Nil [simp]: "waiting_tail lim []"
  by (simp add: waiting_tail_def)

lemma frame_prefix_waits:
  assumes "tail = take n (frame_bytes m)" "n = 1 \<or> 5 \<le> n" "n < frame_size m" "PB_START \<notin> set (tl tail)"
    and "int (frame_size m) \<le> lim" "int (frame_size m) \<le> INT_MAX"
  shows "waiting_tail lim tail"
  unfolding waiting_tail_def
proof (intro allI impI)
  fix i assume i: "i < length tail"
  have l: "length tail = n" using assms(1,3) by simp
  show "quiet_at lim tail i"
  proof (cases i)
    case 0
    have s: "sint (word_of_nat (frame_size m) :: int32) = int (frame_size m)"
      using assms(6) by (intro sint_word_of_nat_small) simp
    show ?thesis
    proof (cases "n = 1")
      case False
      then have "take 4 (drop 1 tail) = take 4 (drop 1 (frame_bytes m))" using assms(1,2) by (simp add: drop_take)
      also have "\<dots> = htonl_bytes (word_of_nat (frame_size m))" by (subst frame_header) simp
      finally have "sint (ntohl_bytes (take 4 (drop 1 tail))) = int (frame_size m)" using s by simp
      then show ?thesis using 0 False assms(2,3,5) l frame_size_ge [of m] by (simp add: quiet_at_def Let_def)
    qed (use 0 l in \<open>simp add: quiet_at_def\<close>)
  next
    case (Suc k)
    then have "tail ! i = tl tail ! k" "k < length (tl tail)" using i by (simp_all add: nth_tl)
    then have "tail ! i \<noteq> PB_START" using assms(4) by (metis nth_mem)
    then show ?thesis by (simp add: quiet_at_def)
  qed
qed

section \<open>The decoding loop\<close>

text \<open>The loop body on a frame behind junk that holds no start byte.\<close>

lemma scan_skip:
  assumes "tmp = pre @ junk @ rest" "PB_START \<notin> set junk" "length pre + length junk \<le> w"
  shows "scan tmp w (length pre) = scan tmp w (length pre + length junk)"
  using assms
proof (induction junk arbitrary: pre)
  case Nil
  then show ?case by simp
next
  case (Cons x junk)
  have "scan_at tmp w (length pre) = Some None"
    using Cons.prems by (auto simp: scan_at_def mem_get_def)
  then have "scan tmp w (length pre) = scan tmp w (length (pre @ [x]))"
    using Cons.prems(3) by (subst scan.simps) simp
  also have "\<dots> = scan tmp w (length (pre @ [x]) + length junk)"
    by (rule Cons.IH) (use Cons.prems in auto)
  finally show ?case by simp
qed

lemma decode_step_found:
  assumes i: "buf_inv b" and c: "contents b = junk @ frame_bytes m @ rest" and ok: "wire_ok m"
    and j: "PB_START \<notin> set junk"
  shows "decode_step b = do { b' \<leftarrow> moveReadIndex b (int (frame_size m));
    Some (Decode_Next b' (Some (received m))) }"
proof -
  let ?r = "m_read_index b" and ?n = "frame_size m"
  let ?p = "take ?r (m_buffer b)" and ?post = "rest @ drop (m_write_index b) (m_buffer b)"
  define k where "k = ?r + length junk"
  have tmp0: "m_buffer b = ?p @ junk @ frame_bytes m @ ?post" using buffer_split [OF i] c by simp
  then have tmp: "m_buffer b = (?p @ junk) @ frame_bytes m @ ?post" by simp
  have lp: "length ?p = ?r" using i by (auto simp: buf_inv_def)
  then have lk: "length (?p @ junk) = k" by (simp add: k_def)
  have rn: "k + ?n \<le> m_write_index b"
    using contents_length [OF i] c i by (auto simp: buf_inv_def k_def)
  have len: "int (length (m_buffer b)) \<le> INT_MAX" using i by (simp add: buf_inv_def)
  have sk: "scan (m_buffer b) (m_write_index b) ?r = scan (m_buffer b) (m_write_index b) k"
    using scan_skip [OF tmp0 j, of "m_write_index b"] lp rn by (simp add: k_def)
  have "scan_at (m_buffer b) (m_write_index b) k = Some (Some (int k + int ?n - 1, word_of_nat ?n))"
    using scan_at_frame [OF tmp lk [symmetric] rn len] .
  then have s: "scan (m_buffer b) (m_write_index b) ?r
      = Some (Scan_Found k (int k + int ?n - 1) (word_of_nat ?n))"
    unfolding sk using rn frame_size_ge [of m] by (subst scan.simps) simp
  have p: "parse_frame (m_buffer b) (int k) (int k + int ?n - 1) (word_of_nat ?n)
      = Some (Some (received m))"
    unfolding received_fields
    by (rule parse_frame_frame_bytes [OF ok tmp]) (simp_all only: lk)
  have e: "int k + int ?n - 1 - int k + 1 = int ?n" by simp
  show ?thesis
    unfolding decode_step_def Let_def readIndex_def writeIndex_def
    by (simp only: s Option.bind.simps scan_result.case e p)
qed

lemma decode_step_junk_frame:
  assumes i: "buf_inv b" and w: "m_write_index b < length (m_buffer b)"
    and c: "contents b = junk @ frame_bytes m @ rest" and ok: "wire_ok m"
    and j: "PB_START \<notin> set junk"
  shows "\<exists>b'. decode_step b = Some (Decode_Next b' (Some (received m))) \<and> buf_inv b'
    \<and> contents b' = drop (frame_size m) (junk @ frame_bytes m @ rest) \<and> m_write_index b' \<le> m_write_index b
    \<and> m_write_index b' < length (m_buffer b') \<and> length (m_buffer b') = length (m_buffer b)"
proof -
  have n: "frame_size m \<le> length (contents b)" using c by simp
  then have "m_read_index b + frame_size m < length (m_buffer b)"
    using contents_length [OF i] i w by (auto simp: buf_inv_def)
  then show ?thesis
    using moveReadIndex_drop [OF i n] decode_step_found [OF i c ok j] c w by fastforce
qed

lemma decode_step_frame:
  assumes "buf_inv b" "m_write_index b < length (m_buffer b)"
    "contents b = frame_bytes m @ rest" "wire_ok m"
  shows "\<exists>b'. decode_step b = Some (Decode_Next b' (Some (received m))) \<and> buf_inv b'
    \<and> contents b' = rest \<and> m_write_index b' \<le> m_write_index b \<and> m_write_index b' < length (m_buffer b')
    \<and> length (m_buffer b') = length (m_buffer b)"
  using decode_step_junk_frame [OF assms(1,2), of "[]" m rest] assms(3,4) by auto

lemma decode_step_waiting:
  assumes i: "buf_inv b" and c: "waiting_tail lim (contents b)"
    and len: "int (length (m_buffer b)) + lim \<le> INT_MAX"
  shows "decode_step b = Some Decode_End"
proof -
  have lp: "length (take (m_read_index b) (m_buffer b)) = m_read_index b"
    using i by (auto simp: buf_inv_def)
  have "m_write_index b = m_read_index b + length (contents b)"
    using contents_length [OF i] i by (simp add: buf_inv_def)
  then have "scan (m_buffer b) (m_write_index b) (m_read_index b) = Some Scan_End"
    using scan_waiting_tail [OF buffer_split [OF i] _ c len] lp by simp
  then show ?thesis by (simp add: decode_step_def readIndex_def writeIndex_def)
qed

text \<open>Complete frames at the front are consumed one by one, and the loop goes on with the rest.\<close>

lemma decode_consumes:
  assumes "\<forall>m \<in> set ms. wire_ok m" "buf_inv b" "m_write_index b < length (m_buffer b)"
    "contents b = concat (map frame_bytes ms) @ rest"
  shows "\<exists>b'. decode out b = decode (out @ map received ms) b' \<and> buf_inv b' \<and> contents b' = rest \<and> m_write_index b' \<le> m_write_index b
    \<and> m_write_index b' < length (m_buffer b') \<and> length (m_buffer b') = length (m_buffer b)"
  using assms
proof (induction ms arbitrary: b out)
  case Nil
  then show ?case by auto
next
  case (Cons x ms)
  obtain b1 where b1: "decode_step b = Some (Decode_Next b1 (Some (received x)))" "buf_inv b1"
      "contents b1 = concat (map frame_bytes ms) @ rest" "m_write_index b1 \<le> m_write_index b" "m_write_index b1 < length (m_buffer b1)"
      "length (m_buffer b1) = length (m_buffer b)"
    using decode_step_frame [OF Cons.prems(2,3), of x "concat (map frame_bytes ms) @ rest"]
      Cons.prems by auto
  have "decode out b = decode (out @ [received x]) b1"
    using b1(1) by (subst decode.simps) simp
  then show ?case using Cons.IH [of b1 "out @ [received x]"] Cons.prems(1) b1 by fastforce
qed

lemma decode_empty:
  assumes "buf_inv b" "contents b = []"
  shows "decode out b = Some (Returns (out, b))"
proof -
  have "scan (m_buffer b) (m_write_index b) (m_read_index b) = Some Scan_End"
    using contents_length [OF assms(1)] assms(2) by (simp add: scan.simps)
  then have "decode_step b = Some Decode_End"
    by (simp add: decode_step_def readIndex_def writeIndex_def)
  then show ?thesis by (subst decode.simps) simp
qed

lemma decode_frames:
  assumes "\<forall>m \<in> set ms. wire_ok m" "buf_inv b" "m_write_index b < length (m_buffer b)"
    "contents b = concat (map frame_bytes ms) @ tail" "waiting_tail lim tail"
    "int (length (m_buffer b)) + lim \<le> INT_MAX"
  shows "\<exists>b'. decode out b = Some (Returns (out @ map received ms, b')) \<and> buf_inv b'
    \<and> contents b' = tail \<and> m_write_index b' \<le> m_write_index b \<and> m_write_index b' < length (m_buffer b')
    \<and> length (m_buffer b') = length (m_buffer b)"
proof -
  obtain b' where b': "decode out b = decode (out @ map received ms) b'" "buf_inv b'"
      "contents b' = tail" "m_write_index b' \<le> m_write_index b" "m_write_index b' < length (m_buffer b')"
      "length (m_buffer b') = length (m_buffer b)"
    using decode_consumes [OF assms(1-4)] by blast
  have "decode_step b' = Some Decode_End"
    using decode_step_waiting [OF b'(2), of lim] b' assms(5,6) by simp
  then have "decode (out @ map received ms) b' = Some (Returns (out @ map received ms, b'))"
    by (subst decode.simps) simp
  with b' show ?thesis by auto
qed

text \<open>A set of buffers the loop body never leaves is a set on which \<open>decode\<close> never returns.\<close>

lemma decode_diverges:
  assumes step: "\<And>b. b \<in> S \<Longrightarrow> \<exists>b' m. decode_step b = Some (Decode_Next b' m) \<and> b' \<in> S"
    and b: "b \<in> S"
  shows "decode out b = None"
proof (rule ccontr)
  assume "decode out b \<noteq> None"
  then obtain y where y: "decode out b = Some y" by blast
  have "b \<notin> S"
  proof (rule decode.raw_induct [where P = "\<lambda>out b y. b \<notin> S", OF _ y])
    fix d :: "tiny_pb list \<Rightarrow> tcp_buffer \<Rightarrow> (tiny_pb list \<times> tcp_buffer) outcome option"
    fix out b y
    assume IH: "\<And>out b y. d out b = Some y \<Longrightarrow> b \<notin> S"
      and body: "(case decode_step b of None \<Rightarrow> Some Undefined
        | Some Decode_End \<Rightarrow> Some (Returns (out, b))
        | Some (Decode_Next buffer' message) \<Rightarrow>
            d (out @ (case message of None \<Rightarrow> [] | Some m \<Rightarrow> [m])) buffer') = Some y"
    show "b \<notin> S"
    proof
      assume "b \<in> S"
      then obtain b' m where "decode_step b = Some (Decode_Next b' m)" "b' \<in> S" using step by blast
      with body IH show False by auto
    qed
  qed
  with b show False by blast
qed

section \<open>Encoding into a buffer\<close>

definition sent :: "tiny_pb \<Rightarrow> tiny_pb" where
  "sent m = (received m)\<lparr>m_check_sum := m_check_sum m\<rparr>"

lemma encode_put_all:
  "\<forall>m \<in> set ms. wire_ok m \<Longrightarrow>
   encode ms b = do { b' \<leftarrow> tb.put_all b (map frame_bytes ms); Some (map sent ms, b') }"
proof (induction ms arbitrary: b)
  case Nil
  show ?case by simp
next
  case (Cons m ms)
  have "encodeTinyPB m = Some (frame_bytes m, sent m)"
    using Cons.prems by (simp add: encodeTinyPB_frame with_msg_id_wire_ok wire_ok_def sent_def)
  then show ?case using Cons by (cases "writeToBuffer b (frame_bytes m)") (auto simp: bind_eq_None_conv)
qed

lemma encode_frames:
  assumes "\<forall>m \<in> set ms. wire_ok m" "buf_inv b" "buf_room b (length (concat (map frame_bytes ms)))"
  shows "\<exists>b'. encode ms b = Some (map sent ms, b') \<and> buf_inv b'
    \<and> contents b' = contents b @ concat (map frame_bytes ms)"
  using tb.put_all_spec [OF assms(2,3)] encode_put_all [OF assms(1)] by auto

lemma string_encode_put_all: "string_encode ms b = tb.put_all b (map info ms)"
proof (induction ms arbitrary: b)
  case Nil
  show ?case by simp
next
  case (Cons m ms)
  then show ?case by (cases "writeToBuffer b (info m)") simp_all
qed

section \<open>The interface of a coder\<close>

text \<open>
  What a connection relies on, \<^verbatim>\<open>AbstractCoder\<close>: \<open>enc\<close> appends one frame per message, and \<open>dec\<close>
  returns the messages of the complete frames at the front of the buffer and leaves an
  unfinished frame in it.  \<open>fits\<close> collects the side conditions on the receiving buffer.
\<close>

locale message_coder =
  fixes ok :: "'m \<Rightarrow> bool"
    and frame :: "'m \<Rightarrow> byte list"
    and recv :: "'m \<Rightarrow> 'm"
    and enc :: "'m list \<Rightarrow> tcp_buffer \<Rightarrow> ('m list \<times> tcp_buffer) option"
    and dec :: "'m list \<Rightarrow> tcp_buffer \<Rightarrow> ('m list \<times> tcp_buffer) outcome option"
  assumes enc_spec: "\<forall>m \<in> set ms. ok m \<Longrightarrow> buf_inv b \<Longrightarrow>
      buf_room b (length (concat (map frame ms))) \<Longrightarrow>
      \<exists>ms' b'. enc ms b = Some (ms', b') \<and> buf_inv b' \<and> contents b' = contents b @ concat (map frame ms)"
    and dec_spec: "\<forall>m \<in> set ms. ok m \<Longrightarrow> buf_inv b \<Longrightarrow>
      m_write_index b < length (m_buffer b) \<Longrightarrow> contents b = concat (map frame ms) \<Longrightarrow>
      \<exists>b'. dec out b = Some (Returns (out @ map recv ms, b')) \<and> buf_inv b' \<and> contents b' = []
         \<and> m_write_index b' < length (m_buffer b') \<and> length (m_buffer b') = length (m_buffer b)"
begin

text \<open>A batch of messages crosses from a sender's buffer to a receiver's.\<close>

lemma transfer:
  assumes "\<forall>m \<in> set ms. ok m" "buf_inv ob" "contents ob = []"
    and "buf_room ob (length (concat (map frame ms)))" "enc ms ob = Some (ms', ob')"
    and "buf_inv ib" "m_write_index ib < length (m_buffer ib)" "contents ib = contents ob'"
  shows "\<exists>ib'. dec [] ib = Some (Returns (map recv ms, ib')) \<and> buf_inv ib' \<and> contents ib' = []"
proof -
  have "contents ob' = concat (map frame ms)" using enc_spec [OF assms(1,2,4)] assms(3,5) by auto
  then show ?thesis using dec_spec [OF assms(1,6,7), of "[]"] assms(8) by auto
qed

end

lemma decode_all:
  assumes "\<forall>m \<in> set ms. wire_ok m" "buf_inv b" "m_write_index b < length (m_buffer b)"
    "contents b = concat (map frame_bytes ms)"
  shows "\<exists>b'. decode out b = Some (Returns (out @ map received ms, b')) \<and> buf_inv b' \<and> contents b' = []
         \<and> m_write_index b' < length (m_buffer b') \<and> length (m_buffer b') = length (m_buffer b)"
  using decode_consumes [OF assms(1-3), of "[]" out] assms(4) decode_empty by fastforce

interpretation tpb: message_coder wire_ok frame_bytes received encode decode
proof unfold_locales
  fix ms b
  assume "\<forall>m \<in> set ms. wire_ok m" "buf_inv b" "buf_room b (length (concat (map frame_bytes ms)))"
  then show "\<exists>ms' b'. encode ms b = Some (ms', b') \<and> buf_inv b'
      \<and> contents b' = contents b @ concat (map frame_bytes ms)"
    using encode_frames by blast
qed (rule decode_all)

section \<open>Properties\<close>

definition demo_msg :: tiny_pb where
  "demo_msg = TinyPBProtocol_new\<lparr>m_msg_id := ''17'', m_method_name := ''Order.makeOrder'',
     m_pb_data := [CHR 0x08, CHR 0x64]\<rparr>"

definition demo_buffer :: "byte list \<Rightarrow> tcp_buffer" where
  "demo_buffer bs = \<lparr>m_read_index = 0, m_write_index = length bs, m_size = 128,
     m_buffer = bs @ replicate 8 NUL\<rparr>"

lemma demo_msg_wire_ok: "wire_ok demo_msg"
  by (simp add: wire_ok_def demo_msg_def TinyPBProtocol_new_def frame_size_def)

lemma frame_size_demo_msg: "frame_size demo_msg = 45"
  by (simp add: demo_msg_def TinyPBProtocol_new_def frame_size_def)

lemma demo_buffer_simps [simp]:
  "contents (demo_buffer bs) = bs" "m_write_index (demo_buffer bs) < length (m_buffer (demo_buffer bs))"
  by (simp_all add: demo_buffer_def contents_def)

lemma demo_buffer_inv: "length bs \<le> 1000 \<Longrightarrow> buf_inv (demo_buffer bs)"
  by (simp add: demo_buffer_def buf_inv_def)

text \<open>
  C6. Encoding then decoding is the identity: a batch of well-formed messages encoded into an
  empty buffer and received into another is decoded back, in order, with every field restored;
  the loop returns and leaves nothing unread.
\<close>

theorem encode_decode_roundtrip:
  assumes "\<forall>m \<in> set ms. wire_ok m" "buf_inv ob" "contents ob = []"
    and "buf_room ob (length (concat (map frame_bytes ms)))" "encode ms ob = Some (ms', ob')"
    and "buf_inv ib" "m_write_index ib < length (m_buffer ib)" "contents ib = contents ob'"
  shows "\<exists>ib'. decode [] ib = Some (Returns (map received ms, ib')) \<and> buf_inv ib' \<and> contents ib' = []"
  using assms by (rule tpb.transfer)

theorem encode_decode_roundtrip_witness:
  "\<exists>ms' ob' ib'. encode [demo_msg] (demo_buffer []) = Some (ms', ob')
     \<and> decode [] (demo_buffer (contents ob')) = Some (Returns ([received demo_msg], ib'))"
proof -
  have room: "buf_room (demo_buffer []) (length (concat (map frame_bytes [demo_msg])))"
    by (simp add: buf_room_def demo_buffer_def frame_size_demo_msg)
  have ok: "\<forall>m \<in> set [demo_msg]. wire_ok m" by (simp add: demo_msg_wire_ok)
  obtain ms' ob' where e: "encode [demo_msg] (demo_buffer []) = Some (ms', ob')"
      "contents ob' = frame_bytes demo_msg"
    using encode_frames [OF ok demo_buffer_inv room] by auto
  have i: "buf_inv (demo_buffer (contents ob'))"
    by (rule demo_buffer_inv) (simp add: e frame_size_demo_msg)
  from encode_decode_roundtrip [OF ok demo_buffer_inv _ room e(1) i] e show ?thesis by auto
qed

text \<open>
  C7. Streaming: the complete frames at the front of the unread bytes are decoded, each once and in order, and the bytes behind them stay unread
  until more arrive, provided these bytes make the decoder wait (\<open>waiting_tail\<close>): the decoder looks for frames inside an unfinished frame too, so
  every byte 0x02 in it that is followed by another must be followed by four bytes, and the length these four bytes make up must lead
  behind the unread bytes or to a byte other than 0x03.  An unfinished frame without a further 0x02 of which one byte or at least
  the five-byte header has arrived is such a rest.
\<close>

theorem decode_streaming:
  assumes "\<forall>m \<in> set ms. wire_ok m" "buf_inv b" "m_write_index b < length (m_buffer b)"
    and "contents b = concat (map frame_bytes ms) @ tail" "waiting_tail lim tail"
    and "int (length (m_buffer b)) + lim \<le> INT_MAX"
  shows "\<exists>b'. decode out b = Some (Returns (out @ map received ms, b')) \<and> buf_inv b' \<and> contents b' = tail"
  using decode_frames [OF assms] by blast

text \<open>A frame and seven bytes of another one; and an unfinished frame with bytes 02 in its message id that announce a length of 16 MB.\<close>

lemma demo_prefix_waits: "45 \<le> lim \<Longrightarrow> waiting_tail lim (take 7 (frame_bytes demo_msg))"
proof (rule frame_prefix_waits [OF refl])
  have "take 7 (frame_bytes demo_msg) = [PB_START, NUL, NUL, NUL, CHR ''-'', NUL, NUL]"
    unfolding frame_bytes_def frame_size_demo_msg by (simp add: talon_eval demo_msg_def TinyPBProtocol_new_def)
  then show "PB_START \<notin> set (tl (take 7 (frame_bytes demo_msg)))" by (simp add: PB_START_def)
qed (simp_all add: frame_size_demo_msg)

theorem decode_streaming_witness:
  "(\<exists>b'. decode [] (demo_buffer (frame_bytes demo_msg @ take 7 (frame_bytes demo_msg)))
     = Some (Returns ([received demo_msg], b')) \<and> contents b' = take 7 (frame_bytes demo_msg)) \<and>
   (\<exists>b'. decode [] (demo_buffer [PB_START, NUL, NUL, NUL, CHR ''-'', PB_START, CHR 0x01, NUL, NUL, NUL])
     = Some (Returns ([], b')) \<and> contents b' = [PB_START, NUL, NUL, NUL, CHR ''-'', PB_START, CHR 0x01, NUL, NUL, NUL])"
proof
  have "contents (demo_buffer (frame_bytes demo_msg @ take 7 (frame_bytes demo_msg)))
      = concat (map frame_bytes [demo_msg]) @ take 7 (frame_bytes demo_msg)" by simp
  from decode_streaming [OF _ demo_buffer_inv _ this demo_prefix_waits [of 45], of "[]"]
  show "\<exists>b'. decode [] (demo_buffer (frame_bytes demo_msg @ take 7 (frame_bytes demo_msg)))
     = Some (Returns ([received demo_msg], b')) \<and> contents b' = take 7 (frame_bytes demo_msg)"
    by (auto simp: demo_msg_wire_ok frame_size_demo_msg demo_buffer_def)
  let ?t = "[PB_START, NUL, NUL, NUL, CHR ''-'', PB_START, CHR 0x01, NUL, NUL, NUL]"
  have w: "waiting_tail 16777216 ?t"
    by (simp add: waiting_tail_def quiet_at_def less_Suc_eq all_conj_distrib nth_Cons' talon_eval PB_START_def PB_END_def)
  have "contents (demo_buffer ?t) = concat (map frame_bytes []) @ ?t" by simp
  from decode_streaming [OF _ demo_buffer_inv _ this w, of "[]"]
  show "\<exists>b'. decode [] (demo_buffer ?t) = Some (Returns ([], b')) \<and> contents b' = ?t"
    by (auto simp: demo_buffer_def)
qed

text \<open>
  C23. \<open>encodeTinyPB\<close> fills the block it allocates exactly: it writes \<open>pk_len\<close> bytes, announces that
  length in the packet, and starts and ends with the delimiters.
\<close>

theorem encodeTinyPB_exact:
  assumes "encodeTinyPB m = Some (buf, m')"
  shows "int (length buf) = sint (m_pk_len m') \<and> hd buf = PB_START \<and> last buf = PB_END
    \<and> ntohl_bytes (take 4 (drop 1 buf)) = m_pk_len m' \<and> m_msg_id m' \<noteq> []"
proof -
  have l: "int (frame_size (with_msg_id m)) \<le> INT_MAX"
    using assms by (auto simp: encodeTinyPB_def Let_def split: if_splits)
  then have e: "buf = frame_bytes (with_msg_id m)"
      "m' = (received (with_msg_id m))\<lparr>m_check_sum := m_check_sum m\<rparr>"
    using assms encodeTinyPB_frame [OF l] by auto
  have "sint (word_of_nat (frame_size (with_msg_id m)) :: int32) = int (frame_size (with_msg_id m))"
    using l by (intro sint_word_of_nat_small) simp
  then show ?thesis
    by (simp add: e received_def frame_bytes_def with_msg_id_def)
       (simp add: frame_size_def)
qed

theorem encodeTinyPB_exact_witness:
  "\<exists>buf m'. encodeTinyPB demo_msg = Some (buf, m') \<and> int (length buf) = sint (m_pk_len m')"
proof -
  have "encodeTinyPB demo_msg = Some (frame_bytes demo_msg, sent demo_msg)"
    using demo_msg_wire_ok
    by (simp add: encodeTinyPB_frame with_msg_id_wire_ok wire_ok_def sent_def demo_msg_def
        TinyPBProtocol_new_def)
  with encodeTinyPB_exact [OF this] show ?thesis by blast
qed

text \<open>
  C37. A frame behind bytes that do not start a frame is decoded, but the read index advances by
  the frame's length only and not past the junk: with as many junk bytes as the frame is long,
  the same message is delivered twice.
\<close>

theorem decode_duplicates_after_junk:
  assumes "buf_inv b" "m_write_index b < length (m_buffer b)" "wire_ok m"
    and "contents b = junk @ frame_bytes m" "PB_START \<notin> set junk" "length junk = frame_size m"
  shows "\<exists>b'. decode [] b = Some (Returns ([received m, received m], b')) \<and> contents b' = []"
proof -
  obtain b1 where b1: "decode_step b = Some (Decode_Next b1 (Some (received m)))" "buf_inv b1"
      "contents b1 = frame_bytes m" "m_write_index b1 < length (m_buffer b1)"
    using decode_step_junk_frame [OF assms(1,2), of junk m "[]"] assms(3-6) by auto
  have "decode [] b = decode [received m] b1" using b1(1) by (subst decode.simps) simp
  then show ?thesis using decode_all [of "[m]" b1 "[received m]"] b1 assms(3) by auto
qed

theorem decode_duplicates_after_junk_witness:
  "\<exists>b'. decode [] (demo_buffer (replicate 45 NUL @ frame_bytes demo_msg))
     = Some (Returns ([received demo_msg, received demo_msg], b'))"
proof -
  have "buf_inv (demo_buffer (replicate 45 NUL @ frame_bytes demo_msg))"
    by (rule demo_buffer_inv) (simp add: frame_size_demo_msg)
  from decode_duplicates_after_junk [OF this _ demo_msg_wire_ok, of "replicate 45 NUL"]
  show ?thesis by (auto simp: frame_size_demo_msg PB_START_def)
qed

text \<open>
  C38. A peer can hang the decoder: an end byte directly in front of a start byte that announces packet length 0
  is accepted as the end of a frame of length 0, so the loop consumes nothing and never returns.  It does so wherever these six bytes
  are in the unread bytes, when nothing in front of them ends a frame; in particular (as in the witness) inside the argument of a
  well-formed request of which this part has arrived.
\<close>

theorem decode_hangs_on_zero_length:
  assumes "buf_inv b" "contents b = pre @ [PB_END, PB_START, NUL, NUL, NUL, NUL] @ rest"
    and "\<forall>i < length pre. quiet_at lim (contents b) i" "int (length (m_buffer b)) + lim \<le> INT_MAX"
  shows "decode out b = None"
proof (rule decode_diverges
    [where S = "{x. buf_inv x \<and> contents x = contents b \<and> length (m_buffer x) = length (m_buffer b)}"])
  fix x assume x: "x \<in> {x. buf_inv x \<and> contents x = contents b \<and> length (m_buffer x) = length (m_buffer b)}"
  then have i: "buf_inv x" and c: "contents x = pre @ [PB_END, PB_START, NUL, NUL, NUL, NUL] @ rest" using assms(2) by auto
  let ?r = "m_read_index x" and ?w = "m_write_index x" and ?m = "m_buffer x" and ?k = "m_read_index x + length pre"
  let ?p = "take ?r ?m" and ?q = "rest @ drop ?w ?m"
  have lp: "length ?p = ?r" "?w = ?r + length (contents x)" using i contents_length [OF i] by (auto simp: buf_inv_def)
  have z: "htonl_bytes (word_of_nat 0) = [NUL, NUL, NUL, NUL]" by (simp add: talon_eval)
  have m: "?m = (?p @ pre @ [PB_END]) @ [PB_START] @ htonl_bytes (word_of_nat 0) @ ?q"
    using buffer_split [OF i] unfolding c z by simp
  have w: "?k + 6 \<le> ?w" "?w \<le> length ?m" "int (length ?m) \<le> INT_MAX"
    using lp(2) c i by (auto simp: buf_inv_def)
  have g: "mem_get ?m (int ?k) = Some PB_END"
    by (rule mem_get_at [of _ "?p @ pre" _ "[PB_START] @ htonl_bytes (word_of_nat 0) @ ?q"])
       (use m lp in simp_all)
  have "scan ?m ?w ?r = scan ?m ?w ?k"
    using scan_quiet [OF buffer_split [OF i], of ?w "length pre" lim] lp x c assms(3,4) by simp
  moreover have "scan_at ?m ?w ?k = Some None" using g by (simp add: scan_at_def PB_START_def PB_END_def)
  moreover have "scan_at ?m ?w (Suc ?k) = Some (Some (int ?k, 0))"
    using scan_at_header [OF m, of "Suc ?k" ?w] lp(1) w g by (simp add: Let_def)
  ultimately have s: "scan ?m ?w ?r = Some (Scan_Found (Suc ?k) (int ?k) 0)"
    using w by (simp add: scan.simps [of ?m ?w ?k] scan.simps [of ?m ?w "Suc ?k"])
  obtain x' where x': "moveReadIndex x 0 = Some x'" "buf_inv x'" "contents x' = contents x" "length (m_buffer x') = length ?m"
    using moveReadIndex_drop [OF i, of 0] w by auto
  have "parse_frame ?m (int (Suc ?k)) (int ?k) 0 = Some None" by (simp add: parse_frame_def)
  then have "decode_step x = Some (Decode_Next x' None)"
    using s x'(1) by (simp add: decode_step_def readIndex_def writeIndex_def)
  then show "\<exists>b' m. decode_step x = Some (Decode_Next b' m)
      \<and> b' \<in> {x. buf_inv x \<and> contents x = contents b \<and> length (m_buffer x) = length (m_buffer b)}"
    using x' x by auto
qed (use assms in simp)

text \<open>The six bytes alone; and the part of a well-formed request up to the end of these bytes in its argument.\<close>

definition zero_length_bytes :: "byte list" where
  "zero_length_bytes = [PB_END, PB_START, NUL, NUL, NUL, NUL]"

definition cut_request :: tiny_pb where
  "cut_request = TinyPBProtocol_new\<lparr>m_msg_id := ''1'', m_method_name := ''Order.makeOrder'', m_pb_data := zero_length_bytes @ ''x''\<rparr>"

theorem decode_hangs_on_zero_length_witness:
  "decode [] (demo_buffer zero_length_bytes) = None \<and> wire_ok cut_request \<and>
   take 43 (frame_bytes cut_request) = take 37 (frame_bytes cut_request) @ zero_length_bytes \<and>
   decode [] (demo_buffer (take 43 (frame_bytes cut_request))) = None"
proof (intro conjI)
  show "decode [] (demo_buffer zero_length_bytes) = None"
    using decode_hangs_on_zero_length [OF demo_buffer_inv, of zero_length_bytes "[]" "[]" 0]
    by (simp add: zero_length_bytes_def demo_buffer_def contents_def)
  show "wire_ok cut_request" by (simp add: wire_ok_def cut_request_def TinyPBProtocol_new_def frame_size_def zero_length_bytes_def)
  have s: "frame_size cut_request = 49"
    by (simp add: cut_request_def TinyPBProtocol_new_def frame_size_def zero_length_bytes_def)
  let ?h = "[PB_START, NUL, NUL, NUL, CHR ''1'', NUL, NUL, NUL, CHR 0x01, CHR ''1'', NUL, NUL, NUL, CHR 0x0F] @ ''Order.makeOrder'' @
    [NUL, NUL, NUL, NUL, NUL, NUL, NUL, NUL]"
  have f: "frame_bytes cut_request = ?h @ zero_length_bytes @ [CHR ''x'', NUL, NUL, NUL, CHR 0x01, PB_END]"
    unfolding frame_bytes_def s by (simp add: talon_eval cut_request_def TinyPBProtocol_new_def zero_length_bytes_def)
  then have h: "take 37 (frame_bytes cut_request) = ?h" by simp
  then show t: "take 43 (frame_bytes cut_request) = take 37 (frame_bytes cut_request) @ zero_length_bytes"
    unfolding h unfolding f by (simp add: zero_length_bytes_def)
  have "quiet_at 49 (?h @ zero_length_bytes) i" if "i < length ?h" for i
  proof (cases i)
    case 0
    then show ?thesis by (simp add: quiet_at_def zero_length_bytes_def PB_START_def PB_END_def talon_eval)
  next
    case (Suc k)
    then have "(?h @ zero_length_bytes) ! i = tl ?h ! k" "k < length (tl ?h)" using that by (simp_all only: nth_append nth_tl length_tl) simp_all
    moreover have "PB_START \<notin> set (tl ?h)" by (simp add: PB_START_def)
    ultimately have "(?h @ zero_length_bytes) ! i \<noteq> PB_START" by (metis nth_mem)
    then show ?thesis by (simp add: quiet_at_def)
  qed
  then show "decode [] (demo_buffer (take 43 (frame_bytes cut_request))) = None"
    unfolding t h
    by (intro decode_hangs_on_zero_length [OF demo_buffer_inv, of _ ?h "[]" 49]) (simp_all add: zero_length_bytes_def demo_buffer_def contents_def)
qed

text \<open>
  A frame that ends exactly at the end of the vector hangs the decoder as well: the read index
  may not reach the vector's size, so the frame is never consumed and is pushed again and again.
\<close>

theorem decode_hangs_at_vector_end:
  assumes "buf_inv b" "wire_ok m" "contents b = frame_bytes m"
    and "m_write_index b = length (m_buffer b)"
  shows "decode out b = None"
proof (rule decode_diverges [where S = "{b}"])
  have "m_read_index b + frame_size m = length (m_buffer b)"
    using contents_length [OF assms(1)] assms by (auto simp: buf_inv_def)
  then have "moveReadIndex b (int (frame_size m)) = Some b"
    using moveReadIndex_refused [OF assms(1)] by simp
  then show "\<And>b'. b' \<in> {b} \<Longrightarrow> \<exists>b'' m. decode_step b' = Some (Decode_Next b'' m) \<and> b'' \<in> {b}"
    using decode_step_found [OF assms(1) _ assms(2), of "[]" "[]"] assms(3) by simp
qed simp

theorem decode_hangs_at_vector_end_witness:
  "decode [] \<lparr>m_read_index = 0, m_write_index = 45, m_size = 45, m_buffer = frame_bytes demo_msg\<rparr> = None"
  by (rule decode_hangs_at_vector_end [OF _ demo_msg_wire_ok])
     (simp_all add: buf_inv_def contents_def frame_size_demo_msg)

text \<open>
  \<open>StringCoder\<close>: the strings of a batch arrive as one message that carries their concatenation
  and the fixed id \<open>12345\<close>, with the message boundaries lost.
\<close>

theorem string_coder_concatenates:
  assumes "buf_inv b" "contents b = []" "buf_room b (length (concat (map info ms)))"
    and "concat (map info ms) \<noteq> []"
  shows "\<exists>b' b''. string_encode ms b = Some b'
    \<and> string_decode [] b' = Some ([\<lparr>sp_msg_id = ''12345'', info = concat (map info ms)\<rparr>], b'')
    \<and> contents b'' = []"
proof -
  obtain b' where b': "tb.put_all b (map info ms) = Some b'" "buf_inv b'"
      "contents b' = concat (map info ms)"
    using tb.put_all_spec [OF assms(1,3)] assms(2) by auto
  have "\<exists>b''. readFromBuffer b' [] (int (length (contents b'))) = Some (contents b @ concat (map info ms), b'')
      \<and> contents b'' = []"
    by (rule tb.get_all_after_put_all [OF assms(1,3) b'(1)]) (use b' assms(4) in simp)
  then show ?thesis
    using b' assms(2) by (auto simp: string_encode_put_all string_decode_def buf_inv_readAble)
qed

theorem string_coder_concatenates_witness:
  "\<exists>b' b''. string_encode [\<lparr>sp_msg_id = [], info = ''ab''\<rparr>, \<lparr>sp_msg_id = [], info = ''c''\<rparr>]
       (demo_buffer []) = Some b'
     \<and> string_decode [] b' = Some ([\<lparr>sp_msg_id = ''12345'', info = ''abc''\<rparr>], b'')"
proof -
  have room: "buf_room (demo_buffer []) (Suc (Suc (Suc 0)))" by (simp add: buf_room_def demo_buffer_def)
  show ?thesis
    using string_coder_concatenates [OF demo_buffer_inv demo_buffer_simps(1),
        of "[\<lparr>sp_msg_id = [], info = ''ab''\<rparr>, \<lparr>sp_msg_id = [], info = ''c''\<rparr>]"] room
    by auto
qed

end
