(* ===== verification/Fd_Event.thy ===== *)
theory Fd_Event
  imports Talon_Prelude
begin

unbundle bit_operations_syntax

text \<open>
  Descriptor events and their table, \<^verbatim>\<open>net/fd_event.{h,cc}\<close> and \<^verbatim>\<open>net/fd_event_group.{h,cc}\<close>.  A callback
  is named by a \<open>task\<close>; \<open>nullptr\<close> is \<open>None\<close>.  The pointers the event loop hands around are
  \<open>ev_ptr\<close>s: the wake-up event, the timer, the listening event of a server, or an entry of the
  global group.
\<close>

section \<open>Fd\_Event\<close>

datatype trigger_event = IN_EVENT | OUT_EVENT | ERROR_EVENT

abbreviation EPOLLIN :: int32 where "EPOLLIN \<equiv> 1"
abbreviation EPOLLOUT :: int32 where "EPOLLOUT \<equiv> 4"
abbreviation EPOLLERR :: int32 where "EPOLLERR \<equiv> 8"

datatype ev_ptr = Wakeup_Event | Timer_Event | Listen_Event | Group_Event nat

text \<open>The closures the sources pass around; \<open>Client_Task n\<close> is one of a caller of the library.\<close>

datatype task =
    Read_Wakeup_Fd
  | On_Timer
  | Add_To_Epoll ev_ptr
  | Delete_From_Epoll ev_ptr
  | On_Read nat
  | On_Write nat
  | On_Accept
  | Client_Task nat

record fd_event =
  fde_fd :: int
  fde_events :: int32
  fde_data :: "ev_ptr option"
  m_read_callback :: "task option"
  m_write_callback :: "task option"
  m_error_callback :: "task option"

definition Fd_Event_new :: "int \<Rightarrow> fd_event" where
  "Fd_Event_new fd = \<lparr>fde_fd = fd, fde_events = 0, fde_data = None,
     m_read_callback = None, m_write_callback = None, m_error_callback = None\<rparr>"

definition handler :: "trigger_event \<Rightarrow> ('a) fd_event_scheme \<Rightarrow> task option" where
  "handler event e = (case event of
     IN_EVENT \<Rightarrow> m_read_callback e | OUT_EVENT \<Rightarrow> m_write_callback e | ERROR_EVENT \<Rightarrow> m_error_callback e)"

definition fd_listen ::
    "ev_ptr \<Rightarrow> trigger_event \<Rightarrow> task option \<Rightarrow> task option \<Rightarrow> ('a) fd_event_scheme \<Rightarrow> ('a) fd_event_scheme" where
  "fd_listen this event_type callback error_callback e =
     (let e1 = (if event_type = IN_EVENT
                then e\<lparr>fde_events := fde_events e OR EPOLLIN, m_read_callback := callback\<rparr>
                else e\<lparr>fde_events := fde_events e OR EPOLLOUT, m_write_callback := callback\<rparr>);
          e2 = (if m_error_callback e1 = None then e1\<lparr>m_error_callback := error_callback\<rparr>
                else e1\<lparr>m_error_callback := None\<rparr>)
      in e2\<lparr>fde_data := Some this\<rparr>)"

definition cancle :: "trigger_event \<Rightarrow> ('a) fd_event_scheme \<Rightarrow> ('a) fd_event_scheme" where
  "cancle event_type e =
     (if event_type = IN_EVENT then e\<lparr>fde_events := fde_events e AND NOT EPOLLIN\<rparr>
      else e\<lparr>fde_events := fde_events e AND NOT EPOLLOUT\<rparr>)"

definition getFd :: "('a) fd_event_scheme \<Rightarrow> int" where
  "getFd e = fde_fd e"

definition getEpollEvent :: "('a) fd_event_scheme \<Rightarrow> int32 \<times> ev_ptr option" where
  "getEpollEvent e = (fde_events e, fde_data e)"

text \<open>\<open>setNonBlock\<close> on the file status flags; the result tells whether \<open>F_SETFL\<close> is called.\<close>

abbreviation O_NONBLOCK :: int32 where "O_NONBLOCK \<equiv> 2048"

definition setNonBlock :: "int32 \<Rightarrow> bool \<times> int32" where
  "setNonBlock flag = (if flag AND O_NONBLOCK \<noteq> 0 then (False, flag) else (True, flag OR O_NONBLOCK))"

section \<open>FdEventGroup\<close>

text \<open>An entry is \<open>None\<close> when its pointer is null.\<close>

record fd_event_group =
  feg_size :: int
  m_fd_group :: "fd_event option list"

definition FdEventGroup_new :: "int \<Rightarrow> fd_event_group" where
  "FdEventGroup_new sz = \<lparr>feg_size = sz, m_fd_group = map (\<lambda>i. Some (Fd_Event_new (int i))) [0 ..< nat sz]\<rparr>"

definition GetFdEventGroup :: "fd_event_group option \<Rightarrow> fd_event_group" where
  "GetFdEventGroup g = (case g of Some x \<Rightarrow> x | None \<Rightarrow> FdEventGroup_new 128)"

text \<open>\<open>int(fd * 1.5)\<close> truncates; the group then has an entry for each number below it.\<close>

definition getFdEvent :: "int \<Rightarrow> fd_event_group \<Rightarrow> (nat \<times> fd_event_group) option" where
  "getFdEvent fd g =
     (if 0 \<le> fd \<and> fd < int (length (m_fd_group g)) then Some (nat fd, g)
      else do {
        let new_size = (3 * fd) div 2;
        require (0 \<le> fd \<and> int_ok new_size);
        let ext = map (\<lambda>i. Some (Fd_Event_new (int i))) [length (m_fd_group g) ..< nat new_size];
        let grp = m_fd_group g @ ext;
        require (nat fd < length grp);
        Some (nat fd, g\<lparr>m_fd_group := grp\<rparr>) })"

definition FdEventGroup_delete :: "fd_event_group \<Rightarrow> fd_event_group option" where
  "FdEventGroup_delete g = do {
     require (nat (feg_size g) \<le> length (m_fd_group g));
     Some (g\<lparr>m_fd_group := replicate (nat (feg_size g)) None @ drop (nat (feg_size g)) (m_fd_group g)\<rparr>) }"

section \<open>Lemmas\<close>

text \<open>The mask as the set of events it asks for.\<close>

definition wants_in :: "('a) fd_event_scheme \<Rightarrow> bool" where
  "wants_in e \<longleftrightarrow> bit (fde_events e) 0"

definition wants_out :: "('a) fd_event_scheme \<Rightarrow> bool" where
  "wants_out e \<longleftrightarrow> bit (fde_events e) 2"

lemma bit_epoll_flags [simp]:
  "bit (EPOLLIN) n \<longleftrightarrow> n = 0" "bit (EPOLLOUT) n \<longleftrightarrow> n = 2" "bit (EPOLLERR) n \<longleftrightarrow> n = 3"
proof -
  have "(4 :: int32) = 2 ^ 2" "(8 :: int32) = 2 ^ 3" by simp_all
  then show "bit (EPOLLOUT) n \<longleftrightarrow> n = 2" "bit (EPOLLERR) n \<longleftrightarrow> n = 3"
    by (simp_all only: bit_exp_iff) (auto simp: possible_bit_def)
qed (auto simp: bit_1_iff)

lemma wants_listen [simp]:
  "wants_in (fd_listen p t c ec e) \<longleftrightarrow> t = IN_EVENT \<or> wants_in e"
  "wants_out (fd_listen p t c ec e) \<longleftrightarrow> t \<noteq> IN_EVENT \<or> wants_out e"
  by (auto simp: fd_listen_def wants_in_def wants_out_def bit_simps Let_def)

lemma wants_cancle [simp]:
  "wants_in (cancle t e) \<longleftrightarrow> t \<noteq> IN_EVENT \<and> wants_in e"
  "wants_out (cancle t e) \<longleftrightarrow> t = IN_EVENT \<and> wants_out e"
  by (auto simp: cancle_def wants_in_def wants_out_def bit_simps)

lemma fd_listen_fd [simp]: "fde_fd (fd_listen p t c ec e) = fde_fd e" "fde_fd (cancle t e) = fde_fd e"
  by (simp_all add: fd_listen_def cancle_def Let_def)

definition group_inv :: "fd_event_group \<Rightarrow> bool" where
  "group_inv g \<longleftrightarrow> 2 \<le> length (m_fd_group g) \<and> feg_size g \<le> int (length (m_fd_group g)) \<and>
     (\<forall>i < length (m_fd_group g). \<exists>e. m_fd_group g ! i = Some e \<and> fde_fd e = int i)"

lemma group_inv_new: "2 \<le> sz \<Longrightarrow> group_inv (FdEventGroup_new sz)"
  by (simp add: group_inv_def FdEventGroup_new_def Fd_Event_new_def)

lemma getFdEvent_grows:
  assumes "group_inv g" "int (length (m_fd_group g)) \<le> fd" "int_ok (3 * fd div 2)"
  shows "getFdEvent fd g = Some (nat fd, g\<lparr>m_fd_group := m_fd_group g @
    map (\<lambda>i. Some (Fd_Event_new (int i))) [length (m_fd_group g) ..< nat (3 * fd div 2)]\<rparr>)"
proof -
  have f: "2 \<le> fd" using assms(1,2) by (simp add: group_inv_def)
  then have "fd + 1 \<le> 3 * fd div 2" by (simp add: zdiv_mono1 pos_le_divide_eq)
  then have "nat fd < nat (3 * fd div 2)" by linarith
  then show ?thesis using assms f by (simp add: getFdEvent_def)
qed

lemma getFdEvent_entry:
  assumes "group_inv g" "0 \<le> fd" "int_ok (3 * fd div 2)"
  shows "\<exists>g' e. getFdEvent fd g = Some (nat fd, g') \<and> m_fd_group g' ! nat fd = Some e \<and> fde_fd e = fd \<and>
      nat fd < length (m_fd_group g') \<and> group_inv g' \<and> take (length (m_fd_group g)) (m_fd_group g') = m_fd_group g"
proof (cases "fd < int (length (m_fd_group g))")
  case True
  then have n: "nat fd < length (m_fd_group g)" using assms(2) by linarith
  then obtain e where "m_fd_group g ! nat fd = Some e" "fde_fd e = fd"
    using assms(1,2) by (auto simp: group_inv_def)
  then show ?thesis using True n assms(1,2) by (auto simp: getFdEvent_def)
next
  case False
  let ?n = "length (m_fd_group g)"
  let ?grp = "m_fd_group g @ map (\<lambda>i. Some (Fd_Event_new (int i))) [?n ..< nat (3 * fd div 2)]"
  have r: "getFdEvent fd g = Some (nat fd, g\<lparr>m_fd_group := ?grp\<rparr>)"
    using getFdEvent_grows [OF assms(1) _ assms(3)] False by simp
  have f: "2 \<le> fd" using False assms(1) by (simp add: group_inv_def)
  then have "fd + 1 \<le> 3 * fd div 2" by (simp add: zdiv_mono1 pos_le_divide_eq)
  then have l: "?n \<le> nat fd" "nat fd < nat (3 * fd div 2)" using False by linarith+
  then have e: "?grp ! nat fd = Some (Fd_Event_new fd)" using f by (simp add: nth_append)
  have "nat fd < length ?grp" using l by simp
  moreover have "group_inv (g\<lparr>m_fd_group := ?grp\<rparr>)"
    using assms(1) l by (auto simp: group_inv_def nth_append Fd_Event_new_def)
  ultimately show ?thesis using r e by (simp add: Fd_Event_new_def)
qed

section \<open>Properties\<close>

text \<open>A history of calls on one event.\<close>

datatype fd_call = Call_Listen trigger_event "task option" "task option" | Call_Cancle trigger_event

fun fd_calls :: "ev_ptr \<Rightarrow> fd_call list \<Rightarrow> fd_event \<Rightarrow> fd_event" where
  "fd_calls p [] e = e"
| "fd_calls p (Call_Listen t c ec # cs) e = fd_calls p cs (fd_listen p t c ec e)"
| "fd_calls p (Call_Cancle t # cs) e = fd_calls p cs (cancle t e)"

definition last_in :: "fd_call list \<Rightarrow> bool" where
  "last_in cs = foldl (\<lambda>w c. case c of Call_Listen t _ _ \<Rightarrow> t = IN_EVENT \<or> w | Call_Cancle t \<Rightarrow> t \<noteq> IN_EVENT \<and> w) False cs"

definition last_out :: "fd_call list \<Rightarrow> bool" where
  "last_out cs = foldl (\<lambda>w c. case c of Call_Listen t _ _ \<Rightarrow> t \<noteq> IN_EVENT \<or> w | Call_Cancle t \<Rightarrow> t = IN_EVENT \<and> w) False cs"

lemma fd_calls_append: "fd_calls p (as @ bs) e = fd_calls p bs (fd_calls p as e)"
  by (induction p as e rule: fd_calls.induct) auto

text \<open>
  After any sequence of \<open>listen\<close> and \<open>cancle\<close> calls on a fresh event the epoll mask asks for
  input exactly when the last call about input was a \<open>listen\<close>, the same for output, no other
  bit is ever set, and the descriptor is unchanged.
\<close>

theorem fd_mask_follows_calls:
  "fde_events (fd_calls p cs (Fd_Event_new fd)) =
     (if last_in cs then EPOLLIN else 0) OR (if last_out cs then EPOLLOUT else 0) \<and>
   fde_fd (fd_calls p cs (Fd_Event_new fd)) = fd"
proof (induction cs rule: rev_induct)
  case Nil
  then show ?case by (simp add: Fd_Event_new_def last_in_def last_out_def)
next
  case (snoc c cs)
  have eqI: "x = y" if "\<And>n. bit x n = bit y n" for x y :: int32
    using that by (simp add: bit_eq_iff)
  show ?case
  proof (cases c)
    case (Call_Listen t cb ec)
    then show ?thesis using snoc
      by (cases t) (auto intro!: eqI simp: fd_calls_append fd_listen_def Let_def last_in_def last_out_def bit_simps)
  next
    case (Call_Cancle t)
    then show ?thesis using snoc
      by (cases t) (auto intro!: eqI simp: fd_calls_append cancle_def last_in_def last_out_def bit_simps)
  qed
qed

text \<open>
  \<open>listen\<close> alternates the error callback: called on an event that already has one it drops it,
  so after a second \<open>listen\<close> with an error callback the event has none.
\<close>

theorem listen_twice_drops_error_callback:
  "m_error_callback (fd_calls p (replicate n (Call_Listen t c (Some ec))) (Fd_Event_new fd)) =
     (if odd n then Some ec else None)"
proof -
  have *: "m_error_callback (fd_calls p (replicate n (Call_Listen t c (Some ec))) e) =
      (if m_error_callback e = None then (if odd n then Some ec else None)
       else (if n = 0 then m_error_callback e else if even n then Some ec else None))" for n e
  proof (induction n arbitrary: e)
    case 0
    then show ?case by simp
  next
    case (Suc n)
    then show ?case by (auto simp: fd_listen_def Let_def)
  qed
  show ?thesis unfolding * by (simp add: Fd_Event_new_def)
qed

text \<open>
  For every descriptor \<open>fd >= 0\<close> whose half as large again fits an \<open>int\<close>, \<open>getFdEvent\<close> returns
  entry \<open>fd\<close>, whose event carries that descriptor; entries that existed stay unchanged, so pointers
  handed out before remain valid, and the group invariant is kept.  A negative
  descriptor is an access outside the vector.
\<close>

theorem getFdEvent_returns_own_event:
  assumes "group_inv g" "int_ok (3 * fd div 2)"
  shows "if fd < 0 then getFdEvent fd g = None
    else \<exists>g' e. getFdEvent fd g = Some (nat fd, g') \<and> m_fd_group g' ! nat fd = Some e \<and> fde_fd e = fd \<and>
      group_inv g' \<and> take (length (m_fd_group g)) (m_fd_group g') = m_fd_group g"
proof (cases "fd < 0")
  case True
  then show ?thesis by (simp add: getFdEvent_def)
next
  case False
  then show ?thesis using getFdEvent_entry [OF assms(1) _ assms(2)] by auto
qed

theorem getFdEvent_returns_own_event_witness:
  "\<exists>g' e. getFdEvent 200 (FdEventGroup_new 128) = Some (200, g') \<and> m_fd_group g' ! 200 = Some e \<and>
     fde_fd e = 200 \<and> group_inv g'"
  using getFdEvent_returns_own_event [OF group_inv_new [of 128], of 200] by (auto simp: int_ok_def)

text \<open>
  The destructor walks \<open>m_size\<close> entries, the size the group was built with: events that
  \<open>getFdEvent\<close> added later are never deleted.
\<close>

theorem FdEventGroup_delete_leaks_grown:
  assumes "128 \<le> fd" "int_ok (3 * fd div 2)"
  shows "\<exists>g g' e. getFdEvent fd (FdEventGroup_new 128) = Some (nat fd, g) \<and>
    FdEventGroup_delete g = Some g' \<and> m_fd_group g' ! nat fd = Some e \<and>
    (\<forall>i < 128. m_fd_group g' ! i = None)"
proof -
  let ?g = "FdEventGroup_new 128"
  let ?h = "?g\<lparr>m_fd_group := m_fd_group ?g @ map (\<lambda>i. Some (Fd_Event_new (int i))) [128 ..< nat (3 * fd div 2)]\<rparr>"
  have n: "length (m_fd_group ?g) = 128" "feg_size ?g = 128" by (simp_all add: FdEventGroup_new_def)
  have r: "getFdEvent fd ?g = Some (nat fd, ?h)"
    using getFdEvent_grows [OF group_inv_new [of 128] _ assms(2)] assms(1) unfolding n by simp
  have "fd + 1 \<le> 3 * fd div 2" using assms(1) by (simp add: zdiv_mono1 pos_le_divide_eq)
  then have l: "128 \<le> nat fd" "nat fd < nat (3 * fd div 2)" using assms(1) by linarith+
  let ?d = "?h\<lparr>m_fd_group := replicate 128 None @ drop 128 (m_fd_group ?h)\<rparr>"
  have "FdEventGroup_delete ?h = Some ?d" using l by (simp add: FdEventGroup_delete_def n)
  moreover have "m_fd_group ?d ! nat fd = Some (Fd_Event_new fd)" using l n assms(1) by (simp add: nth_append)
  moreover have "\<forall>i < 128. m_fd_group ?d ! i = None" by (simp add: nth_append)
  ultimately show ?thesis using r by blast
qed

theorem FdEventGroup_delete_leaks_grown_witness:
  "\<exists>g g' e. getFdEvent 130 (FdEventGroup_new 128) = Some (nat 130, g) \<and>
    FdEventGroup_delete g = Some g' \<and> m_fd_group g' ! nat 130 = Some e \<and>
    (\<forall>i < 128. m_fd_group g' ! i = None)"
  by (rule FdEventGroup_delete_leaks_grown) (simp_all add: int_ok_def)

end
