(* ===== verification/Std_Containers.thy ===== *)
theory Std_Containers
  imports Talon_Prelude
begin

text \<open>
  The ordered containers of the C++ library the sources use: \<open>std::map\<close> as an association list with
  strictly increasing keys and \<open>std::multimap\<close> as one with increasing keys (an element is
  inserted behind the elements with an equal key).  \<open>find\<close> is \<open>map_of\<close>; iteration is the list
  order.  The contract the components rely on is the locale \<open>finite_table\<close>.
\<close>

fun map_assign :: "'k::linorder \<Rightarrow> 'v \<Rightarrow> ('k \<times> 'v) list \<Rightarrow> ('k \<times> 'v) list" where
  "map_assign k v [] = [(k, v)]"
| "map_assign k v ((a, b) # m) =
     (if k < a then (k, v) # (a, b) # m
      else if k = a then (a, v) # m
      else (a, b) # map_assign k v m)"

definition map_insert :: "'k::linorder \<Rightarrow> 'v \<Rightarrow> ('k \<times> 'v) list \<Rightarrow> ('k \<times> 'v) list" where
  "map_insert k v m = (case map_of m k of None \<Rightarrow> map_assign k v m | Some _ \<Rightarrow> m)"

definition map_erase :: "'k \<Rightarrow> ('k \<times> 'v) list \<Rightarrow> ('k \<times> 'v) list" where
  "map_erase k m = filter (\<lambda>p. fst p \<noteq> k) m"

fun multimap_emplace :: "'k::linorder \<Rightarrow> 'v \<Rightarrow> ('k \<times> 'v) list \<Rightarrow> ('k \<times> 'v) list" where
  "multimap_emplace k v [] = [(k, v)]"
| "multimap_emplace k v ((a, b) # m) =
     (if k < a then (k, v) # (a, b) # m else (a, b) # multimap_emplace k v m)"

definition map_inv :: "('k::linorder \<times> 'v) list \<Rightarrow> bool" where
  "map_inv m \<longleftrightarrow> sorted_wrt (<) (map fst m)"

definition multimap_inv :: "('k::linorder \<times> 'v) list \<Rightarrow> bool" where
  "multimap_inv m \<longleftrightarrow> sorted (map fst m)"

section \<open>std::map\<close>

lemma set_map_assign_keys: "set (map fst (map_assign k v m)) = insert k (set (map fst m))"
  by (induction k v m rule: map_assign.induct) auto

lemma map_of_map_assign [simp]: "map_of (map_assign k v m) = (map_of m)(k \<mapsto> v)"
  by (induction k v m rule: map_assign.induct) (auto simp: fun_eq_iff)

lemma map_inv_Nil [simp, talon_inv]: "map_inv []"
  by (simp add: map_inv_def)

lemma map_inv_assign [talon_inv]: "map_inv m \<Longrightarrow> map_inv (map_assign k v m)"
proof (induction k v m rule: map_assign.induct)
  case (1 k v)
  then show ?case by (simp add: map_inv_def)
next
  case (2 k v a b m)
  then show ?case
    using set_map_assign_keys [of k v m] by (auto simp: map_inv_def)
qed

lemma map_inv_insert [talon_inv]: "map_inv m \<Longrightarrow> map_inv (map_insert k v m)"
  by (simp add: map_insert_def map_inv_assign split: option.split)

lemma map_of_map_insert [simp]:
  "map_of (map_insert k v m) = (case map_of m k of None \<Rightarrow> (map_of m)(k \<mapsto> v) | Some _ \<Rightarrow> map_of m)"
  by (simp add: map_insert_def split: option.split)

lemma map_of_map_erase [simp]: "map_of (map_erase k m) = (map_of m)(k := None)"
  by (induction m) (auto simp: map_erase_def fun_eq_iff)

lemma map_inv_erase [talon_inv]: "map_inv m \<Longrightarrow> map_inv (map_erase k m)"
  by (induction m) (auto simp: map_inv_def map_erase_def)

lemma map_inv_distinct: "map_inv m \<Longrightarrow> distinct (map fst m)"
  by (auto simp: map_inv_def strict_sorted_iff)

section \<open>std::multimap\<close>

lemma set_multimap_emplace [simp]: "set (multimap_emplace k v m) = insert (k, v) (set m)"
  by (induction k v m rule: multimap_emplace.induct) auto

lemma length_multimap_emplace [simp]: "length (multimap_emplace k v m) = Suc (length m)"
  by (induction k v m rule: multimap_emplace.induct) auto

lemma multimap_emplace_keys:
  "set (map fst (multimap_emplace k v m)) = insert k (set (map fst m))"
  by simp

lemma multimap_inv_emplace [talon_inv]: "multimap_inv m \<Longrightarrow> multimap_inv (multimap_emplace k v m)"
proof (induction k v m rule: multimap_emplace.induct)
  case (1 k v)
  then show ?case by (simp add: multimap_inv_def)
next
  case (2 k v a b m)
  then show ?case
    using multimap_emplace_keys [of k v m] by (auto simp: multimap_inv_def not_less)
qed

lemma multimap_inv_filter [talon_inv]: "multimap_inv m \<Longrightarrow> multimap_inv (filter P m)"
  by (induction m) (auto simp: multimap_inv_def)

lemma multimap_inv_dropWhile [talon_inv]: "multimap_inv m \<Longrightarrow> multimap_inv (dropWhile P m)"
  unfolding multimap_inv_def by (metis dropWhile_eq_drop drop_map sorted_wrt_drop)

text \<open>Up to the first key above \<open>n\<close> is everything with a key of at most \<open>n\<close>.\<close>

lemma multimap_takeWhile_le:
  "multimap_inv m \<Longrightarrow> takeWhile (\<lambda>p. fst p \<le> n) m = filter (\<lambda>p. fst p \<le> n) m"
proof (induction m)
  case Nil
  show ?case by simp
next
  case (Cons p m)
  show ?case
  proof (cases "fst p \<le> n")
    case True
    then show ?thesis using Cons by (simp add: multimap_inv_def)
  next
    case False
    then have "\<forall>q \<in> set m. \<not> fst q \<le> n" using Cons.prems by (force simp: multimap_inv_def)
    then show ?thesis using False by (simp add: filter_empty_conv)
  qed
qed

lemma multimap_dropWhile_le:
  assumes "multimap_inv m"
  shows "dropWhile (\<lambda>p. fst p \<le> n) m = filter (\<lambda>p. \<not> fst p \<le> n) m"
  using assms
proof (induction m)
  case Nil
  show ?case by simp
next
  case (Cons p m)
  show ?case
  proof (cases "fst p \<le> n")
    case True
    then show ?thesis using Cons by (simp add: multimap_inv_def)
  next
    case False
    then have "\<forall>q \<in> set m. \<not> fst q \<le> n" using Cons.prems by (force simp: multimap_inv_def)
    then show ?thesis using False by simp
  qed
qed

section \<open>The interface of a table\<close>

locale finite_table =
  fixes lookup :: "'t \<Rightarrow> 'k \<Rightarrow> 'v option"
    and assign :: "'k \<Rightarrow> 'v \<Rightarrow> 't \<Rightarrow> 't"
    and erase :: "'k \<Rightarrow> 't \<Rightarrow> 't"
    and invar :: "'t \<Rightarrow> bool"
  assumes lookup_assign: "invar t \<Longrightarrow> lookup (assign k v t) = (lookup t)(k \<mapsto> v)"
    and lookup_erase: "invar t \<Longrightarrow> lookup (erase k t) = (lookup t)(k := None)"
    and invar_assign: "invar t \<Longrightarrow> invar (assign k v t)"
    and invar_erase: "invar t \<Longrightarrow> invar (erase k t)"
begin

fun assign_all :: "('k \<times> 'v) list \<Rightarrow> 't \<Rightarrow> 't" where
  "assign_all [] t = t"
| "assign_all (p # ps) t = assign_all ps (assign (fst p) (snd p) t)"

lemma invar_assign_all: "invar t \<Longrightarrow> invar (assign_all ps t)"
  by (induction ps arbitrary: t) (auto simp: invar_assign)

lemma lookup_assign_all_other:
  "invar t \<Longrightarrow> k \<notin> fst ` set ps \<Longrightarrow> lookup (assign_all ps t) k = lookup t k"
  by (induction ps arbitrary: t) (auto simp: invar_assign lookup_assign)

lemma lookup_assign_all:
  "invar t \<Longrightarrow> distinct (map fst ps) \<Longrightarrow> (k, v) \<in> set ps \<Longrightarrow> lookup (assign_all ps t) k = Some v"
proof (induction ps arbitrary: t)
  case Nil
  then show ?case by simp
next
  case (Cons p ps)
  show ?case
  proof (cases "p = (k, v)")
    case True
    then have "k \<notin> fst ` set ps" using Cons.prems(2) by simp
    then show ?thesis using True Cons.prems(1)
      by (simp add: lookup_assign_all_other invar_assign lookup_assign)
  next
    case False
    then show ?thesis using Cons by (auto simp: invar_assign)
  qed
qed

end

interpretation smap: finite_table map_of map_assign map_erase map_inv
  by unfold_locales (simp_all add: map_inv_assign map_inv_erase)

end
