(* ===== verification/Timer.thy ===== *)
theory Timer
  imports Fd_Event Std_Containers "HOL-Library.Multiset"
begin

text \<open>
  Timers, \<^verbatim>\<open>net/timer_event.{h,cc}\<close> and \<^verbatim>\<open>net/timer.{h,cc}\<close>.  \<open>TimerEvent\<close> objects are shared, so they live
  in a heap \<open>tm_heap\<close> and the multimap \<open>m_pending_events\<close> holds their addresses.  \<open>get_now_ms\<close> reads
  an arbitrary clock: its \<open>i\<close>-th reading is \<open>clock i\<close> and \<open>tm_ticks\<close> counts the readings.
  Times are unbounded integers (a 64-bit count of milliseconds plus a 32-bit interval).
  \<open>tm_armed\<close> is the argument of the last \<open>timerfd_settime\<close>, with the reading it is relative to.
\<close>

section \<open>TimerEvent\<close>

record timer_event =
  te_arrive_time :: int
  te_interval :: int
  te_is_repeated :: bool
  te_is_cancled :: bool
  te_task :: "task option"

definition get_now_ms :: "int \<Rightarrow> int \<Rightarrow> int" where
  "get_now_ms tv_sec tv_usec = tv_sec * 1000 + tv_usec div 1000"

definition te_resetArriveTime :: "int \<Rightarrow> timer_event \<Rightarrow> timer_event" where
  "te_resetArriveTime now e = e\<lparr>te_arrive_time := now + te_interval e\<rparr>"

definition TimerEvent_new :: "int \<Rightarrow> int \<Rightarrow> bool \<Rightarrow> task option \<Rightarrow> timer_event" where
  "TimerEvent_new now interval is_repeated cb =
     te_resetArriveTime now \<lparr>te_arrive_time = 0, te_interval = interval, te_is_repeated = is_repeated,
       te_is_cancled = False, te_task = cb\<rparr>"

definition setCancled :: "bool \<Rightarrow> timer_event \<Rightarrow> timer_event" where
  "setCancled v e = e\<lparr>te_is_cancled := v\<rparr>"

section \<open>Timer\<close>

record timer = fd_event +
  m_pending_events :: "(int \<times> nat) list"
  tm_heap :: "nat \<Rightarrow> timer_event"
  tm_ticks :: nat
  tm_armed :: "(int \<times> int \<times> int) option"

definition Timer_new :: "int \<Rightarrow> timer" where
  "Timer_new fd = fd_listen Timer_Event IN_EVENT (Some On_Timer) None
     (fd_event.extend (Fd_Event_new fd)
       \<lparr>m_pending_events = [], tm_heap = (\<lambda>_. TimerEvent_new 0 0 False None), tm_ticks = 0, tm_armed = None\<rparr>)"

definition tick :: "timer \<Rightarrow> timer" where
  "tick t = t\<lparr>tm_ticks := tm_ticks t + 1\<rparr>"

definition timer_resetArriveTime :: "(nat \<Rightarrow> int) \<Rightarrow> timer \<Rightarrow> timer" where
  "timer_resetArriveTime clock t =
     (case m_pending_events t of
        [] \<Rightarrow> t
      | (_, e) # _ \<Rightarrow>
          let now = clock (tm_ticks t);
              arrive = te_arrive_time (tm_heap t e);
              inteval = (if arrive > now then arrive - now else 100)
          in (tick t)\<lparr>tm_armed := Some (now, inteval div 1000, inteval mod 1000 * 1000000)\<rparr>)"

definition addTimerEvent :: "(nat \<Rightarrow> int) \<Rightarrow> nat \<Rightarrow> timer \<Rightarrow> timer" where
  "addTimerEvent clock event t =
     (let arrive = te_arrive_time (tm_heap t event);
          is_reset_timerfd = (case m_pending_events t of
             [] \<Rightarrow> True | (_, e) # _ \<Rightarrow> te_arrive_time (tm_heap t e) > arrive);
          t1 = t\<lparr>m_pending_events := multimap_emplace arrive event (m_pending_events t)\<rparr>
      in if is_reset_timerfd then timer_resetArriveTime clock t1 else t1)"

text \<open>The first entry with the event's arrive time that is this event is erased.\<close>

fun erase_entry :: "int \<times> nat \<Rightarrow> (int \<times> nat) list \<Rightarrow> (int \<times> nat) list" where
  "erase_entry p [] = []"
| "erase_entry p (q # m) = (if p = q then m else q # erase_entry p m)"

definition deleteTimerEvent :: "nat \<Rightarrow> timer \<Rightarrow> timer" where
  "deleteTimerEvent event t =
     (let t1 = t\<lparr>tm_heap := (tm_heap t)(event := setCancled True (tm_heap t event))\<rparr>
      in t1\<lparr>m_pending_events := erase_entry (te_arrive_time (tm_heap t event), event) (m_pending_events t)\<rparr>)"

text \<open>
  The loop \<open>while (1) if (read == -1 && errno == EAGAIN) break\<close> on the results of its reads;
  \<open>None\<close> when none of them is \<open>EAGAIN\<close>: the loop goes on.
\<close>

datatype fd_read = Read_Again | Read_Other int

fun drain_timerfd :: "fd_read list \<Rightarrow> fd_read list option" where
  "drain_timerfd [] = None"
| "drain_timerfd (Read_Again # rs) = Some rs"
| "drain_timerfd (Read_Other n # rs) = drain_timerfd rs"

definition repeat_event :: "(nat \<Rightarrow> int) \<Rightarrow> timer \<Rightarrow> nat \<Rightarrow> timer" where
  "repeat_event clock t e =
     (if te_is_repeated (tm_heap t e) then
        addTimerEvent clock e
          ((tick t)\<lparr>tm_heap := (tm_heap t)(e := te_resetArriveTime (clock (tm_ticks t)) (tm_heap t e))\<rparr>)
      else t)"

text \<open>The result: the timer, and the callbacks \<open>onTimer\<close> runs at its end, in order.\<close>

definition onTimer :: "(nat \<Rightarrow> int) \<Rightarrow> fd_read list \<Rightarrow> timer \<Rightarrow> (timer \<times> task list) option" where
  "onTimer clock reads t = do {
     _ \<leftarrow> drain_timerfd reads;
     let now = clock (tm_ticks t);
     let t = tick t;
     let due = map snd (takeWhile (\<lambda>p. fst p \<le> now) (m_pending_events t));
     let tmps = filter (\<lambda>e. \<not> te_is_cancled (tm_heap t e)) due;
     let tasks = map (\<lambda>e. te_task (tm_heap t e)) tmps;
     let t = t\<lparr>m_pending_events := dropWhile (\<lambda>p. fst p \<le> now) (m_pending_events t)\<rparr>;
     let t = foldl (repeat_event clock) t tmps;
     let t = timer_resetArriveTime clock t;
     Some (t, List.map_filter id tasks) }"

section \<open>Invariants\<close>

text \<open>
  The multimap is ordered, its keys are the arrive times of its events, and no event is in it
  twice.  When the descriptor was armed, at the reading \<open>now\<close>, the first event either lay ahead, and the descriptor is
  armed for no later than it, or was due, and the descriptor is armed for 100 ms later.
\<close>

definition timer_inv :: "timer \<Rightarrow> bool" where
  "timer_inv t \<longleftrightarrow> multimap_inv (m_pending_events t) \<and> distinct (map snd (m_pending_events t)) \<and>
     (\<forall>p \<in> set (m_pending_events t). fst p = te_arrive_time (tm_heap t (snd p)))"

definition armed_ok :: "timer \<Rightarrow> bool" where
  "armed_ok t \<longleftrightarrow> (m_pending_events t \<noteq> [] \<longrightarrow>
     (\<exists>now s ns. tm_armed t = Some (now, s, ns) \<and> 0 \<le> s \<and> 0 \<le> ns \<and> ns < 1000000000 \<and> 0 < s * 1000 + ns div 1000000 \<and>
        (now + s * 1000 + ns div 1000000 \<le> fst (hd (m_pending_events t)) \<or>
         fst (hd (m_pending_events t)) \<le> now \<and> s * 1000 + ns div 1000000 = 100)))"

text \<open>The first event was due already when the descriptor was armed.\<close>

definition overdue :: "timer \<Rightarrow> bool" where
  "overdue t \<longleftrightarrow> m_pending_events t \<noteq> [] \<and> (\<exists>now x. tm_armed t = Some (now, x) \<and> fst (hd (m_pending_events t)) \<le> now)"

text \<open>The descriptor has been armed at the reading \<open>now\<close> for exactly the first event, or for 100 ms when that was due.\<close>

definition armed_at :: "int \<Rightarrow> timer \<Rightarrow> bool" where
  "armed_at now t \<longleftrightarrow> (m_pending_events t \<noteq> [] \<longrightarrow>
     (let a = fst (hd (m_pending_events t)); i = (if now < a then a - now else 100) in
      tm_armed t = Some (now, i div 1000, i mod 1000 * 1000000)))"

lemma tick_fields [simp]:
  "m_pending_events (tick t) = m_pending_events t" "tm_heap (tick t) = tm_heap t"
  "tm_armed (tick t) = tm_armed t"
  by (simp_all add: tick_def)

lemma reset_fields [simp]:
  "m_pending_events (timer_resetArriveTime clock t) = m_pending_events t"
  "tm_heap (timer_resetArriveTime clock t) = tm_heap t"
  by (simp_all add: timer_resetArriveTime_def Let_def split: list.split)

lemma add_fields [simp]:
  "m_pending_events (addTimerEvent clock e t) =
     multimap_emplace (te_arrive_time (tm_heap t e)) e (m_pending_events t)"
  "tm_heap (addTimerEvent clock e t) = tm_heap t"
  by (simp_all add: addTimerEvent_def Let_def)

lemma mset_multimap_emplace [simp]: "mset (multimap_emplace k v m) = add_mset (k, v) (mset m)"
  by (induction k v m rule: multimap_emplace.induct) auto

lemma distinct_snd_emplace [simp]:
  "distinct (map snd (multimap_emplace k v m)) \<longleftrightarrow> v \<notin> snd ` set m \<and> distinct (map snd m)"
  by (induction k v m rule: multimap_emplace.induct) auto

lemma interval_split:
  assumes "0 < (i :: int)"
  shows "0 \<le> i div 1000" "0 \<le> i mod 1000 * 1000000" "i mod 1000 * 1000000 < 1000000000"
    "0 < i div 1000 * 1000 + i mod 1000 * 1000000 div 1000000" "i div 1000 * 1000 + i mod 1000 * 1000000 div 1000000 = i"
proof -
  have m: "0 \<le> i mod 1000" "i mod 1000 < 1000" by simp_all
  show "0 \<le> i div 1000" using assms by (simp add: pos_imp_zdiv_nonneg_iff)
  show "0 < i div 1000 * 1000 + i mod 1000 * 1000000 div 1000000" using assms by simp
  show "0 \<le> i mod 1000 * 1000000" "i mod 1000 * 1000000 < 1000000000" using m by linarith+
  show "i div 1000 * 1000 + i mod 1000 * 1000000 div 1000000 = i" by simp
qed

lemma armed_ok_reset:
  assumes "timer_inv t"
  shows "armed_ok (timer_resetArriveTime clock t)"
proof (cases "m_pending_events t")
  case Nil
  then show ?thesis by (simp add: armed_ok_def timer_resetArriveTime_def)
next
  case (Cons p m)
  let ?now = "clock (tm_ticks t)" and ?a = "te_arrive_time (tm_heap t (snd p))"
  let ?i = "if ?a > ?now then ?a - ?now else 100"
  have k: "fst p = ?a" using assms Cons by (simp add: timer_inv_def)
  have i: "0 < ?i" by simp
  have "?now + ?i \<le> ?a \<or> ?a \<le> ?now \<and> ?i = 100" by simp
  then have "?now + ?i div 1000 * 1000 + ?i mod 1000 * 1000000 div 1000000 \<le> fst p \<or>
      fst p \<le> ?now \<and> ?i div 1000 * 1000 + ?i mod 1000 * 1000000 div 1000000 = 100"
    using interval_split(5) [OF i] k by linarith
  moreover have "tm_armed (timer_resetArriveTime clock t) = Some (?now, ?i div 1000, ?i mod 1000 * 1000000)"
    using Cons by (simp add: timer_resetArriveTime_def Let_def split: prod.split)
  ultimately show ?thesis
    using Cons interval_split(1-4) [OF i] by (auto simp: armed_ok_def)
qed

lemma armed_at_reset: "timer_inv t \<Longrightarrow> armed_at (clock (tm_ticks t)) (timer_resetArriveTime clock t)"
  by (auto simp: armed_at_def timer_resetArriveTime_def timer_inv_def Let_def split: list.split)

lemma timer_inv_add [talon_inv]:
  "timer_inv t \<Longrightarrow> e \<notin> snd ` set (m_pending_events t) \<Longrightarrow> timer_inv (addTimerEvent clock e t)"
  by (auto simp: timer_inv_def multimap_inv_emplace)

lemma armed_ok_add [talon_inv]:
  assumes "timer_inv t" "armed_ok t" "e \<notin> snd ` set (m_pending_events t)"
  shows "armed_ok (addTimerEvent clock e t)"
proof (cases "m_pending_events t \<noteq> [] \<and> te_arrive_time (tm_heap t (snd (hd (m_pending_events t)))) \<le> te_arrive_time (tm_heap t e)")
  case True
  then obtain k f m where p: "m_pending_events t = (k, f) # m" by (cases "m_pending_events t") auto
  then have "k \<le> te_arrive_time (tm_heap t e)" using True assms(1) by (simp add: timer_inv_def)
  moreover have "tm_armed (addTimerEvent clock e t) = tm_armed t"
    using True p by (simp add: addTimerEvent_def Let_def)
  ultimately show ?thesis using assms(2) p by (simp add: armed_ok_def)
next
  case False
  let ?t = "t\<lparr>m_pending_events := multimap_emplace (te_arrive_time (tm_heap t e)) e (m_pending_events t)\<rparr>"
  have "timer_inv ?t" using timer_inv_add [OF assms(1,3), of "\<lambda>_. 0"] by (simp add: timer_inv_def)
  moreover have "addTimerEvent clock e t = timer_resetArriveTime clock ?t"
    using False by (cases "m_pending_events t") (auto simp: addTimerEvent_def Let_def)
  ultimately show ?thesis by (simp add: armed_ok_reset)
qed

lemma set_erase_entry: "distinct (map snd m) \<Longrightarrow> set (erase_entry p m) = set m - {p}"
  by (induction p m rule: erase_entry.induct) auto

lemma erase_entry_subset: "set (erase_entry p m) \<subseteq> set m"
  by (induction p m rule: erase_entry.induct) auto

lemma distinct_erase_entry: "distinct (map snd m) \<Longrightarrow> distinct (map snd (erase_entry p m))"
  by (induction p m rule: erase_entry.induct) (use erase_entry_subset in force)+

lemma multimap_inv_erase_entry: "multimap_inv m \<Longrightarrow> multimap_inv (erase_entry p m)"
proof (induction p m rule: erase_entry.induct)
  case (2 p q m)
  then show ?case using erase_entry_subset [of p m] by (auto simp: multimap_inv_def)
qed simp

lemma timer_inv_delete [talon_inv]: "timer_inv t \<Longrightarrow> timer_inv (deleteTimerEvent e t)"
  using erase_entry_subset [of _ "m_pending_events t"]
  by (fastforce simp: timer_inv_def deleteTimerEvent_def Let_def setCancled_def
      multimap_inv_erase_entry distinct_erase_entry)

text \<open>Deleting does not re-arm: only without a first event that was due can the new first one not come earlier than the descriptor.\<close>

lemma hd_later:
  assumes "timer_inv t" "set m \<subseteq> set (m_pending_events t)" "m \<noteq> []"
  shows "m_pending_events t \<noteq> []" "fst (hd (m_pending_events t)) \<le> fst (hd m)"
proof -
  have h: "hd m \<in> set (m_pending_events t)" using assms(2,3) hd_in_set by blast
  then show "m_pending_events t \<noteq> []" by auto
  then show "fst (hd (m_pending_events t)) \<le> fst (hd m)"
    using h assms(1) by (cases "m_pending_events t") (auto simp: timer_inv_def multimap_inv_def)
qed

lemma hd_erase_entry: "m \<noteq> [] \<Longrightarrow> p \<noteq> hd m \<Longrightarrow> erase_entry p m \<noteq> [] \<and> hd (erase_entry p m) = hd m"
  by (cases m) auto

lemma delete_fields [simp]:
  "m_pending_events (deleteTimerEvent e t) = erase_entry (te_arrive_time (tm_heap t e), e) (m_pending_events t)"
  "tm_armed (deleteTimerEvent e t) = tm_armed t"
  by (simp_all add: deleteTimerEvent_def Let_def)

lemma armed_ok_delete:
  assumes "timer_inv t" "armed_ok t" "\<not> (overdue t \<and> e = snd (hd (m_pending_events t)))"
  shows "armed_ok (deleteTimerEvent e t)"
proof (cases "m_pending_events (deleteTimerEvent e t) = []")
  case False
  note h = hd_later [OF assms(1) _ False, unfolded delete_fields, OF erase_entry_subset]
  obtain now s ns where a: "tm_armed t = Some (now, s, ns)" "0 \<le> s" "0 \<le> ns" "ns < 1000000000" "0 < s * 1000 + ns div 1000000"
      "now + s * 1000 + ns div 1000000 \<le> fst (hd (m_pending_events t)) \<or>
       fst (hd (m_pending_events t)) \<le> now \<and> s * 1000 + ns div 1000000 = 100"
    using assms(2) h(1) by (auto simp: armed_ok_def)
  show ?thesis
  proof (cases "e = snd (hd (m_pending_events t))")
    case True
    then have "\<not> fst (hd (m_pending_events t)) \<le> now" using assms(3) a(1) h(1) by (auto simp: overdue_def)
    then show ?thesis using a h(2) by (auto simp: armed_ok_def)
  next
    case False
    then have "hd (erase_entry (te_arrive_time (tm_heap t e), e) (m_pending_events t)) = hd (m_pending_events t)"
      using hd_erase_entry [OF h(1), of "(te_arrive_time (tm_heap t e), e)"] by (metis snd_conv)
    then show ?thesis using a by (auto simp: armed_ok_def)
  qed
qed (simp add: armed_ok_def)

section \<open>onTimer\<close>

lemma timer_inv_reset [simp]: "timer_inv (timer_resetArriveTime clock t) \<longleftrightarrow> timer_inv t"
  by (simp add: timer_inv_def)

lemma timer_inv_tick [simp]: "timer_inv (tick t) \<longleftrightarrow> timer_inv t"
  by (simp add: timer_inv_def)

lemma tm_ticks_le: "tm_ticks t \<le> tm_ticks (repeat_event clock t e)"
  by (simp add: repeat_event_def addTimerEvent_def timer_resetArriveTime_def tick_def Let_def split: list.split)

lemma repeat_events_ticks: "tm_ticks t \<le> tm_ticks (foldl (repeat_event clock) t es)"
  by (induction es arbitrary: t) (auto intro: order_trans [OF tm_ticks_le])

lemma repeat_event_step:
  fixes clock
  assumes "timer_inv t" "e \<notin> snd ` set (m_pending_events t)"
  defines "t' \<equiv> repeat_event clock t e"
  shows "timer_inv t'" "set (m_pending_events t) \<subseteq> set (m_pending_events t')"
    "snd ` set (m_pending_events t') = snd ` set (m_pending_events t) \<union> {x. x = e \<and> te_is_repeated (tm_heap t e)}"
    "x \<noteq> e \<Longrightarrow> tm_heap t' x = tm_heap t x"
    "te_is_repeated (tm_heap t e) \<Longrightarrow> tm_heap t' e = te_resetArriveTime (clock (tm_ticks t)) (tm_heap t e)"
proof -
  let ?t = "(tick t)\<lparr>tm_heap := (tm_heap t)(e := te_resetArriveTime (clock (tm_ticks t)) (tm_heap t e))\<rparr>"
  have "timer_inv ?t" using assms(1,2) by (fastforce simp: timer_inv_def)
  then have "timer_inv (addTimerEvent clock e ?t)" by (rule timer_inv_add) (simp add: assms(2))
  then show "timer_inv t'" using assms(1) by (simp add: t'_def repeat_event_def)
qed (auto simp: t'_def repeat_event_def)

lemma repeat_events:
  assumes "timer_inv t" "distinct es" "set es \<inter> snd ` set (m_pending_events t) = {}"
  shows "let t' = foldl (repeat_event clock) t es in
    timer_inv t' \<and> set (m_pending_events t) \<subseteq> set (m_pending_events t') \<and>
    snd ` set (m_pending_events t') = snd ` set (m_pending_events t) \<union> {e \<in> set es. te_is_repeated (tm_heap t e)} \<and>
    (\<forall>e. e \<notin> set es \<longrightarrow> tm_heap t' e = tm_heap t e) \<and>
    (\<forall>e \<in> set es. te_is_repeated (tm_heap t e) \<longrightarrow>
       (\<exists>i \<ge> tm_ticks t. tm_heap t' e = te_resetArriveTime (clock i) (tm_heap t e)))"
  using assms
proof (induction es arbitrary: t)
  case Nil
  then show ?case by (simp add: Let_def)
next
  case (Cons e es)
  have e: "e \<notin> snd ` set (m_pending_events t)" using Cons.prems(3) by auto
  note s = repeat_event_step [where clock = clock, OF Cons.prems(1) e]
  let ?t1 = "repeat_event clock t e" and ?t' = "foldl (repeat_event clock) t (e # es)"
  have "set es \<inter> snd ` set (m_pending_events ?t1) = {}" using s(3) Cons.prems(2,3) by auto
  note IH = Cons.IH [OF s(1) _ this, unfolded Let_def]
  have h: "tm_heap ?t1 x = tm_heap t x" if "x \<in> set es" for x using that Cons.prems(2) by (intro s(4)) auto
  have f: "?t' = foldl (repeat_event clock) ?t1 es" by simp
  have i: "timer_inv ?t'" "set (m_pending_events ?t1) \<subseteq> set (m_pending_events ?t')"
    "snd ` set (m_pending_events ?t') = snd ` set (m_pending_events ?t1) \<union> {x \<in> set es. te_is_repeated (tm_heap ?t1 x)}"
    "\<And>x. x \<notin> set es \<Longrightarrow> tm_heap ?t' x = tm_heap ?t1 x"
    "\<And>x. x \<in> set es \<Longrightarrow> te_is_repeated (tm_heap ?t1 x) \<Longrightarrow>
       \<exists>i \<ge> tm_ticks ?t1. tm_heap ?t' x = te_resetArriveTime (clock i) (tm_heap ?t1 x)"
    unfolding f using IH Cons.prems(2) by simp_all
  have "snd ` set (m_pending_events ?t') =
      snd ` set (m_pending_events t) \<union> {x \<in> set (e # es). te_is_repeated (tm_heap t x)}"
    unfolding i(3) s(3) using h by auto
  moreover have "\<exists>i \<ge> tm_ticks t. tm_heap ?t' x = te_resetArriveTime (clock i) (tm_heap t x)"
    if "x \<in> set (e # es)" "te_is_repeated (tm_heap t x)" for x
  proof (cases "x = e")
    case True
    then show ?thesis using s(5) i(4) [of e] Cons.prems(2) that(2) by auto
  next
    case False
    then have "x \<in> set es" using that by simp
    with that(2) obtain i where "tm_ticks ?t1 \<le> i" "tm_heap ?t' x = te_resetArriveTime (clock i) (tm_heap t x)"
      using i(5) [of x] h [of x] by auto
    then show ?thesis using tm_ticks_le [of t clock e] by (intro exI [of _ i]) simp
  qed
  ultimately show ?case
    using i(1,2,4) s(2,4) by (auto simp: Let_def)
qed

lemma map_filter_task: "List.map_filter id xs = map the (filter (\<lambda>x. x \<noteq> None) xs)"
  by (induction xs) (auto simp: map_filter_simps)

lemma drain_timerfd_ends: "Read_Again \<in> set rs \<Longrightarrow> \<exists>r. drain_timerfd rs = Some r"
  by (induction rs rule: drain_timerfd.induct) auto

text \<open>
  The specification of a round at time \<open>now\<close>: the events that are due and not cancelled, in
  the order of their times.
\<close>

definition due_events :: "int \<Rightarrow> timer \<Rightarrow> nat list" where
  "due_events now t = filter (\<lambda>e. \<not> te_is_cancled (tm_heap t e))
     (map snd (filter (\<lambda>p. fst p \<le> now) (m_pending_events t)))"

definition round_start :: "int \<Rightarrow> timer \<Rightarrow> timer" where
  "round_start now t = (tick t)\<lparr>m_pending_events := filter (\<lambda>p. \<not> fst p \<le> now) (m_pending_events t)\<rparr>"

lemma round_start_ok:
  assumes "timer_inv t"
  shows "timer_inv (round_start now t)" "distinct (due_events now t)"
    "set (due_events now t) \<inter> snd ` set (m_pending_events (round_start now t)) = {}"
proof -
  show "distinct (due_events now t)" "set (due_events now t) \<inter> snd ` set (m_pending_events (round_start now t)) = {}"
    using assms by (auto simp: timer_inv_def due_events_def round_start_def distinct_map_filter distinct_map inj_on_def)
  show "timer_inv (round_start now t)"
    using assms by (auto simp: timer_inv_def round_start_def multimap_inv_filter distinct_map_filter)
qed

lemma round_start_fields [simp]:
  "tm_heap (round_start now t) = tm_heap t" "tm_ticks (round_start now t) = tm_ticks t + 1"
  by (simp_all add: round_start_def tick_def)

lemmas round_events = repeat_events [OF round_start_ok(1,2,3), unfolded Let_def round_start_fields]

lemma onTimer_eq:
  assumes "timer_inv t" "Read_Again \<in> set reads"
  shows "onTimer clock reads t =
    Some (timer_resetArriveTime clock (foldl (repeat_event clock) (round_start (clock (tm_ticks t)) t)
        (due_events (clock (tm_ticks t)) t)),
      map the (filter (\<lambda>x. x \<noteq> None) (map (\<lambda>e. te_task (tm_heap t e)) (due_events (clock (tm_ticks t)) t))))"
proof -
  have m: "multimap_inv (m_pending_events t)" using assms(1) by (simp add: timer_inv_def)
  obtain r where "drain_timerfd reads = Some r" using drain_timerfd_ends [OF assms(2)] by blast
  then show ?thesis
    by (simp add: onTimer_def due_events_def map_filter_task Let_def round_start_def
        multimap_takeWhile_le [OF m] multimap_dropWhile_le [OF m])
qed

lemma onTimer_returns_drained:
  assumes "onTimer clock reads t = Some r"
  shows "Read_Again \<in> set reads"
proof (rule ccontr)
  assume "Read_Again \<notin> set reads"
  then have "drain_timerfd reads = None" by (induction reads rule: drain_timerfd.induct) auto
  then show False using assms by (simp add: onTimer_def)
qed

section \<open>The interface of a timer\<close>

text \<open>
  What the clients of a timer (event loop, server, channel) rely on: the set of scheduled
  events, and that scheduling and cancelling change it as expected and keep the timer sound.
\<close>

locale deadline_queue =
  fixes scheduled :: "'s \<Rightarrow> nat set"
    and schedule :: "nat \<Rightarrow> 's \<Rightarrow> 's"
    and unschedule :: "nat \<Rightarrow> 's \<Rightarrow> 's"
    and sound :: "'s \<Rightarrow> bool"
  assumes sound_schedule: "sound s \<Longrightarrow> e \<notin> scheduled s \<Longrightarrow> sound (schedule e s)"
    and sound_unschedule: "sound s \<Longrightarrow> sound (unschedule e s)"
    and scheduled_schedule: "scheduled (schedule e s) = insert e (scheduled s)"
    and scheduled_unschedule: "sound s \<Longrightarrow> scheduled (unschedule e s) = scheduled s - {e}"
begin

lemma schedule_unschedule:
  "sound s \<Longrightarrow> e \<notin> scheduled s \<Longrightarrow> scheduled (unschedule e (schedule e s)) = scheduled s"
  by (simp add: scheduled_unschedule sound_schedule scheduled_schedule)

fun schedule_all :: "nat list \<Rightarrow> 's \<Rightarrow> 's" where
  "schedule_all [] s = s"
| "schedule_all (e # es) s = schedule_all es (schedule e s)"

lemma schedule_all_sound:
  "sound s \<Longrightarrow> distinct es \<Longrightarrow> set es \<inter> scheduled s = {} \<Longrightarrow>
   sound (schedule_all es s) \<and> scheduled (schedule_all es s) = set es \<union> scheduled s"
  by (induction es arbitrary: s) (auto simp: sound_schedule scheduled_schedule)

end

interpretation tq: deadline_queue "\<lambda>t. snd ` set (m_pending_events t)" "addTimerEvent clock"
    deleteTimerEvent timer_inv for clock
proof unfold_locales
  fix t e assume "timer_inv t"
  then show "snd ` set (m_pending_events (deleteTimerEvent e t)) = snd ` set (m_pending_events t) - {e}"
    using set_erase_entry [of "m_pending_events t"] by (auto simp: timer_inv_def)
qed (auto intro: timer_inv_add timer_inv_delete)

section \<open>Properties\<close>

text \<open>
  C16. When the timer fires (and its descriptor can be drained) exactly the tasks of the events
  that are due and not cancelled are run, in the order of their times; the events that are not
  due stay as they are; a due event stays only when it is repeated and not cancelled, and then
  its next time is a clock reading of this round plus its interval.
\<close>

theorem onTimer_runs_due_events:
  fixes clock :: "nat \<Rightarrow> int"
  assumes "timer_inv t" "Read_Again \<in> set reads"
  defines "now \<equiv> clock (tm_ticks t)"
  shows "\<exists>t'. onTimer clock reads t =
      Some (t', map the (filter (\<lambda>x. x \<noteq> None) (map (\<lambda>e. te_task (tm_heap t e)) (due_events now t)))) \<and>
    timer_inv t' \<and>
    (\<forall>p \<in> set (m_pending_events t). now < fst p \<longrightarrow> p \<in> set (m_pending_events t')) \<and>
    snd ` set (m_pending_events t') = {e. \<exists>k > now. (k, e) \<in> set (m_pending_events t)} \<union>
      {e \<in> set (due_events now t). te_is_repeated (tm_heap t e)} \<and>
    (\<forall>e \<in> set (due_events now t). te_is_repeated (tm_heap t e) \<longrightarrow>
       (\<exists>i > tm_ticks t. (clock i + te_interval (tm_heap t e), e) \<in> set (m_pending_events t')))"
proof -
  define t2 where "t2 = foldl (repeat_event clock) (round_start now t) (due_events now t)"
  note r = round_events [OF assms(1) assms(1) assms(1), of clock now, folded t2_def]
  have ri: "timer_inv t2" and rs: "snd ` set (m_pending_events t2) = snd ` set (m_pending_events (round_start now t)) \<union>
      {e \<in> set (due_events now t). te_is_repeated (tm_heap t e)}"
    and rr: "\<forall>e \<in> set (due_events now t). te_is_repeated (tm_heap t e) \<longrightarrow>
       (\<exists>i \<ge> tm_ticks t + 1. tm_heap t2 e = te_resetArriveTime (clock i) (tm_heap t e))"
    and rp: "set (m_pending_events (round_start now t)) \<subseteq> set (m_pending_events t2)"
    using r by simp_all
  have "(clock i + te_interval (tm_heap t e), e) \<in> set (m_pending_events t2)"
    if a: "tm_heap t2 e = te_resetArriveTime (clock i) (tm_heap t e)" and
      b: "e \<in> set (due_events now t)" "te_is_repeated (tm_heap t e)" for e i
  proof -
    have "e \<in> snd ` set (m_pending_events t2)" using rs b by simp
    then obtain k where k: "(k, e) \<in> set (m_pending_events t2)" by auto
    then have "k = te_arrive_time (tm_heap t2 e)" using ri by (auto simp: timer_inv_def)
    then show ?thesis using k a by (simp add: te_resetArriveTime_def)
  qed
  then have "\<forall>e \<in> set (due_events now t). te_is_repeated (tm_heap t e) \<longrightarrow>
       (\<exists>i > tm_ticks t. (clock i + te_interval (tm_heap t e), e) \<in> set (m_pending_events t2))"
    using rr by (metis Suc_eq_plus1 Suc_le_eq)
  moreover have "snd ` set (m_pending_events (round_start now t)) = {e. \<exists>k > now. (k, e) \<in> set (m_pending_events t)}"
    by (force simp: round_start_def)
  moreover have "\<forall>p \<in> set (m_pending_events t). now < fst p \<longrightarrow> p \<in> set (m_pending_events t2)"
    using rp by (auto simp: round_start_def)
  moreover note onTimer_eq [OF assms(1,2), of clock, folded now_def, folded t2_def]
  ultimately show ?thesis using rs ri by (intro exI [of _ "timer_resetArriveTime clock t2"]) simp
qed

text \<open>Events 0 (at 500 ms, cancelled), 1 (at 700 ms, repeated) and 2 (at 5000 ms).\<close>

definition demo_timer :: timer where
  "demo_timer = (Timer_new 6)\<lparr>m_pending_events := [(500, 0), (700, 1), (5000, 2)],
     tm_heap := (\<lambda>e. if e = 0 then \<lparr>te_arrive_time = 500, te_interval = 100, te_is_repeated = False, te_is_cancled = True, te_task = Some (Client_Task 0)\<rparr>
       else if e = 1 then \<lparr>te_arrive_time = 700, te_interval = 200, te_is_repeated = True, te_is_cancled = False, te_task = Some (Client_Task 1)\<rparr>
       else \<lparr>te_arrive_time = 5000, te_interval = 100, te_is_repeated = False, te_is_cancled = False, te_task = None\<rparr>),
     tm_armed := Some (0, 0, 500000000)\<rparr>"

lemma demo_timer_inv: "timer_inv demo_timer" "armed_ok demo_timer"
  by (simp_all add: demo_timer_def timer_inv_def multimap_inv_def armed_ok_def)

theorem onTimer_runs_due_events_witness:
  "\<exists>t'. onTimer (\<lambda>i. 1000 + int i) [Read_Other 8, Read_Again] demo_timer = Some (t', [Client_Task 1]) \<and>
     timer_inv t' \<and> snd ` set (m_pending_events t') = {1, 2}"
proof -
  have d: "due_events 1000 demo_timer = [1]" "tm_ticks demo_timer = 0"
    by (simp_all add: due_events_def demo_timer_def Timer_new_def fd_listen_def Let_def fd_event.defs Fd_Event_new_def)
  have p: "{e. \<exists>k > 1000. (k, e) \<in> set (m_pending_events demo_timer)} = {2}"
    "te_is_repeated (tm_heap demo_timer 1)" "te_task (tm_heap demo_timer 1) = Some (Client_Task 1)"
    by (auto simp: demo_timer_def)
  show ?thesis
    using onTimer_runs_due_events [OF demo_timer_inv(1), of "[Read_Other 8, Read_Again]" "\<lambda>i. 1000 + int i"] d p
    by (auto simp: insert_commute)
qed

text \<open>
  C17. When the timer's descriptor fires.  After a round of \<open>onTimer\<close> it is armed, from a clock reading of that round on, for exactly the
  time of the first pending event, or for 100 ms if that event is due at that reading already.  Adding an event keeps this up to
  firing earlier: the descriptor is armed for no later than a first event that lay ahead when it was armed, and for 100 ms after that
  reading otherwise.  Deleting an event does not re-arm, which keeps the same unless the event deleted is a first one that was due: then
  the next event may have to wait, but not longer than those 100 ms.  The \<open>timespec\<close> is always valid and never zero, which would disarm the descriptor.
\<close>

theorem timer_stays_armed:
  assumes "timer_inv t" "armed_ok t"
  shows "(e \<notin> snd ` set (m_pending_events t) \<longrightarrow> armed_ok (addTimerEvent clock e t)) \<and>
    tm_armed (deleteTimerEvent e t) = tm_armed t \<and>
    (armed_ok (deleteTimerEvent e t) \<or> overdue t \<and> e = snd (hd (m_pending_events t)) \<and>
       (\<exists>now s ns. tm_armed t = Some (now, s, ns) \<and> s * 1000 + ns div 1000000 = 100)) \<and>
    (\<forall>reads t' ts. onTimer clock reads t = Some (t', ts) \<longrightarrow> armed_ok t' \<and> (\<exists>n > tm_ticks t. armed_at (clock n) t'))"
proof (intro conjI allI impI)
  fix reads t' ts assume o: "onTimer clock reads t = Some (t', ts)"
  let ?now = "clock (tm_ticks t)"
  let ?t = "foldl (repeat_event clock) (round_start ?now t) (due_events ?now t)"
  have i: "timer_inv ?t" using round_events [OF assms(1) assms(1) assms(1), of clock ?now] by simp
  have t': "t' = timer_resetArriveTime clock ?t"
    using onTimer_eq [OF assms(1) onTimer_returns_drained [OF o], of clock] o by simp
  show "armed_ok t'" unfolding t' using i by (rule armed_ok_reset)
  have "tm_ticks (round_start ?now t) \<le> tm_ticks ?t" by (rule repeat_events_ticks)
  then have "tm_ticks t < tm_ticks ?t" by (simp add: round_start_def tick_def)
  then show "\<exists>n > tm_ticks t. armed_at (clock n) t'" unfolding t' using armed_at_reset [OF i] by blast
next
  show "armed_ok (deleteTimerEvent e t) \<or> overdue t \<and> e = snd (hd (m_pending_events t)) \<and>
      (\<exists>now s ns. tm_armed t = Some (now, s, ns) \<and> s * 1000 + ns div 1000000 = 100)"
  proof (rule disjCI)
    assume "\<not> (overdue t \<and> e = snd (hd (m_pending_events t)) \<and> (\<exists>now s ns. tm_armed t = Some (now, s, ns) \<and> s * 1000 + ns div 1000000 = 100))"
    moreover have "\<exists>now s ns. tm_armed t = Some (now, s, ns) \<and> s * 1000 + ns div 1000000 = 100" if "overdue t"
    proof -
      obtain now s ns where a: "m_pending_events t \<noteq> []" "tm_armed t = Some (now, s, ns)" "fst (hd (m_pending_events t)) \<le> now"
        using \<open>overdue t\<close> by (auto simp: overdue_def)
      then have "s * 1000 + ns div 1000000 = 100" using assms(2) by (auto simp: armed_ok_def)
      then show ?thesis using a(2) by blast
    qed
    ultimately show "armed_ok (deleteTimerEvent e t)" using armed_ok_delete [OF assms] by blast
  qed
qed (simp_all add: armed_ok_add assms)

text \<open>A new first event at 300 ms, added at the reading 0; the first event deleted; a round at 1000 ms.\<close>

theorem timer_stays_armed_witness:
  "armed_ok (addTimerEvent (\<lambda>i. int i) 3 demo_timer) \<and> armed_ok (deleteTimerEvent 0 demo_timer) \<and>
   (\<exists>t' ts n. onTimer (\<lambda>i. 1000 + int i) [Read_Again] demo_timer = Some (t', ts) \<and> armed_at (1000 + int n) t')"
proof -
  have "3 \<notin> snd ` set (m_pending_events demo_timer)" by (simp add: demo_timer_def)
  moreover have "\<not> overdue demo_timer" by (simp add: overdue_def demo_timer_def)
  moreover obtain t' ts where "onTimer (\<lambda>i. 1000 + int i) [Read_Again] demo_timer = Some (t', ts)"
    using onTimer_eq [OF demo_timer_inv(1), of "[Read_Again]"] by simp
  ultimately show ?thesis
    using timer_stays_armed [OF demo_timer_inv, of 3 "\<lambda>i. int i"] timer_stays_armed [OF demo_timer_inv, of 0 "\<lambda>i. 1000 + int i"] by blast
qed

text \<open>
  A deleted event is gone: it is not pending any more and is marked cancelled, so its task is not
  among those a later round runs, while every other event stays pending.
\<close>

theorem deleteTimerEvent_removes:
  assumes "timer_inv t"
  shows "e \<notin> snd ` set (m_pending_events (deleteTimerEvent e t)) \<and> timer_inv (deleteTimerEvent e t) \<and>
    e \<notin> set (due_events now (deleteTimerEvent e t)) \<and>
    (\<forall>x. x \<noteq> e \<longrightarrow> x \<in> set (due_events now (deleteTimerEvent e t)) \<longleftrightarrow> x \<in> set (due_events now t))"
proof -
  have s: "set (m_pending_events (deleteTimerEvent e t)) =
      set (m_pending_events t) - {(te_arrive_time (tm_heap t e), e)}"
    using assms set_erase_entry by (simp add: deleteTimerEvent_def Let_def timer_inv_def)
  then have n: "e \<notin> snd ` set (m_pending_events (deleteTimerEvent e t))"
    using assms by (auto simp: timer_inv_def)
  moreover have h: "x \<noteq> e \<Longrightarrow> tm_heap (deleteTimerEvent e t) x = tm_heap t x" for x
    by (simp add: deleteTimerEvent_def Let_def)
  moreover have "(k, x) \<in> set (m_pending_events (deleteTimerEvent e t)) \<longleftrightarrow> (k, x) \<in> set (m_pending_events t)"
    if "x \<noteq> e" for k x using that s by auto
  ultimately show ?thesis using timer_inv_delete [OF assms, of e] unfolding due_events_def by (force simp: image_iff)
qed

theorem deleteTimerEvent_removes_witness:
  "1 \<notin> snd ` set (m_pending_events (deleteTimerEvent 1 demo_timer)) \<and>
   timer_inv (deleteTimerEvent 1 demo_timer)"
  using deleteTimerEvent_removes [OF demo_timer_inv(1), of 1] by blast

end
