(* ===== verification/Event_Loop.thy ===== *)
theory Event_Loop
  imports Timer
begin

text \<open>
  The reactor, \<^verbatim>\<open>net/eventloop.{h,cc}\<close> with \<^verbatim>\<open>net/wakeup_fd_event.{h,cc}\<close>: construction, the epoll
  registration of events from the loop's own and from other threads, the task queue, the dispatch
  of epoll results, stopping and waking up.  The kernel's interest list behaves as
  \<^verbatim>\<open>epoll_ctl(2)\<close> documents: adding a descriptor that is present, modifying or deleting one that
  is absent fails; \<open>fd_ok\<close> tells which descriptors can be watched.  The counter of the
  wake-up descriptor is \<open>el_eventfd\<close>; \<open>el_group\<close> is the part of the event table whose
  descriptors the loop owns, \<open>el_listen\<close> the event of a listening socket.
\<close>

section \<open>State\<close>

datatype ctl_op = EPOLL_CTL_ADD | EPOLL_CTL_DEL | EPOLL_CTL_MOD

type_synonym epoll_event = "int32 \<times> ev_ptr option"

record event_loop =
  el_thread_id :: int
  el_epoll_fd :: int
  el_wakeup_fd :: int
  el_wakeup :: fd_event
  el_timer :: timer
  el_listen :: "fd_event option"
  el_group :: fd_event_group
  m_listen_fds :: "int set"
  m_pending_tasks :: "task option list"
  m_stop_flag :: bool
  m_is_looping :: bool
  el_kernel :: "int \<rightharpoonup> epoll_event"
  el_eventfd :: nat

record loop_env =
  env_fd_ok :: "int \<Rightarrow> bool"
  env_clock :: "nat \<Rightarrow> int"
  env_timer_reads :: "fd_read list"
  env_client :: "task \<Rightarrow> event_loop \<Rightarrow> event_loop option"

definition ev_at :: "event_loop \<Rightarrow> ev_ptr \<Rightarrow> fd_event option" where
  "ev_at s p = (case p of
     Wakeup_Event \<Rightarrow> Some (el_wakeup s)
   | Timer_Event \<Rightarrow> Some (fd_event.truncate (el_timer s))
   | Listen_Event \<Rightarrow> el_listen s
   | Group_Event i \<Rightarrow> if i < length (m_fd_group (el_group s)) then m_fd_group (el_group s) ! i else None)"

definition epoll_ctl ::
    "(int \<Rightarrow> bool) \<Rightarrow> ctl_op \<Rightarrow> int \<Rightarrow> epoll_event \<Rightarrow> (int \<rightharpoonup> epoll_event) \<Rightarrow> int \<times> (int \<rightharpoonup> epoll_event)" where
  "epoll_ctl fd_ok op fd ev k = (case op of
     EPOLL_CTL_ADD \<Rightarrow> if fd_ok fd \<and> k fd = None then (0, k(fd \<mapsto> ev)) else (-1, k)
   | EPOLL_CTL_MOD \<Rightarrow> if k fd \<noteq> None then (0, k(fd \<mapsto> ev)) else (-1, k)
   | EPOLL_CTL_DEL \<Rightarrow> if k fd \<noteq> None then (0, k(fd := None)) else (-1, k))"

section \<open>Registration\<close>

text \<open>The macros \<open>ADD_TO_EPOLL\<close> and \<open>DELETE_TO_EPOLL\<close>; a failed call is only logged.\<close>

definition add_to_epoll :: "(int \<Rightarrow> bool) \<Rightarrow> ev_ptr \<Rightarrow> event_loop \<Rightarrow> event_loop option" where
  "add_to_epoll fd_ok p s = do {
     event \<leftarrow> ev_at s p;
     let op = (if getFd event \<in> m_listen_fds s then EPOLL_CTL_MOD else EPOLL_CTL_ADD);
     let (rt, k) = epoll_ctl fd_ok op (getFd event) (getEpollEvent event) (el_kernel s);
     Some (s\<lparr>el_kernel := k, m_listen_fds := insert (getFd event) (m_listen_fds s)\<rparr>) }"

definition delete_from_epoll :: "(int \<Rightarrow> bool) \<Rightarrow> ev_ptr \<Rightarrow> event_loop \<Rightarrow> event_loop option" where
  "delete_from_epoll fd_ok p s = do {
     event \<leftarrow> ev_at s p;
     if getFd event \<notin> m_listen_fds s then Some s
     else do {
       let (rt, k) = epoll_ctl fd_ok EPOLL_CTL_DEL (getFd event) (0, None) (el_kernel s);
       Some (s\<lparr>el_kernel := k, m_listen_fds := m_listen_fds s - {getFd event}\<rparr>) } }"

text \<open>\<open>wakeup\<close> writes the eight bytes \<open>{'a', 0, ...}\<close>, the number 97, to the event descriptor.\<close>

definition wakeup :: "event_loop \<Rightarrow> event_loop" where
  "wakeup s = s\<lparr>el_eventfd := el_eventfd s + 97\<rparr>"

definition addTask :: "task option \<Rightarrow> bool \<Rightarrow> event_loop \<Rightarrow> event_loop" where
  "addTask cb is_wake_up s =
     (let s1 = s\<lparr>m_pending_tasks := m_pending_tasks s @ [cb]\<rparr> in if is_wake_up then wakeup s1 else s1)"

definition isInLoopThread :: "int \<Rightarrow> event_loop \<Rightarrow> bool" where
  "isInLoopThread tid s \<longleftrightarrow> tid = el_thread_id s"

definition addEpollEvent :: "(int \<Rightarrow> bool) \<Rightarrow> int \<Rightarrow> ev_ptr \<Rightarrow> event_loop \<Rightarrow> event_loop option" where
  "addEpollEvent fd_ok tid event s =
     (if isInLoopThread tid s then add_to_epoll fd_ok event s
      else Some (addTask (Some (Add_To_Epoll event)) True s))"

definition deleteEpollEvent :: "(int \<Rightarrow> bool) \<Rightarrow> int \<Rightarrow> ev_ptr \<Rightarrow> event_loop \<Rightarrow> event_loop option" where
  "deleteEpollEvent fd_ok tid event s =
     (if isInLoopThread tid s then delete_from_epoll fd_ok event s
      else Some (addTask (Some (Delete_From_Epoll event)) True s))"

definition loop_addTimerEvent :: "(nat \<Rightarrow> int) \<Rightarrow> nat \<Rightarrow> event_loop \<Rightarrow> event_loop" where
  "loop_addTimerEvent clock event s = s\<lparr>el_timer := addTimerEvent clock event (el_timer s)\<rparr>"

definition loop_stop :: "event_loop \<Rightarrow> event_loop" where
  "loop_stop s = wakeup (s\<lparr>m_stop_flag := True, m_is_looping := False\<rparr>)"

definition isLooping :: "event_loop \<Rightarrow> bool" where
  "isLooping s \<longleftrightarrow> m_is_looping s"

section \<open>Construction\<close>

record loop_sys =
  lsys_tid :: int
  lsys_epoll_create :: int
  lsys_eventfd :: int
  lsys_timerfd :: int

definition initWakeUpFdEevent :: "(int \<Rightarrow> bool) \<Rightarrow> loop_sys \<Rightarrow> event_loop \<Rightarrow> event_loop option" where
  "initWakeUpFdEevent fd_ok sys s =
     (if lsys_eventfd sys < 0 then None
      else addEpollEvent fd_ok (lsys_tid sys) Wakeup_Event
        (s\<lparr>el_wakeup_fd := lsys_eventfd sys,
           el_wakeup := fd_listen Wakeup_Event IN_EVENT (Some Read_Wakeup_Fd) None (Fd_Event_new (lsys_eventfd sys))\<rparr>))"

definition initTimer :: "(int \<Rightarrow> bool) \<Rightarrow> loop_sys \<Rightarrow> event_loop \<Rightarrow> event_loop option" where
  "initTimer fd_ok sys s =
     addEpollEvent fd_ok (lsys_tid sys) Timer_Event (s\<lparr>el_timer := Timer_new (lsys_timerfd sys)\<rparr>)"

text \<open>\<open>None\<close>: the process exits.  \<open>created\<close>: this thread has a loop already.\<close>

definition Eventloop_new ::
    "(int \<Rightarrow> bool) \<Rightarrow> bool \<Rightarrow> loop_sys \<Rightarrow> fd_event_group \<Rightarrow> event_loop option" where
  "Eventloop_new fd_ok created sys grp =
     (if created then None
      else if lsys_epoll_create sys = -1 then None
      else do {
        s \<leftarrow> initWakeUpFdEevent fd_ok sys
          \<lparr>el_thread_id = lsys_tid sys, el_epoll_fd = lsys_epoll_create sys, el_wakeup_fd = 0,
           el_wakeup = Fd_Event_new 0, el_timer = Timer_new 0, el_listen = None, el_group = grp, m_listen_fds = {},
           m_pending_tasks = [], m_stop_flag = False, m_is_looping = False, el_kernel = Map.empty, el_eventfd = 0\<rparr>;
        initTimer fd_ok sys s })"

definition GetCurrentEventLoop ::
    "(int \<Rightarrow> bool) \<Rightarrow> event_loop option \<Rightarrow> loop_sys \<Rightarrow> fd_event_group \<Rightarrow> event_loop option" where
  "GetCurrentEventLoop fd_ok current sys grp =
     (case current of Some l \<Rightarrow> Some l | None \<Rightarrow> Eventloop_new fd_ok False sys grp)"

section \<open>The loop\<close>

text \<open>
  A task.  The closures of the loop itself are executed here; those of its clients by
  \<open>env_client\<close>.  The wake-up handler reads the event descriptor empty; \<open>onTimer\<close> ends with
  the due callbacks.
\<close>

fun run_all :: "(task \<Rightarrow> event_loop \<Rightarrow> event_loop option) \<Rightarrow> task list \<Rightarrow> event_loop \<Rightarrow> event_loop option" where
  "run_all f [] s = Some s"
| "run_all f (t # ts) s = do { s1 \<leftarrow> f t s; run_all f ts s1 }"

definition run_task :: "loop_env \<Rightarrow> task \<Rightarrow> event_loop \<Rightarrow> event_loop option" where
  "run_task env t s = (case t of
     Read_Wakeup_Fd \<Rightarrow> Some (s\<lparr>el_eventfd := 0\<rparr>)
   | On_Timer \<Rightarrow> do {
       (tm, ts) \<leftarrow> onTimer (env_clock env) (env_timer_reads env) (el_timer s);
       run_all (env_client env) ts (s\<lparr>el_timer := tm\<rparr>) }
   | Add_To_Epoll p \<Rightarrow> add_to_epoll (env_fd_ok env) p s
   | Delete_From_Epoll p \<Rightarrow> delete_from_epoll (env_fd_ok env) p s
   | _ \<Rightarrow> env_client env t s)"

fun run_tasks :: "loop_env \<Rightarrow> task option list \<Rightarrow> event_loop \<Rightarrow> event_loop option" where
  "run_tasks env [] s = Some s"
| "run_tasks env (None # ts) s = run_tasks env ts s"
| "run_tasks env (Some t # ts) s = do { s1 \<leftarrow> run_task env t s; run_tasks env ts s1 }"

datatype wait_result = Wait_Error | Wait_Events "epoll_event list"

abbreviation g_epoll_max_events :: nat where "g_epoll_max_events \<equiv> 10"

definition dispatch :: "loop_env \<Rightarrow> int \<Rightarrow> epoll_event \<Rightarrow> event_loop \<Rightarrow> event_loop option" where
  "dispatch env tid trigger_event s =
     (case snd trigger_event of
        None \<Rightarrow> Some s
      | Some p \<Rightarrow> do {
          fd_event \<leftarrow> ev_at s p;
          let s = (if fst trigger_event AND EPOLLIN \<noteq> 0 then addTask (handler IN_EVENT fd_event) False s else s);
          let s = (if fst trigger_event AND EPOLLOUT \<noteq> 0 then addTask (handler OUT_EVENT fd_event) False s else s);
          if fst trigger_event AND EPOLLERR \<noteq> 0 then do {
            s \<leftarrow> deleteEpollEvent (env_fd_ok env) tid p s;
            if handler ERROR_EVENT fd_event \<noteq> None then Some (addTask (handler OUT_EVENT fd_event) False s)
            else Some s }
          else Some s })"

fun dispatch_all :: "loop_env \<Rightarrow> int \<Rightarrow> epoll_event list \<Rightarrow> event_loop \<Rightarrow> event_loop option" where
  "dispatch_all env tid [] s = Some s"
| "dispatch_all env tid (ev # evs) s = do { s1 \<leftarrow> dispatch env tid ev s; dispatch_all env tid evs s1 }"

definition loop_iter :: "loop_env \<Rightarrow> int \<Rightarrow> wait_result \<Rightarrow> event_loop \<Rightarrow> event_loop option" where
  "loop_iter env tid w s = do {
     let tmp_tasks = m_pending_tasks s;
     s \<leftarrow> run_tasks env tmp_tasks (s\<lparr>m_pending_tasks := []\<rparr>);
     (case w of
        Wait_Error \<Rightarrow> Some s
      | Wait_Events evs \<Rightarrow> dispatch_all env tid (take g_epoll_max_events evs) s) }"

text \<open>The loop over the results of successive calls of \<open>epoll_wait\<close>.\<close>

fun loop_rounds :: "loop_env \<Rightarrow> int \<Rightarrow> wait_result list \<Rightarrow> event_loop \<Rightarrow> event_loop option" where
  "loop_rounds env tid [] s = Some s"
| "loop_rounds env tid (w # ws) s =
     (if m_stop_flag s then Some s else do { s1 \<leftarrow> loop_iter env tid w s; loop_rounds env tid ws s1 })"

definition loop :: "loop_env \<Rightarrow> int \<Rightarrow> wait_result list \<Rightarrow> event_loop \<Rightarrow> event_loop option" where
  "loop env tid ws s = loop_rounds env tid ws (s\<lparr>m_is_looping := True\<rparr>)"

text \<open>
  The destructor, on the set of open descriptors: the destructors of the wake-up event and of the timer do not close
  theirs.
\<close>

definition Eventloop_delete :: "event_loop \<Rightarrow> int set \<Rightarrow> int set" where
  "Eventloop_delete s fds = fds - {el_epoll_fd s}"

section \<open>Lemmas\<close>

text \<open>
  The loop's own record of the registered descriptors against the kernel's: the kernel watches those of
  them it can.
\<close>

definition kernel_agrees :: "(int \<Rightarrow> bool) \<Rightarrow> event_loop \<Rightarrow> bool" where
  "kernel_agrees fd_ok s \<longleftrightarrow> dom (el_kernel s) = {fd \<in> m_listen_fds s. fd_ok fd}"

lemma ev_at_update [simp]:
  "ev_at (s\<lparr>el_kernel := k\<rparr>) = ev_at s" "ev_at (s\<lparr>m_listen_fds := l\<rparr>) = ev_at s"
  "ev_at (s\<lparr>m_pending_tasks := ts\<rparr>) = ev_at s" "ev_at (s\<lparr>el_eventfd := n\<rparr>) = ev_at s"
  by (auto simp: ev_at_def fun_eq_iff split: ev_ptr.split)

lemma kernel_agrees_iff: "kernel_agrees fd_ok s \<Longrightarrow> el_kernel s fd \<noteq> None \<longleftrightarrow> fd \<in> m_listen_fds s \<and> fd_ok fd"
  unfolding kernel_agrees_def by (metis (mono_tags, lifting) domIff mem_Collect_eq)

lemma add_to_epoll_registered:
  assumes "kernel_agrees fd_ok s" "ev_at s p = Some e"
  shows "add_to_epoll fd_ok p s = Some (s\<lparr>
    el_kernel := (if fd_ok (getFd e) then (el_kernel s)(getFd e \<mapsto> getEpollEvent e) else el_kernel s),
    m_listen_fds := insert (getFd e) (m_listen_fds s)\<rparr>)"
proof -
  have "el_kernel s (getFd e) = None" if "getFd e \<notin> m_listen_fds s \<or> \<not> fd_ok (getFd e)"
    using that kernel_agrees_iff [OF assms(1), of "getFd e"] by blast
  then show ?thesis using assms(2) kernel_agrees_iff [OF assms(1), of "getFd e"]
    by (cases "getFd e \<in> m_listen_fds s") (auto simp: add_to_epoll_def epoll_ctl_def)
qed

lemma delete_from_epoll_registered:
  assumes "kernel_agrees fd_ok s" "ev_at s p = Some e"
  shows "delete_from_epoll fd_ok p s = Some (s\<lparr>el_kernel := (el_kernel s)(getFd e := None),
    m_listen_fds := m_listen_fds s - {getFd e}\<rparr>)"
proof (cases "el_kernel s (getFd e)")
  case None
  then have "(el_kernel s)(getFd e := None) = el_kernel s" by auto
  then show ?thesis using None assms(2) by (auto simp: delete_from_epoll_def epoll_ctl_def Let_def)
next
  case (Some m)
  then have "getFd e \<in> m_listen_fds s" using kernel_agrees_iff [OF assms(1), of "getFd e"] by simp
  then show ?thesis using Some assms(2) by (auto simp: delete_from_epoll_def epoll_ctl_def Let_def)
qed

lemma registered_add:
  assumes "kernel_agrees fd_ok s" "add_to_epoll fd_ok p s = Some s'"
  shows "kernel_agrees fd_ok s'"
proof -
  obtain e where "ev_at s p = Some e" using assms(2) by (auto simp: add_to_epoll_def bind_eq_Some_conv)
  from add_to_epoll_registered [OF assms(1) this] show ?thesis using assms by (auto simp: kernel_agrees_def)
qed

lemma registered_delete:
  assumes "kernel_agrees fd_ok s" "delete_from_epoll fd_ok p s = Some s'"
  shows "kernel_agrees fd_ok s'"
proof -
  obtain e where "ev_at s p = Some e" using assms(2) by (auto simp: delete_from_epoll_def bind_eq_Some_conv)
  from delete_from_epoll_registered [OF assms(1) this] show ?thesis using assms by (auto simp: kernel_agrees_def)
qed

lemma run_tasks_append:
  "run_tasks env (as @ bs) s = do { s1 \<leftarrow> run_tasks env as s; run_tasks env bs s1 }"
  by (induction env as s rule: run_tasks.induct) (auto split: Option.bind_splits)

lemma addTask_fields [simp]:
  "m_pending_tasks (addTask t w s) = m_pending_tasks s @ [t]" "el_kernel (addTask t w s) = el_kernel s"
  "m_listen_fds (addTask t w s) = m_listen_fds s" "el_thread_id (addTask t w s) = el_thread_id s"
  "ev_at (addTask t w s) = ev_at s" "el_eventfd (addTask t w s) = el_eventfd s + (if w then 97 else 0)"
  by (simp_all add: addTask_def wakeup_def Let_def)

lemma registered_addTask [simp]: "kernel_agrees fd_ok (addTask t w s) \<longleftrightarrow> kernel_agrees fd_ok s"
  by (simp add: kernel_agrees_def)

section \<open>The interface of the registration\<close>

text \<open>
  What the owners of events (timer, acceptor, connections) rely on: watching an event makes the
  kernel report its descriptor with the event's current mask, unwatching stops that.
\<close>

locale fd_registry =
  fixes interest :: "'s \<Rightarrow> 'fd \<Rightarrow> 'm option"
    and desc :: "'s \<Rightarrow> 'p \<Rightarrow> ('fd \<times> 'm) option"
    and watch :: "'p \<Rightarrow> 's \<Rightarrow> 's option"
    and unwatch :: "'p \<Rightarrow> 's \<Rightarrow> 's option"
    and good :: "'s \<Rightarrow> bool"
    and watchable :: "'fd \<Rightarrow> bool"
  assumes watch: "good s \<Longrightarrow> desc s p = Some (fd, m) \<Longrightarrow> watchable fd \<Longrightarrow>
      \<exists>s'. watch p s = Some s' \<and> good s' \<and> interest s' = (interest s)(fd \<mapsto> m) \<and> desc s' = desc s"
    and unwatch: "good s \<Longrightarrow> desc s p = Some (fd, m) \<Longrightarrow>
      \<exists>s'. unwatch p s = Some s' \<and> good s' \<and> interest s' = (interest s)(fd := None) \<and> desc s' = desc s"
begin

lemma watch_unwatch:
  assumes "good s" "desc s p = Some (fd, m)" "watchable fd"
  shows "\<exists>s1 s2. watch p s = Some s1 \<and> unwatch p s1 = Some s2 \<and> good s2 \<and>
    interest s1 = (interest s)(fd \<mapsto> m) \<and> interest s2 = (interest s)(fd := None)"
proof -
  obtain s1 where s1: "watch p s = Some s1" "good s1" "interest s1 = (interest s)(fd \<mapsto> m)" "desc s1 = desc s"
    using watch [OF assms] by blast
  then obtain s2 where "unwatch p s1 = Some s2" "good s2" "interest s2 = (interest s1)(fd := None)"
    using unwatch [of s1 p fd m] assms(2) by auto
  then show ?thesis using s1 by auto
qed

end

interpretation elr: fd_registry el_kernel "\<lambda>s p. map_option (\<lambda>e. (getFd e, getEpollEvent e)) (ev_at s p)"
    "addEpollEvent fd_ok tid" "deleteEpollEvent fd_ok tid" "\<lambda>s. kernel_agrees fd_ok s \<and> isInLoopThread tid s" fd_ok
  for fd_ok tid
proof unfold_locales
  fix s p fd m
  assume s: "kernel_agrees fd_ok s \<and> isInLoopThread tid s"
    and p: "map_option (\<lambda>e. (getFd e, getEpollEvent e)) (ev_at s p) = Some (fd, m)"
  then obtain e where e: "ev_at s p = Some e" "fd = getFd e" "m = getEpollEvent e" by auto
  show "\<exists>s'. deleteEpollEvent fd_ok tid p s = Some s' \<and> (kernel_agrees fd_ok s' \<and> isInLoopThread tid s') \<and>
      el_kernel s' = (el_kernel s)(fd := None) \<and>
      (\<lambda>p. map_option (\<lambda>e. (getFd e, getEpollEvent e)) (ev_at s' p)) =
      (\<lambda>p. map_option (\<lambda>e. (getFd e, getEpollEvent e)) (ev_at s p))"
    using s delete_from_epoll_registered [of fd_ok s p e] e
    by (auto simp: deleteEpollEvent_def isInLoopThread_def kernel_agrees_def)
  assume "fd_ok fd"
  then show "\<exists>s'. addEpollEvent fd_ok tid p s = Some s' \<and> (kernel_agrees fd_ok s' \<and> isInLoopThread tid s') \<and>
      el_kernel s' = (el_kernel s)(fd \<mapsto> m) \<and>
      (\<lambda>p. map_option (\<lambda>e. (getFd e, getEpollEvent e)) (ev_at s' p)) =
      (\<lambda>p. map_option (\<lambda>e. (getFd e, getEpollEvent e)) (ev_at s p))"
    using s add_to_epoll_registered [of fd_ok s p e] e
    by (auto simp: addEpollEvent_def isInLoopThread_def kernel_agrees_def)
qed

section \<open>Properties\<close>

text \<open>
  The states a loop gets into: created, then changed by registrations from any thread, by queued registrations that are
  run, and by anything that leaves the descriptors alone (callbacks, timers, other tasks, the mask and the
  callbacks of events).
\<close>

inductive loop_reachable :: "(int \<Rightarrow> bool) \<Rightarrow> event_loop \<Rightarrow> bool" for fd_ok where
  lr_new: "Eventloop_new fd_ok created sys grp = Some s \<Longrightarrow> loop_reachable fd_ok s"
| lr_add: "loop_reachable fd_ok s \<Longrightarrow> addEpollEvent fd_ok tid p s = Some s' \<Longrightarrow> loop_reachable fd_ok s'"
| lr_delete: "loop_reachable fd_ok s \<Longrightarrow> deleteEpollEvent fd_ok tid p s = Some s' \<Longrightarrow> loop_reachable fd_ok s'"
| lr_task: "loop_reachable fd_ok s \<Longrightarrow> run_task env t s = Some s' \<Longrightarrow> env_fd_ok env = fd_ok \<Longrightarrow>
    t = Add_To_Epoll p \<or> t = Delete_From_Epoll p \<Longrightarrow> loop_reachable fd_ok s'"
| lr_other: "loop_reachable fd_ok s \<Longrightarrow> el_kernel s' = el_kernel s \<Longrightarrow> m_listen_fds s' = m_listen_fds s \<Longrightarrow>
    loop_reachable fd_ok s'"

lemma addEpollEvent_registered: "kernel_agrees fd_ok s \<Longrightarrow> addEpollEvent fd_ok tid p s = Some s' \<Longrightarrow> kernel_agrees fd_ok s'"
  by (auto simp: addEpollEvent_def registered_add split: if_splits)

lemma deleteEpollEvent_registered:
  "kernel_agrees fd_ok s \<Longrightarrow> deleteEpollEvent fd_ok tid p s = Some s' \<Longrightarrow> kernel_agrees fd_ok s'"
  by (auto simp: deleteEpollEvent_def registered_delete split: if_splits)

lemma kernel_agrees_cong: "kernel_agrees fd_ok s \<Longrightarrow> el_kernel s' = el_kernel s \<Longrightarrow> m_listen_fds s' = m_listen_fds s \<Longrightarrow> kernel_agrees fd_ok s'"
  by (simp add: kernel_agrees_def)

lemma initWakeUpFdEevent_registered:
  assumes "kernel_agrees fd_ok s" "initWakeUpFdEevent fd_ok sys s = Some s'"
  shows "kernel_agrees fd_ok s'"
proof -
  obtain s1 where "addEpollEvent fd_ok (lsys_tid sys) Wakeup_Event s1 = Some s'" "el_kernel s1 = el_kernel s" "m_listen_fds s1 = m_listen_fds s"
    using assms(2) by (auto simp: initWakeUpFdEevent_def split: if_splits)
  then show ?thesis using assms(1) kernel_agrees_cong addEpollEvent_registered by blast
qed

lemma initTimer_registered:
  assumes "kernel_agrees fd_ok s" "initTimer fd_ok sys s = Some s'"
  shows "kernel_agrees fd_ok s'"
proof -
  have "kernel_agrees fd_ok (s\<lparr>el_timer := Timer_new (lsys_timerfd sys)\<rparr>)" by (rule kernel_agrees_cong [OF assms(1)]) simp_all
  then show ?thesis using assms(2) addEpollEvent_registered unfolding initTimer_def by blast
qed

lemma Eventloop_new_registered:
  assumes "Eventloop_new fd_ok created sys grp = Some s"
  shows "kernel_agrees fd_ok s"
proof -
  define l where "l = \<lparr>el_thread_id = lsys_tid sys, el_epoll_fd = lsys_epoll_create sys, el_wakeup_fd = 0,
           el_wakeup = Fd_Event_new 0, el_timer = Timer_new 0, el_listen = None, el_group = grp, m_listen_fds = {},
           m_pending_tasks = [], m_stop_flag = False, m_is_looping = False, el_kernel = Map.empty, el_eventfd = 0\<rparr>"
  have "kernel_agrees fd_ok l" by (simp add: l_def kernel_agrees_def)
  moreover obtain s1 where "initWakeUpFdEevent fd_ok sys l = Some s1" "initTimer fd_ok sys s1 = Some s"
    using assms unfolding Eventloop_new_def l_def [symmetric] by (auto simp: bind_eq_Some_conv split: if_split_asm)
  ultimately show ?thesis using initWakeUpFdEevent_registered initTimer_registered by blast
qed

lemma loop_reachable_registered: "loop_reachable fd_ok s \<Longrightarrow> kernel_agrees fd_ok s"
proof (induction rule: loop_reachable.induct)
  case (lr_new created sys grp s)
  then show ?case by (rule Eventloop_new_registered)
next
  case (lr_add s tid p s')
  show ?case by (rule addEpollEvent_registered [OF lr_add.IH lr_add.hyps(2)])
next
  case (lr_delete s tid p s')
  show ?case by (rule deleteEpollEvent_registered [OF lr_delete.IH lr_delete.hyps(2)])
next
  case (lr_task s env t s' p)
  from lr_task.hyps(4) show ?case
  proof
    assume "t = Add_To_Epoll p"
    then have "add_to_epoll fd_ok p s = Some s'" using lr_task.hyps(2,3) by (simp add: run_task_def)
    then show ?thesis by (rule registered_add [OF lr_task.IH])
  next
    assume "t = Delete_From_Epoll p"
    then have "delete_from_epoll fd_ok p s = Some s'" using lr_task.hyps(2,3) by (simp add: run_task_def)
    then show ?thesis by (rule registered_delete [OF lr_task.IH])
  qed
next
  case (lr_other s s')
  show ?case by (rule kernel_agrees_cong [OF lr_other.IH lr_other.hyps(2,3)])
qed

text \<open>Every pass of the loop stays among these states, when the tasks of its clients do.\<close>

lemma addTask_reachable: "loop_reachable fd_ok s \<Longrightarrow> loop_reachable fd_ok (addTask t w s)"
  by (rule lr_other) simp_all

lemma dispatch_reachable:
  assumes "loop_reachable (env_fd_ok env) s" "dispatch env tid ev s = Some s'"
  shows "loop_reachable (env_fd_ok env) s'"
proof (cases "snd ev")
  case (Some p)
  then obtain e where e: "ev_at s p = Some e" using assms(2) by (auto simp: dispatch_def bind_eq_Some_conv)
  define s1 where "s1 = (if fst ev AND EPOLLIN \<noteq> 0 then addTask (handler IN_EVENT e) False s else s)"
  define s2 where "s2 = (if fst ev AND EPOLLOUT \<noteq> 0 then addTask (handler OUT_EVENT e) False s1 else s1)"
  have r: "loop_reachable (env_fd_ok env) s2" using assms(1) by (simp add: s1_def s2_def addTask_reachable)
  have d: "dispatch env tid ev s =
      (if fst ev AND EPOLLERR \<noteq> 0 then do {
         s \<leftarrow> deleteEpollEvent (env_fd_ok env) tid p s2;
         if handler ERROR_EVENT e \<noteq> None then Some (addTask (handler OUT_EVENT e) False s) else Some s }
       else Some s2)"
    using e Some by (simp add: dispatch_def s1_def s2_def Let_def)
  show ?thesis
  proof (cases "fst ev AND EPOLLERR = 0")
    case False
    then obtain s3 where s3: "deleteEpollEvent (env_fd_ok env) tid p s2 = Some s3"
        "s' = s3 \<or> s' = addTask (handler OUT_EVENT e) False s3"
      using assms(2) unfolding d by (cases "deleteEpollEvent (env_fd_ok env) tid p s2") (auto split: if_splits)
    show ?thesis using lr_delete [OF r s3(1)] addTask_reachable s3(2) by blast
  qed (use assms(2) r in \<open>simp add: d\<close>)
qed (use assms in \<open>simp add: dispatch_def\<close>)

lemma dispatch_all_reachable:
  "loop_reachable (env_fd_ok env) s \<Longrightarrow> dispatch_all env tid evs s = Some s' \<Longrightarrow> loop_reachable (env_fd_ok env) s'"
proof (induction evs arbitrary: s)
  case (Cons ev evs)
  then show ?case using dispatch_reachable by (fastforce simp: bind_eq_Some_conv)
qed simp

lemma run_all_reachable:
  assumes "\<And>t s s'. loop_reachable fd_ok s \<Longrightarrow> f t s = Some s' \<Longrightarrow> loop_reachable fd_ok s'"
  shows "loop_reachable fd_ok s \<Longrightarrow> run_all f ts s = Some s' \<Longrightarrow> loop_reachable fd_ok s'"
proof (induction ts arbitrary: s)
  case (Cons t ts)
  then show ?case using assms by (fastforce simp: bind_eq_Some_conv)
qed simp

lemma run_tasks_reachable:
  assumes "\<And>t s s'. loop_reachable (env_fd_ok env) s \<Longrightarrow> env_client env t s = Some s' \<Longrightarrow> loop_reachable (env_fd_ok env) s'"
  shows "loop_reachable (env_fd_ok env) s \<Longrightarrow> run_tasks env ts s = Some s' \<Longrightarrow> loop_reachable (env_fd_ok env) s'"
proof (induction ts arbitrary: s)
  case (Cons t ts)
  show ?case
  proof (cases t)
    case None
    then show ?thesis using Cons by simp
  next
    case (Some u)
    then obtain s1 where s1: "run_task env u s = Some s1" "run_tasks env ts s1 = Some s'"
      using Cons.prems(2) by (auto simp: bind_eq_Some_conv)
    have "loop_reachable (env_fd_ok env) s1"
    proof (cases u)
      case On_Timer
      then obtain tm us where "run_all (env_client env) us (s\<lparr>el_timer := tm\<rparr>) = Some s1"
        using s1(1) by (auto simp: run_task_def bind_eq_Some_conv)
      moreover have "loop_reachable (env_fd_ok env) (s\<lparr>el_timer := tm\<rparr>)" by (rule lr_other [OF Cons.prems(1)]) simp_all
      ultimately show ?thesis using run_all_reachable assms by blast
    next
      case Read_Wakeup_Fd
      then show ?thesis using s1(1) lr_other [OF Cons.prems(1), of s1] by (auto simp: run_task_def)
    next
      case (Add_To_Epoll p)
      then show ?thesis using lr_task [OF Cons.prems(1) s1(1), of p] by simp
    next
      case (Delete_From_Epoll p)
      then show ?thesis using lr_task [OF Cons.prems(1) s1(1), of p] by simp
    qed (use assms [OF Cons.prems(1)] s1(1) in \<open>simp_all add: run_task_def\<close>)
    then show ?thesis using Cons.IH s1(2) by blast
  qed
qed simp

lemma loop_iter_reachable:
  assumes "\<And>t s s'. loop_reachable (env_fd_ok env) s \<Longrightarrow> env_client env t s = Some s' \<Longrightarrow> loop_reachable (env_fd_ok env) s'"
    and "loop_reachable (env_fd_ok env) s" "loop_iter env tid w s = Some s'"
  shows "loop_reachable (env_fd_ok env) s'"
proof -
  have r: "loop_reachable (env_fd_ok env) (s\<lparr>m_pending_tasks := []\<rparr>)" by (rule lr_other [OF assms(2)]) simp_all
  obtain s1 where s1: "run_tasks env (m_pending_tasks s) (s\<lparr>m_pending_tasks := []\<rparr>) = Some s1"
      "(case w of Wait_Error \<Rightarrow> Some s1 | Wait_Events evs \<Rightarrow> dispatch_all env tid (take g_epoll_max_events evs) s1) = Some s'"
    using assms(3) by (auto simp: loop_iter_def Let_def bind_eq_Some_conv)
  have "loop_reachable (env_fd_ok env) s1" by (rule run_tasks_reachable [OF assms(1) r s1(1)])
  then show ?thesis using s1(2) dispatch_all_reachable by (cases w) auto
qed

text \<open>
  C18. In every state a loop gets into, the kernel's interest list is \<open>m_listen_fds\<close>, less the descriptors the kernel
  cannot watch, as long as it does not change which these are (\<open>refused_registration_is_permanent\<close> below) and no descriptor is
  closed while it is registered (\<open>reused_descriptor_hangs\<close> in \<^verbatim>\<open>Call_Failures\<close>).  So in the loop's thread \<open>addEpollEvent\<close> registers an event
  the kernel can watch with its current mask, whether or not it was registered before, and \<open>deleteEpollEvent\<close>
  removes it, leaving every other descriptor alone.
\<close>

theorem registration_mirrors_kernel:
  assumes "loop_reachable fd_ok s"
  shows "dom (el_kernel s) = {fd \<in> m_listen_fds s. fd_ok fd} \<and>
    (\<forall>tid p e. isInLoopThread tid s \<longrightarrow> ev_at s p = Some e \<longrightarrow> fd_ok (getFd e) \<longrightarrow>
      (\<exists>s1 s2. addEpollEvent fd_ok tid p s = Some s1 \<and> el_kernel s1 = (el_kernel s)(getFd e \<mapsto> getEpollEvent e) \<and>
        deleteEpollEvent fd_ok tid p s1 = Some s2 \<and> el_kernel s2 = (el_kernel s)(getFd e := None)))"
proof (intro conjI allI impI)
  have r: "kernel_agrees fd_ok s" using assms by (rule loop_reachable_registered)
  then show "dom (el_kernel s) = {fd \<in> m_listen_fds s. fd_ok fd}" by (simp add: kernel_agrees_def)
  fix tid p e
  assume "isInLoopThread tid s" "ev_at s p = Some e" "fd_ok (getFd e)"
  then show "\<exists>s1 s2. addEpollEvent fd_ok tid p s = Some s1 \<and> el_kernel s1 = (el_kernel s)(getFd e \<mapsto> getEpollEvent e) \<and>
      deleteEpollEvent fd_ok tid p s1 = Some s2 \<and> el_kernel s2 = (el_kernel s)(getFd e := None)"
    using elr.watch_unwatch [of fd_ok s tid p "getFd e" "getEpollEvent e"] r by auto
qed

definition demo_sys_loop :: loop_sys where
  "demo_sys_loop = \<lparr>lsys_tid = 1, lsys_epoll_create = 3, lsys_eventfd = 4, lsys_timerfd = 5\<rparr>"

definition demo_loop :: event_loop where
  "demo_loop = the (Eventloop_new (\<lambda>fd. 0 \<le> fd) False demo_sys_loop (FdEventGroup_new 128))"

lemma demo_loop_new: "Eventloop_new (\<lambda>fd. 0 \<le> fd) False demo_sys_loop (FdEventGroup_new 128) = Some demo_loop"
  by (simp add: demo_loop_def Eventloop_new_def demo_sys_loop_def initWakeUpFdEevent_def initTimer_def
      addEpollEvent_def isInLoopThread_def add_to_epoll_def ev_at_def Let_def split: prod.splits)

lemma demo_loop_eval:
  "el_thread_id demo_loop = 1" "m_listen_fds demo_loop = {4, 5}" "dom (el_kernel demo_loop) = {4, 5}"
  "ev_at demo_loop (Group_Event 9) = Some (Fd_Event_new 9)" "m_pending_tasks demo_loop = []"
  "el_group demo_loop = FdEventGroup_new 128" "m_stop_flag demo_loop = False"
  "m_pending_events (el_timer demo_loop) = []"
  by (auto simp: demo_loop_def Eventloop_new_def demo_sys_loop_def initWakeUpFdEevent_def initTimer_def
      addEpollEvent_def isInLoopThread_def add_to_epoll_def ev_at_def epoll_ctl_def getFd_def getEpollEvent_def
      fd_listen_def Fd_Event_new_def Timer_new_def fd_event.defs FdEventGroup_new_def Let_def)

lemma demo_loop_reachable: "loop_reachable (\<lambda>fd. 0 \<le> fd) demo_loop"
  by (rule lr_new [OF demo_loop_new])

theorem registration_mirrors_kernel_witness:
  "\<exists>s1 s2. addEpollEvent (\<lambda>fd. 0 \<le> fd) 1 (Group_Event 9) demo_loop = Some s1 \<and>
      el_kernel s1 = (el_kernel demo_loop)(9 \<mapsto> getEpollEvent (Fd_Event_new 9)) \<and>
    deleteEpollEvent (\<lambda>fd. 0 \<le> fd) 1 (Group_Event 9) s1 = Some s2 \<and> el_kernel s2 = (el_kernel demo_loop)(9 := None)"
proof -
  have "isInLoopThread 1 demo_loop" "getFd (Fd_Event_new 9) = 9"
    by (simp_all add: isInLoopThread_def demo_loop_eval getFd_def Fd_Event_new_def)
  then show ?thesis
    using registration_mirrors_kernel [OF demo_loop_reachable] demo_loop_eval(4) by fastforce
qed

text \<open>
  C19. Registration from another thread is deferred, not lost: it wakes the loop up, and the next
  iteration performs it in the loop's thread behind the tasks queued before it, with the
  same effect there as a direct call.
\<close>

theorem cross_thread_registration:
  assumes "\<not> isInLoopThread tid s"
  shows "\<exists>s'. addEpollEvent fd_ok tid p s = Some s' \<and> 0 < el_eventfd s' \<and> el_kernel s' = el_kernel s \<and>
    run_tasks env (m_pending_tasks s') s0 = do {
      s1 \<leftarrow> run_tasks env (m_pending_tasks s) s0;
      addEpollEvent (env_fd_ok env) (el_thread_id s1) p s1 }"
proof -
  have "run_tasks env [Some (Add_To_Epoll p)] s1 = addEpollEvent (env_fd_ok env) (el_thread_id s1) p s1" for s1
    by (cases "add_to_epoll (env_fd_ok env) p s1") (simp_all add: run_task_def addEpollEvent_def isInLoopThread_def)
  then show ?thesis using assms by (simp add: addEpollEvent_def run_tasks_append del: run_tasks.simps)
qed

definition demo_env :: loop_env where
  "demo_env = \<lparr>env_fd_ok = (\<lambda>fd. 0 \<le> fd), env_clock = int, env_timer_reads = [Read_Again], env_client = (\<lambda>t. Some)\<rparr>"

theorem cross_thread_registration_witness:
  "\<exists>s'. addEpollEvent (\<lambda>fd. 0 \<le> fd) 2 (Group_Event 9) demo_loop = Some s' \<and> 0 < el_eventfd s' \<and>
     el_kernel s' = el_kernel demo_loop \<and>
     run_tasks demo_env (m_pending_tasks s') demo_loop = do {
       s1 \<leftarrow> run_tasks demo_env (m_pending_tasks demo_loop) demo_loop;
       addEpollEvent (env_fd_ok demo_env) (el_thread_id s1) (Group_Event 9) s1 }"
  by (rule cross_thread_registration) (simp add: isInLoopThread_def demo_loop_eval)

text \<open>
  What one epoll result queues: the read callback on input, then the write callback on
  output; on an error the descriptor is removed, and if the event has an error callback it
  is the \<^emph>\<open>write\<close> callback that is queued, the error callback never.
\<close>

theorem dispatch_queues:
  assumes "kernel_agrees (env_fd_ok env) s" "isInLoopThread tid s" "ev_at s p = Some e"
  shows "\<exists>s'. dispatch env tid (m, Some p) s = Some s' \<and> kernel_agrees (env_fd_ok env) s' \<and>
    m_pending_tasks s' = m_pending_tasks s
      @ (if m AND EPOLLIN \<noteq> 0 then [m_read_callback e] else [])
      @ (if m AND EPOLLOUT \<noteq> 0 then [m_write_callback e] else [])
      @ (if m AND EPOLLERR \<noteq> 0 \<and> m_error_callback e \<noteq> None then [m_write_callback e] else []) \<and>
    el_kernel s' = (if m AND EPOLLERR \<noteq> 0 then (el_kernel s)(getFd e := None) else el_kernel s)"
proof -
  define s1 where "s1 = (if m AND EPOLLIN \<noteq> 0 then addTask (handler IN_EVENT e) False s else s)"
  define s2 where "s2 = (if m AND EPOLLOUT \<noteq> 0 then addTask (handler OUT_EVENT e) False s1 else s1)"
  have s2: "kernel_agrees (env_fd_ok env) s2" "isInLoopThread tid s2" "ev_at s2 p = Some e" "el_kernel s2 = el_kernel s"
    "m_pending_tasks s2 = m_pending_tasks s @ (if m AND EPOLLIN \<noteq> 0 then [m_read_callback e] else [])
      @ (if m AND EPOLLOUT \<noteq> 0 then [m_write_callback e] else [])"
    using assms by (simp_all add: s1_def s2_def handler_def isInLoopThread_def)
  have d: "dispatch env tid (m, Some p) s =
      (if m AND EPOLLERR \<noteq> 0 then do {
         s \<leftarrow> deleteEpollEvent (env_fd_ok env) tid p s2;
         if handler ERROR_EVENT e \<noteq> None then Some (addTask (handler OUT_EVENT e) False s) else Some s }
       else Some s2)"
    using assms(3) by (simp add: dispatch_def s1_def s2_def Let_def)
  have "deleteEpollEvent (env_fd_ok env) tid p s2 = Some (s2\<lparr>el_kernel := (el_kernel s2)(getFd e := None),
      m_listen_fds := m_listen_fds s2 - {getFd e}\<rparr>)"
    using delete_from_epoll_registered [OF s2(1,3)] s2(2) by (simp add: deleteEpollEvent_def)
  moreover have "kernel_agrees (env_fd_ok env) (s2\<lparr>el_kernel := (el_kernel s2)(getFd e := None), m_listen_fds := m_listen_fds s2 - {getFd e}\<rparr>)"
    using s2(1) by (auto simp: kernel_agrees_def)
  ultimately show ?thesis
    using s2 unfolding d by (cases "m AND EPOLLERR = 0") (simp_all add: handler_def)
qed

theorem dispatch_queues_witness:
  "\<exists>s'. dispatch demo_env 1 (EPOLLIN, Some (Group_Event 9)) demo_loop = Some s' \<and> kernel_agrees (\<lambda>fd. 0 \<le> fd) s' \<and>
     m_pending_tasks s' = [None] \<and> el_kernel s' = el_kernel demo_loop"
  using dispatch_queues [of demo_env demo_loop 1 "Group_Event 9" "Fd_Event_new 9" EPOLLIN]
  loop_reachable_registered [OF demo_loop_reachable]
  by (simp add: demo_env_def demo_loop_eval isInLoopThread_def Fd_Event_new_def)

text \<open>
  A registration the kernel refuses is still recorded in \<open>m_listen_fds\<close>; from then on the loop
  only tries to modify it, so registering the event again fails even after the kernel would accept it.
\<close>

theorem refused_registration_is_permanent:
  assumes "kernel_agrees fd_ok s" "isInLoopThread tid s" "ev_at s p = Some e" "\<not> fd_ok (getFd e)"
  shows "\<exists>s1 s2. addEpollEvent fd_ok tid p s = Some s1 \<and>
    addEpollEvent (\<lambda>fd. True) tid p s1 = Some s2 \<and> el_kernel s2 (getFd e) = None"
proof -
  let ?s = "s\<lparr>m_listen_fds := insert (getFd e) (m_listen_fds s)\<rparr>"
  have n: "el_kernel s (getFd e) = None" using kernel_agrees_iff [OF assms(1), of "getFd e"] assms(4) by blast
  have a: "add_to_epoll fd_ok p s = Some ?s" using add_to_epoll_registered [OF assms(1,3)] assms(4) by simp
  have b: "add_to_epoll (\<lambda>fd. True) p ?s = Some ?s" using assms n by (simp add: add_to_epoll_def epoll_ctl_def)
  show ?thesis using a b assms(2) n by (simp add: addEpollEvent_def isInLoopThread_def)
qed

theorem refused_registration_is_permanent_witness:
  "\<exists>s1 s2. addEpollEvent (\<lambda>fd. 0 \<le> fd \<and> fd \<noteq> 9) 1 (Group_Event 9) demo_loop = Some s1 \<and>
    addEpollEvent (\<lambda>fd. True) 1 (Group_Event 9) s1 = Some s2 \<and> el_kernel s2 (getFd (Fd_Event_new 9)) = None"
  by (rule refused_registration_is_permanent)
     (auto simp: kernel_agrees_def demo_loop_eval isInLoopThread_def getFd_def Fd_Event_new_def)

end
