(* ===== verification/Net_Addr.thy ===== *)
theory Net_Addr
  imports Talon_Prelude
begin

text \<open>
  Addresses, \<^verbatim>\<open>net/tcp/net_addr.{h,cc}\<close>: \<open>IPNetAddr\<close> with its three constructors, the static syntax
  check \<open>CheckValid\<close> on a text \<open>ip:port\<close>, and the accessors.  The resolver functions \<open>inet_addr\<close>
  and \<open>inet_ntoa\<close> of the C library are parameters.
\<close>

section \<open>State and operations\<close>

record sockaddr_in =
  sin_family :: nat
  sin_addr :: "32 word"
  sin_port :: "16 word"

record ip_net_addr =
  m_ip :: string
  m_port :: "16 word"
  m_addr :: "sockaddr_in option"

abbreviation AF_INET :: nat where "AF_INET \<equiv> 2"
abbreviation INADDR_NONE :: "32 word" where "INADDR_NONE \<equiv> 0xFFFFFFFF"

definition htons :: "16 word \<Rightarrow> 16 word" where
  "htons w = word_of_nat (unat w mod 256 * 256 + unat w div 256)"

definition CheckValid :: "string \<Rightarrow> bool option" where
  "CheckValid addr =
     (case find_first_of (CHR '':'') addr of
        None \<Rightarrow> Some False
      | Some i \<Rightarrow>
          let ip = substr addr 0 i; port = substr addr (i + 1) (length addr - i - 1) in
          if ip = [] \<or> port = [] then Some False
          else do {
            iport \<leftarrow> atoi port;
            Some (\<not> (iport \<le> 0 \<or> iport > 65536)) })"

definition IPNetAddr_of_ip_port ::
    "(string \<Rightarrow> 32 word) \<Rightarrow> string \<Rightarrow> 16 word \<Rightarrow> ip_net_addr" where
  "IPNetAddr_of_ip_port inet_addr ip port =
     \<lparr>m_ip = ip, m_port = port,
      m_addr = Some \<lparr>sin_family = AF_INET, sin_addr = inet_addr ip, sin_port = htons port\<rparr>\<rparr>"

text \<open>Without a colon the constructor returns early and \<open>m_addr\<close> stays uninitialised.\<close>

definition IPNetAddr_of_string ::
    "(string \<Rightarrow> 32 word) \<Rightarrow> string \<Rightarrow> ip_net_addr option" where
  "IPNetAddr_of_string inet_addr addr =
     (case find_first_of (CHR '':'') addr of
        None \<Rightarrow> Some \<lparr>m_ip = [], m_port = 0, m_addr = None\<rparr>
      | Some i \<Rightarrow> do {
          let ip = substr addr 0 i;
          iport \<leftarrow> atoi (substr addr (i + 1) (length addr - i - 1));
          let port = word_of_int iport;
          Some \<lparr>m_ip = ip, m_port = port,
            m_addr = Some \<lparr>sin_family = AF_INET, sin_addr = inet_addr ip, sin_port = htons port\<rparr>\<rparr> })"

definition IPNetAddr_of_sockaddr ::
    "(32 word \<Rightarrow> string) \<Rightarrow> sockaddr_in \<Rightarrow> ip_net_addr" where
  "IPNetAddr_of_sockaddr inet_ntoa addr =
     \<lparr>m_ip = inet_ntoa (sin_addr addr), m_port = htons (sin_port addr), m_addr = Some addr\<rparr>"

definition getSockAddr :: "ip_net_addr \<Rightarrow> sockaddr_in option" where
  "getSockAddr a = m_addr a"

definition getSockLen :: "ip_net_addr \<Rightarrow> nat" where
  "getSockLen a = 16"

definition getFamily :: "ip_net_addr \<Rightarrow> nat" where
  "getFamily a = AF_INET"

definition toString :: "ip_net_addr \<Rightarrow> string" where
  "toString a = m_ip a @ '':'' @ to_string (uint (m_port a))"

definition checkValid :: "(string \<Rightarrow> 32 word) \<Rightarrow> ip_net_addr \<Rightarrow> bool" where
  "checkValid inet_addr a =
     (if m_ip a = [] then False
      else if uint (m_port a) < 0 \<or> uint (m_port a) > 65536 then False
      else if inet_addr (m_ip a) = INADDR_NONE then False
      else True)"

definition getIp :: "ip_net_addr \<Rightarrow> string" where
  "getIp a = m_ip a"

definition getPort :: "ip_net_addr \<Rightarrow> 16 word" where
  "getPort a = m_port a"

section \<open>Lemmas\<close>

lemma htons_htons [simp]: "htons (htons w) = w"
proof -
  have u: "unat w < 65536" using unsigned_less [of w, where 'a = nat] by simp
  let ?n = "unat w mod 256 * 256 + unat w div 256"
  have d: "unat w div 256 < 256" using u by simp
  have "?n < 65536" using d by simp
  then have n: "unat (word_of_nat ?n :: 16 word) = ?n" by (simp add: unat_of_nat del: of_nat_add of_nat_mult)
  have "?n mod 256 = unat w div 256" "?n div 256 = unat w mod 256" using d by simp_all
  then show ?thesis unfolding htons_def n by simp
qed

lemma uint16_range: "0 \<le> uint (p :: 16 word)" "uint (p :: 16 word) \<le> 65535"
  using unsigned_less [of p, where 'a = int] by simp_all

lemma split_at_colon:
  assumes "CHR '':'' \<notin> set ip"
  shows "find_first_of (CHR '':'') (ip @ '':'' @ p) = Some (length ip)"
    "substr (ip @ '':'' @ p) 0 (length ip) = ip"
    "substr (ip @ '':'' @ p) (length ip + 1) (length (ip @ '':'' @ p) - length ip - 1) = p"
  using assms by (simp_all add: substr_def)

lemma CheckValid_ip_port:
  assumes "CHR '':'' \<notin> set ip" "ip \<noteq> []" "p \<noteq> []" "atoi p = Some i"
  shows "CheckValid (ip @ '':'' @ p) = Some (\<not> (i \<le> 0 \<or> i > 65536))"
  unfolding CheckValid_def split_at_colon(1) [OF assms(1)] option.case Let_def
    split_at_colon(2,3) [OF assms(1)]
  by (simp add: assms)

lemma IPNetAddr_of_ip_colon_port:
  assumes "CHR '':'' \<notin> set ip" "atoi p = Some i"
  shows "IPNetAddr_of_string ia (ip @ '':'' @ p) = Some (IPNetAddr_of_ip_port ia ip (word_of_int i))"
  unfolding IPNetAddr_of_string_def split_at_colon(1) [OF assms(1)] option.case Let_def
    split_at_colon(2,3) [OF assms(1)]
  by (simp add: assms IPNetAddr_of_ip_port_def)

lemma atoi_port: "atoi (to_string (uint (p :: 16 word))) = Some (uint p)"
  by (rule atoi_to_string) (unfold int_ok_def, use uint16_range [of p] in linarith)

section \<open>Properties\<close>

text \<open>
  C29. Printing and parsing an address are inverse: the text of an address built from an ip without
  a colon and a non-zero port passes the syntax check, and the constructor from text rebuilds the
  same object, socket address included.
\<close>

theorem addr_text_roundtrip:
  assumes "CHR '':'' \<notin> set ip" "ip \<noteq> []" "port \<noteq> 0"
  shows "CheckValid (toString (IPNetAddr_of_ip_port ia ip port)) = Some True
    \<and> IPNetAddr_of_string ia (toString (IPNetAddr_of_ip_port ia ip port))
        = Some (IPNetAddr_of_ip_port ia ip port)"
proof -
  have t: "toString (IPNetAddr_of_ip_port ia ip port) = ip @ '':'' @ to_string (uint port)"
    by (simp add: toString_def IPNetAddr_of_ip_port_def)
  have "0 < uint port" using assms(3) uint16_range [of port] by (metis order_le_less uint_0_iff)
  then show ?thesis
    using CheckValid_ip_port [OF assms(1,2) to_string_nonempty atoi_port, of port]
      IPNetAddr_of_ip_colon_port [OF assms(1) atoi_port, of ia port] uint16_range [of port]
    by (simp add: t)
qed

theorem addr_text_roundtrip_witness:
  "CheckValid (toString (IPNetAddr_of_ip_port (\<lambda>_. 0) ''10.0.0.1'' 9999)) = Some True"
  using addr_text_roundtrip [of "''10.0.0.1''" 9999 "\<lambda>_. 0"] by simp

text \<open>
  The check accepts one port too many: \<open>65536\<close> passes \<open>CheckValid\<close>, and the 16-bit port field
  of the constructed address is then \<open>0\<close>.
\<close>

theorem CheckValid_accepts_65536:
  assumes "CHR '':'' \<notin> set ip" "ip \<noteq> []"
  shows "CheckValid (ip @ '':65536'') = Some True
    \<and> (\<exists>a. IPNetAddr_of_string ia (ip @ '':65536'') = Some a \<and> getIp a = ip \<and> getPort a = 0)"
proof -
  have a: "atoi ''65536'' = Some 65536" by (simp add: talon_eval)
  show ?thesis
    using CheckValid_ip_port [OF assms _ a] IPNetAddr_of_ip_colon_port [OF assms(1) a, of ia]
    by (simp add: getIp_def getPort_def IPNetAddr_of_ip_port_def)
qed

theorem CheckValid_accepts_65536_witness: "CheckValid ''1.2.3.4:65536'' = Some True"
  using CheckValid_accepts_65536 [of "''1.2.3.4''"] by simp

text \<open>
  What \<open>CheckValid\<close> accepts is a non-empty ip, the first colon, and a text whose decimal value
  lies in \<open>1 \<dots> 65536\<close>; on such a text the constructor never stops early.
\<close>

theorem CheckValid_sound:
  assumes "CheckValid s = Some True"
  shows "\<exists>ip p i a. s = ip @ '':'' @ p \<and> CHR '':'' \<notin> set ip \<and> ip \<noteq> [] \<and> p \<noteq> []
    \<and> atoi p = Some i \<and> 1 \<le> i \<and> i \<le> 65536
    \<and> IPNetAddr_of_string ia s = Some a \<and> getSockAddr a \<noteq> None"
proof -
  obtain k where k: "find_first_of (CHR '':'') s = Some k"
    using assms by (auto simp: CheckValid_def split: option.splits)
  note kd = find_first_of_SomeD [OF k]
  have s: "s = take k s @ '':'' @ drop (k + 1) s"
    using kd(1,2) by (metis Suc_eq_plus1 append_Cons append_Nil id_take_nth_drop)
  have d: "substr s 0 k = take k s" "substr s (k + 1) (length s - k - 1) = drop (k + 1) s"
    by (simp_all add: substr_def)
  obtain i where i: "take k s \<noteq> []" "drop (k + 1) s \<noteq> []" "atoi (drop (k + 1) s) = Some i"
      "1 \<le> i" "i \<le> 65536"
    using assms unfolding CheckValid_def k option.case d Let_def
    by (auto split: if_splits simp: bind_eq_Some_conv)
  have "IPNetAddr_of_string ia s
      = Some (IPNetAddr_of_ip_port ia (take k s) (word_of_int i))"
    using IPNetAddr_of_ip_colon_port [OF kd(3) i(3), of ia] s by simp
  then show ?thesis using s kd(3) i
    by (intro exI conjI) (auto simp: getSockAddr_def IPNetAddr_of_ip_port_def)
qed

theorem CheckValid_sound_witness:
  "\<exists>a. IPNetAddr_of_string (\<lambda>_. 0) ''h:80'' = Some a \<and> getSockAddr a \<noteq> None"
proof -
  have "CheckValid ''h:80'' = Some True" by (simp add: CheckValid_def talon_eval)
  from CheckValid_sound [OF this, of "\<lambda>_. 0"] show ?thesis by blast
qed

end
