(* ===== verification/Tcp_Connection.thy ===== *)
theory Tcp_Connection
  imports Tinypb_Coder Event_Loop Net_Addr
begin

text \<open>
  \<open>TcpConnection\<close>, \<^verbatim>\<open>net/tcp/tcp_connection.{h,cc}\<close>: construction, the read and write loops, \<open>reply\<close>,
  the registration of callbacks, \<open>clear\<close> and \<open>shutdown\<close>.  \<open>excute\<close> and \<open>onRead\<close>, which call the
  dispatcher, are in theory \<open>Rpc_Dispatcher\<close>.

  The connection owns two buffers and an entry of the event table; the event loop is passed along.
  A socket delivers \<open>si_chunks\<close>, each read returning bytes of the first one, and then its end
  condition.  Callbacks are numbers; the calls an operation makes are part of its result.
\<close>

section \<open>State\<close>

datatype tcp_state = NotConnected | Connected | HalfClosing | Closed

datatype tcp_connection_type = TcpConnectionByServer | TcpConnectionByClient

record tcp_connection =
  conn_local_addr :: "ip_net_addr option"
  conn_peer_addr :: "ip_net_addr option"
  m_in_buffer :: tcp_buffer
  m_out_buffer :: tcp_buffer
  conn_fd_event :: nat
  conn_state :: tcp_state
  conn_fd :: int
  conn_fd_flags :: int32
  conn_type :: tcp_connection_type
  m_write_dones :: "(tiny_pb \<times> nat) list"
  m_read_dones :: "(string \<times> nat) list"

datatype sock_end = At_Eof | At_Again | At_Error

record sock_in =
  si_chunks :: "byte list list"
  si_end :: sock_end

section \<open>Events\<close>

definition update_event :: "nat \<Rightarrow> (fd_event \<Rightarrow> fd_event) \<Rightarrow> event_loop \<Rightarrow> event_loop option" where
  "update_event i f l = do {
     e \<leftarrow> ev_at l (Group_Event i);
     Some (l\<lparr>el_group := (el_group l)\<lparr>m_fd_group := (m_fd_group (el_group l))[i := Some (f e)]\<rparr>\<rparr>) }"

definition listenWrite :: "(int \<Rightarrow> bool) \<Rightarrow> int \<Rightarrow> tcp_connection \<Rightarrow> event_loop \<Rightarrow> event_loop option" where
  "listenWrite fd_ok tid c l = do {
     l \<leftarrow> update_event (conn_fd_event c)
       (fd_listen (Group_Event (conn_fd_event c)) OUT_EVENT (Some (On_Write (conn_fd_event c))) None) l;
     addEpollEvent fd_ok tid (Group_Event (conn_fd_event c)) l }"

definition listenRead :: "(int \<Rightarrow> bool) \<Rightarrow> int \<Rightarrow> tcp_connection \<Rightarrow> event_loop \<Rightarrow> event_loop option" where
  "listenRead fd_ok tid c l = do {
     l \<leftarrow> update_event (conn_fd_event c)
       (fd_listen (Group_Event (conn_fd_event c)) IN_EVENT (Some (On_Read (conn_fd_event c))) None) l;
     addEpollEvent fd_ok tid (Group_Event (conn_fd_event c)) l }"

text \<open>\<open>flag\<close> is what \<open>fcntl(fd, F_GETFL)\<close> returns.\<close>

definition TcpConnection_new ::
    "(int \<Rightarrow> bool) \<Rightarrow> int \<Rightarrow> int32 \<Rightarrow> int \<Rightarrow> int \<Rightarrow> ip_net_addr option \<Rightarrow> ip_net_addr option
       \<Rightarrow> tcp_connection_type \<Rightarrow> event_loop \<Rightarrow> (tcp_connection \<times> event_loop) option" where
  "TcpConnection_new fd_ok tid flag fd buffer_size peer_addr local_addr type l = do {
     in_buffer \<leftarrow> TcpBuffer_new buffer_size;
     out_buffer \<leftarrow> TcpBuffer_new buffer_size;
     (i, g) \<leftarrow> getFdEvent fd (el_group l);
     let l = l\<lparr>el_group := g\<rparr>;
     let c = \<lparr>conn_local_addr = local_addr, conn_peer_addr = peer_addr, m_in_buffer = in_buffer,
       m_out_buffer = out_buffer, conn_fd_event = i, conn_state = NotConnected, conn_fd = fd,
       conn_fd_flags = snd (setNonBlock flag), conn_type = type, m_write_dones = [], m_read_dones = []\<rparr>;
     (if type = TcpConnectionByServer then do { l \<leftarrow> listenRead fd_ok tid c l; Some (c, l) } else Some (c, l)) }"

section \<open>Reading\<close>

text \<open>
  One pass of the loop in \<open>onRead\<close>.  \<open>Read_Break c b s\<close>: the loop ends, \<open>c\<close> tells whether the
  peer has closed; \<open>Read_On b s\<close>: it goes on.  The bytes are stored in the vector before the write
  index is moved.
\<close>

datatype read_step = Read_Break bool tcp_buffer sock_in | Read_On tcp_buffer sock_in

definition chunk_rest :: "byte list \<Rightarrow> byte list list \<Rightarrow> byte list list" where
  "chunk_rest r cs = (if r = [] then cs else r # cs)"

definition onRead_step :: "tcp_buffer \<Rightarrow> sock_in \<Rightarrow> read_step option" where
  "onRead_step b s = do {
     b \<leftarrow> (if writeAble b = 0 then do {
              require (int_ok (2 * int (length (m_buffer b))));
              resizeBuffer b (2 * int (length (m_buffer b))) }
           else Some b);
     let read_count = writeAble b;
     let write_index = writeIndex b;
     (case si_chunks s of
        [] \<Rightarrow> (case si_end s of
            At_Eof \<Rightarrow> Some (Read_Break True b s)
          | At_Again \<Rightarrow> Some (Read_Break False b s)
          | At_Error \<Rightarrow> Some (Read_On b s))
      | c # cs \<Rightarrow> do {
          let rt = min read_count (int (length c));
          require (0 \<le> read_count);
          if rt = 0 then Some (Read_Break True b s)
          else do {
            mem \<leftarrow> mem_write (m_buffer b) (int write_index) (take (nat rt) c);
            b \<leftarrow> moveWriteIndex (b\<lparr>m_buffer := mem\<rparr>) rt;
            let s = s\<lparr>si_chunks := chunk_rest (drop (nat rt) c) cs\<rparr>;
            if rt = read_count then Some (Read_On b s) else Some (Read_Break False b s) } }) }"

partial_function (option) onRead_loop ::
    "tcp_buffer \<Rightarrow> sock_in \<Rightarrow> (bool \<times> tcp_buffer \<times> sock_in) outcome option" where
  "onRead_loop b s =
     (case onRead_step b s of
        None \<Rightarrow> Some Undefined
      | Some (Read_Break c b' s') \<Rightarrow> Some (Returns (c, b', s'))
      | Some (Read_On b' s') \<Rightarrow> onRead_loop b' s')"

definition clear :: "(int \<Rightarrow> bool) \<Rightarrow> int \<Rightarrow> tcp_connection \<Rightarrow> event_loop \<Rightarrow> (tcp_connection \<times> event_loop) option" where
  "clear fd_ok tid c l =
     (if conn_state c = Closed then Some (c, l)
      else do {
        l \<leftarrow> update_event (conn_fd_event c) (cancle IN_EVENT) l;
        l \<leftarrow> update_event (conn_fd_event c) (cancle OUT_EVENT) l;
        l \<leftarrow> deleteEpollEvent fd_ok tid (Group_Event (conn_fd_event c)) l;
        Some (c\<lparr>conn_state := Closed\<rparr>, l) })"

section \<open>Writing\<close>

definition reply ::
    "(int \<Rightarrow> bool) \<Rightarrow> int \<Rightarrow> tiny_pb list \<Rightarrow> tcp_connection \<Rightarrow> event_loop \<Rightarrow> (tcp_connection \<times> event_loop) option" where
  "reply fd_ok tid replay_messages c l = do {
     (_, out) \<leftarrow> encode replay_messages (m_out_buffer c);
     let c = c\<lparr>m_out_buffer := out\<rparr>;
     l \<leftarrow> listenWrite fd_ok tid c l;
     Some (c, l) }"

text \<open>
  The loop of \<open>onWrite\<close> over the results of its \<open>write\<close> calls: whether everything was written, and the
  bytes handed to the socket.  Neither a partial write nor a complete one moves the read index.  \<open>None\<close>:
  the results do not end the loop, or the memory access is undefined.
\<close>

datatype sock_write = Wrote nat | Write_Again | Write_Error

fun onWrite_loop :: "tcp_buffer \<Rightarrow> sock_write list \<Rightarrow> (bool \<times> byte list) option" where
  "onWrite_loop b ws =
     (if readAble b = 0 then Some (True, [])
      else do {
        bytes \<leftarrow> mem_read (m_buffer b) (int (readIndex b)) (readAble b);
        (case ws of
           [] \<Rightarrow> None
         | w # ws' \<Rightarrow>
             (case w of
                Wrote n \<Rightarrow>
                  if readAble b \<le> int n then Some (True, bytes)
                  else do { (all, more) \<leftarrow> onWrite_loop b ws'; Some (all, take n bytes @ more) }
              | Write_Again \<Rightarrow> Some (False, [])
              | Write_Error \<Rightarrow> onWrite_loop b ws')) })"

declare onWrite_loop.simps [simp del]

text \<open>The result: the connection, the loop, the bytes sent, and the \<open>done\<close> callbacks called.\<close>

definition onWrite ::
    "(int \<Rightarrow> bool) \<Rightarrow> int \<Rightarrow> sock_write list \<Rightarrow> tcp_connection \<Rightarrow> event_loop
       \<Rightarrow> (tcp_connection \<times> event_loop \<times> byte list \<times> (nat \<times> tiny_pb) list) option" where
  "onWrite fd_ok tid ws c l =
     (if conn_state c \<noteq> Connected then Some (c, l, [], [])
      else do {
        (msgs, c) \<leftarrow> (if conn_type c = TcpConnectionByClient then do {
            (msgs, out) \<leftarrow> encode (map fst (m_write_dones c)) (m_out_buffer c);
            Some (msgs, c\<lparr>m_out_buffer := out\<rparr>) }
          else Some ([], c));
        (is_write_all, bytes) \<leftarrow> onWrite_loop (m_out_buffer c) ws;
        l \<leftarrow> (if is_write_all then do {
            l \<leftarrow> update_event (conn_fd_event c) (cancle OUT_EVENT) l;
            addEpollEvent fd_ok tid (Group_Event (conn_fd_event c)) l }
          else Some l);
        (if conn_type c = TcpConnectionByClient
         then Some (c\<lparr>m_write_dones := []\<rparr>, l, bytes, zip (map snd (m_write_dones c)) msgs)
         else Some (c, l, bytes, [])) })"

section \<open>The other operations\<close>

definition setState :: "tcp_state \<Rightarrow> tcp_connection \<Rightarrow> tcp_connection" where
  "setState state c = c\<lparr>conn_state := Connected\<rparr>"

definition getState :: "tcp_connection \<Rightarrow> tcp_state" where
  "getState c = conn_state c"

text \<open>The flag tells whether \<open>::shutdown(fd, SHUT_RDWR)\<close> is called.\<close>

definition conn_shutdown :: "tcp_connection \<Rightarrow> tcp_connection \<times> bool" where
  "conn_shutdown c =
     (if conn_state c = Closed \<or> conn_state c = NotConnected then (c, False)
      else (c\<lparr>conn_state := HalfClosing\<rparr>, True))"

definition setConnectionType :: "tcp_connection_type \<Rightarrow> tcp_connection \<Rightarrow> tcp_connection" where
  "setConnectionType type c = c\<lparr>conn_type := type\<rparr>"

definition pushSendMessage :: "tiny_pb \<Rightarrow> nat \<Rightarrow> tcp_connection \<Rightarrow> tcp_connection" where
  "pushSendMessage message done c = c\<lparr>m_write_dones := m_write_dones c @ [(message, done)]\<rparr>"

text \<open>\<open>std::map::insert\<close> keeps an entry that exists.\<close>

definition pushReadMessage :: "string \<Rightarrow> nat \<Rightarrow> tcp_connection \<Rightarrow> tcp_connection" where
  "pushReadMessage msg_id done c = c\<lparr>m_read_dones := map_insert msg_id done (m_read_dones c)\<rparr>"

definition getLocalAddr :: "tcp_connection \<Rightarrow> ip_net_addr option" where
  "getLocalAddr c = conn_local_addr c"

definition getPeerAddr :: "tcp_connection \<Rightarrow> ip_net_addr option" where
  "getPeerAddr c = conn_peer_addr c"

definition conn_getFd :: "tcp_connection \<Rightarrow> int" where
  "conn_getFd c = conn_fd c"

text \<open>The client half of \<open>excute\<close>: deliver decoded responses to the callbacks waiting for their ids.\<close>

fun deliver :: "tiny_pb list \<Rightarrow> (string \<times> nat) list \<Rightarrow> (nat \<times> tiny_pb) list \<times> (string \<times> nat) list" where
  "deliver [] rd = ([], rd)"
| "deliver (m # ms) rd =
     (case map_of rd (m_msg_id m) of
        None \<Rightarrow> deliver ms rd
      | Some done \<Rightarrow> let (calls, rd') = deliver ms (map_erase (m_msg_id m) rd) in ((done, m) # calls, rd'))"

section \<open>Lemmas: reading\<close>

lemma contents_overwrite_free:
  assumes "buf_inv b" "mem_write (m_buffer b) (int (m_write_index b)) bs = Some mem"
  shows "contents (b\<lparr>m_buffer := mem\<rparr>) = contents b" "length mem = length (m_buffer b)"
    "buf_inv (b\<lparr>m_buffer := mem\<rparr>)" "take (length bs) (drop (m_write_index b) mem) = bs"
proof -
  have i: "m_read_index b \<le> m_write_index b" "m_write_index b \<le> length (m_buffer b)"
    using assms(1) by (auto simp: buf_inv_def)
  have m: "mem = take (m_write_index b) (m_buffer b) @ bs @ drop (m_write_index b + length bs) (m_buffer b)"
    using assms(2) by (auto simp: mem_write_def split: if_splits)
  show l: "length mem = length (m_buffer b)" using mem_write_length [OF assms(2)] .
  then show "buf_inv (b\<lparr>m_buffer := mem\<rparr>)" using assms(1) by (simp add: buf_inv_def)
  show "take (length bs) (drop (m_write_index b) mem) = bs" using i by (simp add: m)
  have "take (m_write_index b) mem = take (m_write_index b) (m_buffer b)" using i by (simp add: m)
  then show "contents (b\<lparr>m_buffer := mem\<rparr>) = contents b"
    using i drop_take [of "m_read_index b" "m_write_index b" mem]
      drop_take [of "m_read_index b" "m_write_index b" "m_buffer b"] by (simp add: contents_def)
qed

lemma onRead_step_chunk:
  assumes "buf_inv b" "k = length (m_buffer b) - m_write_index b" "0 < k" "c \<noteq> []"
  shows "if length c < k then \<exists>b'. onRead_step b \<lparr>si_chunks = [c], si_end = e\<rparr> =
        Some (Read_Break False b' \<lparr>si_chunks = [], si_end = e\<rparr>) \<and> buf_inv b' \<and>
        contents b' = contents b @ c \<and> m_write_index b' < length (m_buffer b') \<and> length (m_buffer b') = length (m_buffer b) \<and>
        m_write_index b' \<le> m_write_index b + length c
      else \<exists>mem. onRead_step b \<lparr>si_chunks = [c], si_end = e\<rparr> =
        Some (Read_On (b\<lparr>m_buffer := mem\<rparr>) \<lparr>si_chunks = chunk_rest (drop k c) [], si_end = e\<rparr>) \<and>
        buf_inv (b\<lparr>m_buffer := mem\<rparr>) \<and> contents (b\<lparr>m_buffer := mem\<rparr>) = contents b \<and> length mem = length (m_buffer b)"
proof -
  have w: "writeAble b = int k" "writeIndex b = m_write_index b" "m_write_index b + k = length (m_buffer b)"
    using assms(1-3) by (auto simp: writeAble_def writeIndex_def buf_inv_def)
  define n where "n = min k (length c)"
  have n: "min (int k) (int (length c)) = int n" "0 < n" "n \<le> k" "length (take n c) = n"
    using assms(3,4) by (auto simp: n_def)
  have "m_write_index b + length (take n c) \<le> length (m_buffer b)" using w(3) n(3) by simp
  then obtain mem where mem: "mem_write (m_buffer b) (int (m_write_index b)) (take n c) = Some mem"
    using mem_write_nat by blast
  note o = contents_overwrite_free [OF assms(1) mem]
  have st: "onRead_step b \<lparr>si_chunks = [c], si_end = e\<rparr> = do {
      b' \<leftarrow> moveWriteIndex (b\<lparr>m_buffer := mem\<rparr>) (int n);
      if n = k then Some (Read_On b' \<lparr>si_chunks = chunk_rest (drop n c) [], si_end = e\<rparr>)
      else Some (Read_Break False b' \<lparr>si_chunks = chunk_rest (drop n c) [], si_end = e\<rparr>) }"
    using mem n w assms(3) by (simp add: onRead_step_def Let_def)
  show ?thesis
  proof (cases "length c < k")
    case True
    then have "m_write_index (b\<lparr>m_buffer := mem\<rparr>) + length c < length (m_buffer (b\<lparr>m_buffer := mem\<rparr>))"
      using w(3) o(2) by simp
    from moveWriteIndex_append [OF o(3) this] o True w(3) st show ?thesis
      by (auto simp: chunk_rest_def n_def min_def)
  next
    case False
    have "moveWriteIndex (b\<lparr>m_buffer := mem\<rparr>) (int k) = Some (b\<lparr>m_buffer := mem\<rparr>)"
      by (rule moveWriteIndex_refused [OF o(3)]) (use w(3) o(2) in simp)
    then show ?thesis using False st o by (auto simp: n_def min_def)
  qed
qed

definition free_bytes :: "tcp_buffer \<Rightarrow> nat" where
  "free_bytes b = length (m_buffer b) - m_write_index b"

text \<open>A piece that does not fill the buffer is appended in one pass.\<close>

lemma onRead_loop_fits:
  assumes "buf_inv b" "length c < free_bytes b" "c \<noteq> []"
  shows "\<exists>b'. onRead_loop b \<lparr>si_chunks = [c], si_end = At_Again\<rparr> =
      Some (Returns (False, b', \<lparr>si_chunks = [], si_end = At_Again\<rparr>)) \<and> buf_inv b' \<and> contents b' = contents b @ c \<and>
    m_write_index b' < length (m_buffer b') \<and> length (m_buffer b') = length (m_buffer b) \<and> free_bytes b \<le> free_bytes b' + length c"
proof -
  have k: "0 < length (m_buffer b) - m_write_index b" using assms(2) by (simp add: free_bytes_def)
  obtain b' where "onRead_step b \<lparr>si_chunks = [c], si_end = At_Again\<rparr> =
      Some (Read_Break False b' \<lparr>si_chunks = [], si_end = At_Again\<rparr>)" "buf_inv b'" "contents b' = contents b @ c"
      "m_write_index b' < length (m_buffer b')" "length (m_buffer b') = length (m_buffer b)" "m_write_index b' \<le> m_write_index b + length c"
    using onRead_step_chunk [OF assms(1) refl k assms(3), of At_Again] assms(2) by (auto simp: free_bytes_def)
  then show ?thesis by (auto simp: onRead_loop.simps [of b] free_bytes_def)
qed

lemma onRead_loop_chunk:
  assumes "buf_inv b" "k = length (m_buffer b) - m_write_index b" "0 < k" "c \<noteq> []"
  shows "\<exists>b'. onRead_loop b \<lparr>si_chunks = [c], si_end = At_Again\<rparr> =
      Some (Returns (False, b', \<lparr>si_chunks = [], si_end = At_Again\<rparr>)) \<and> buf_inv b' \<and>
    contents b' = contents b @ drop (k * (length c div k)) c \<and>
    m_write_index b' < length (m_buffer b') \<and> length (m_buffer b') = length (m_buffer b)"
  using assms
proof (induction "length c" arbitrary: c b rule: less_induct)
  case less
  note st = onRead_step_chunk [OF less.prems, of At_Again]
  show ?case
  proof (cases "length c < k")
    case True
    then show ?thesis using st by (auto simp: onRead_loop.simps)
  next
    case False
    then obtain mem where m: "onRead_step b \<lparr>si_chunks = [c], si_end = At_Again\<rparr> =
        Some (Read_On (b\<lparr>m_buffer := mem\<rparr>) \<lparr>si_chunks = chunk_rest (drop k c) [], si_end = At_Again\<rparr>)"
        "buf_inv (b\<lparr>m_buffer := mem\<rparr>)" "contents (b\<lparr>m_buffer := mem\<rparr>) = contents b" "length mem = length (m_buffer b)"
      using st by auto
    let ?b = "b\<lparr>m_buffer := mem\<rparr>"
    have u: "onRead_loop b \<lparr>si_chunks = [c], si_end = At_Again\<rparr> =
        onRead_loop ?b \<lparr>si_chunks = chunk_rest (drop k c) [], si_end = At_Again\<rparr>"
      using m(1) by (simp add: onRead_loop.simps [of b])
    have d: "length c div k = Suc (length (drop k c) div k)"
      using False less.prems(3) by (simp add: le_div_geq)
    show ?thesis
    proof (cases "drop k c = []")
      case True
      have "writeAble ?b \<noteq> 0" using less.prems(2,3) m(4) by (simp add: writeAble_def)
      then have "onRead_step ?b \<lparr>si_chunks = [], si_end = At_Again\<rparr> =
          Some (Read_Break False ?b \<lparr>si_chunks = [], si_end = At_Again\<rparr>)"
        by (simp add: onRead_step_def Let_def)
      then have "onRead_loop ?b \<lparr>si_chunks = [], si_end = At_Again\<rparr> =
          Some (Returns (False, ?b, \<lparr>si_chunks = [], si_end = At_Again\<rparr>))"
        by (simp add: onRead_loop.simps)
      moreover have "length c = k" using True False by simp
      ultimately show ?thesis using u m True less.prems(2,3) by (simp add: chunk_rest_def)
    next
      case ne: False
      have "\<exists>b'. onRead_loop ?b \<lparr>si_chunks = [drop k c], si_end = At_Again\<rparr> =
          Some (Returns (False, b', \<lparr>si_chunks = [], si_end = At_Again\<rparr>)) \<and> buf_inv b' \<and>
        contents b' = contents ?b @ drop (k * (length (drop k c) div k)) (drop k c) \<and>
        m_write_index b' < length (m_buffer b') \<and> length (m_buffer b') = length (m_buffer ?b)"
        by (rule less.hyps) (use less.prems m ne False in auto)
      then show ?thesis using u m ne d by (auto simp: chunk_rest_def add.commute)
    qed
  qed
qed

section \<open>Lemmas: writing and events\<close>

lemma onWrite_loop_all:
  assumes "buf_inv b" "contents b \<noteq> []" "length (contents b) \<le> n"
  shows "onWrite_loop b (Wrote n # ws) = Some (True, contents b)"
proof -
  have r: "readAble b = int (length (contents b))" using buf_inv_readAble [OF assms(1)] .
  then have "mem_read (m_buffer b) (int (readIndex b)) (readAble b) = Some (contents b)"
    using mem_read_contents [OF assms(1)] by (simp add: readIndex_def)
  then show ?thesis using r assms by (simp add: onWrite_loop.simps)
qed

lemma onWrite_loop_partial:
  assumes "buf_inv b" "n < length (contents b)"
  shows "onWrite_loop b (Wrote n # ws) = do { (all, more) \<leftarrow> onWrite_loop b ws; Some (all, take n (contents b) @ more) }"
proof -
  have r: "readAble b = int (length (contents b))" using buf_inv_readAble [OF assms(1)] .
  then have "mem_read (m_buffer b) (int (readIndex b)) (readAble b) = Some (contents b)"
    using mem_read_contents [OF assms(1)] by (simp add: readIndex_def)
  moreover have "readAble b \<noteq> 0" using r assms(2) by linarith
  ultimately show ?thesis using r assms(2) by (simp add: onWrite_loop.simps [of b "Wrote n # ws"])
qed

lemma update_event_ok:
  assumes "ev_at l (Group_Event i) = Some e"
  shows "\<exists>l'. update_event i f l = Some l' \<and> ev_at l' (Group_Event i) = Some (f e) \<and> el_kernel l' = el_kernel l \<and>
    m_listen_fds l' = m_listen_fds l \<and> el_thread_id l' = el_thread_id l \<and> m_pending_tasks l' = m_pending_tasks l"
  using assms by (auto simp: update_event_def ev_at_def split: if_splits)

lemma addEpollEvent_ok:
  assumes "ev_at l p = Some e"
  shows "\<exists>l'. addEpollEvent fd_ok tid p l = Some l' \<and> ev_at l' = ev_at l"
  using assms by (auto simp: addEpollEvent_def add_to_epoll_def Let_def split: prod.split)

lemma listenWrite_ok:
  assumes "ev_at l (Group_Event (conn_fd_event c)) \<noteq> None"
  shows "\<exists>l'. listenWrite fd_ok tid c l = Some l' \<and> ev_at l' (Group_Event (conn_fd_event c)) \<noteq> None"
proof -
  let ?p = "Group_Event (conn_fd_event c)"
  obtain e where e: "ev_at l ?p = Some e" using assms by blast
  obtain l1 where l1: "update_event (conn_fd_event c) (fd_listen ?p OUT_EVENT (Some (On_Write (conn_fd_event c))) None) l = Some l1"
      "ev_at l1 ?p = Some (fd_listen ?p OUT_EVENT (Some (On_Write (conn_fd_event c))) None e)"
    using update_event_ok [OF e] by blast
  then show ?thesis using addEpollEvent_ok [OF l1(2), of fd_ok tid] by (auto simp: listenWrite_def)
qed

text \<open>A server connection whose event is in the table.\<close>

definition conn_ready :: "tcp_connection \<Rightarrow> event_loop \<Rightarrow> bool" where
  "conn_ready c l \<longleftrightarrow> conn_state c = Connected \<and> conn_type c = TcpConnectionByServer \<and>
     buf_inv (m_out_buffer c) \<and> ev_at l (Group_Event (conn_fd_event c)) \<noteq> None"

lemma encode_append:
  "encode (ms @ ms') b = do { (xs, b1) \<leftarrow> encode ms b; (ys, b2) \<leftarrow> encode ms' b1; Some (xs @ ys, b2) }"
  by (induction ms b rule: encode.induct) (auto split: Option.bind_splits)

lemma reply_ready:
  assumes "conn_ready c l" "encode ms (m_out_buffer c) = Some (ms', out)" "buf_inv out"
  shows "\<exists>l'. reply fd_ok tid ms c l = Some (c\<lparr>m_out_buffer := out\<rparr>, l') \<and> conn_ready (c\<lparr>m_out_buffer := out\<rparr>) l'"
  using assms listenWrite_ok [of l "c\<lparr>m_out_buffer := out\<rparr>" fd_ok tid]
  by (auto simp: reply_def conn_ready_def)

lemma onWrite_ready:
  assumes "conn_ready c l" "contents (m_out_buffer c) \<noteq> []" "length (contents (m_out_buffer c)) \<le> n"
  shows "\<exists>l'. onWrite fd_ok tid [Wrote n] c l = Some (c, l', contents (m_out_buffer c), []) \<and> conn_ready c l'"
proof -
  let ?p = "Group_Event (conn_fd_event c)"
  obtain e where e: "ev_at l ?p = Some e" using assms(1) by (auto simp: conn_ready_def)
  obtain l1 where l1: "update_event (conn_fd_event c) (cancle OUT_EVENT) l = Some l1"
      "ev_at l1 ?p = Some (cancle OUT_EVENT e)" using update_event_ok [OF e] by blast
  obtain l2 where "addEpollEvent fd_ok tid ?p l1 = Some l2" "ev_at l2 = ev_at l1"
    using addEpollEvent_ok [OF l1(2)] by blast
  moreover have "onWrite_loop (m_out_buffer c) [Wrote n] = Some (True, contents (m_out_buffer c))"
    using onWrite_loop_all assms by (simp add: conn_ready_def)
  ultimately show ?thesis using l1 assms(1) by (simp add: onWrite_def conn_ready_def)
qed

section \<open>Properties\<close>

text \<open>
  C20. Reading when the peer's bytes arrive in one piece: with \<open>k\<close> free bytes in the input buffer a
  piece shorter than \<open>k\<close> is appended whole; of a piece of \<open>n >= k\<close> bytes only the last
  \<open>n mod k\<close> are kept, because a read that fills the buffer exactly is not taken over and the next one
  overwrites it.
\<close>

theorem onRead_keeps_remainder:
  assumes "buf_inv b" "k = length (m_buffer b) - m_write_index b" "0 < k" "c \<noteq> []"
  shows "\<exists>b'. onRead_loop b \<lparr>si_chunks = [c], si_end = At_Again\<rparr> =
      Some (Returns (False, b', \<lparr>si_chunks = [], si_end = At_Again\<rparr>)) \<and> buf_inv b' \<and>
    (if length c < k then contents b' = contents b @ c
     else contents b' = contents b @ drop (length c - length c mod k) c)"
proof -
  have "k * (length c div k) = length c - length c mod k" by (simp add: minus_mod_eq_mult_div)
  moreover have "length c < k \<Longrightarrow> length c - length c mod k = 0" by simp
  ultimately show ?thesis using onRead_loop_chunk [OF assms] by (cases "length c < k") auto
qed

theorem onRead_keeps_remainder_witness:
  "\<exists>b'. onRead_loop (demo_buffer ''xy'') \<lparr>si_chunks = [''0123456789''], si_end = At_Again\<rparr> =
      Some (Returns (False, b', \<lparr>si_chunks = [], si_end = At_Again\<rparr>)) \<and> buf_inv b' \<and> contents b' = ''xy89''"
proof -
  have "contents (demo_buffer ''xy'') = ''xy''" by (simp add: contents_def demo_buffer_def)
  moreover have "length (m_buffer (demo_buffer ''xy'')) - m_write_index (demo_buffer ''xy'') = 8"
    by (simp add: demo_buffer_def)
  ultimately show ?thesis
    using onRead_keeps_remainder [OF demo_buffer_inv, of "''xy''" 8 "''0123456789''"] by simp
qed

text \<open>
  A read error other than \<open>EAGAIN\<close> (a reset connection, say) does not end the loop of \<open>onRead\<close>: the
  IO thread spins forever.
\<close>

theorem onRead_spins_on_error:
  assumes "writeAble b \<noteq> 0"
  shows "onRead_loop b \<lparr>si_chunks = [], si_end = At_Error\<rparr> = None"
proof (rule ccontr)
  let ?s = "\<lparr>si_chunks = [], si_end = At_Error\<rparr>"
  have st: "onRead_step b ?s = Some (Read_On b ?s)" using assms by (simp add: onRead_step_def Let_def)
  assume "onRead_loop b ?s \<noteq> None"
  then obtain y where y: "onRead_loop b ?s = Some y" by blast
  have "\<not> (b = b \<and> ?s = ?s)"
  proof (rule onRead_loop.raw_induct [where P = "\<lambda>b1 s1 y. \<not> (b1 = b \<and> s1 = ?s)", OF _ y])
    fix d :: "tcp_buffer \<Rightarrow> sock_in \<Rightarrow> (bool \<times> tcp_buffer \<times> sock_in) outcome option"
    fix b1 s1 z
    assume IH: "\<And>b1 s1 z. d b1 s1 = Some z \<Longrightarrow> \<not> (b1 = b \<and> s1 = ?s)"
      and body: "(case onRead_step b1 s1 of None \<Rightarrow> Some Undefined
        | Some (Read_Break c b' s') \<Rightarrow> Some (Returns (c, b', s'))
        | Some (Read_On b' s') \<Rightarrow> d b' s') = Some z"
    show "\<not> (b1 = b \<and> s1 = ?s)"
    proof
      assume "b1 = b \<and> s1 = ?s"
      then show False using body st IH by auto
    qed
  qed
  then show False by simp
qed

theorem onRead_spins_on_error_witness:
  "onRead_loop (demo_buffer ''xy'') \<lparr>si_chunks = [], si_end = At_Error\<rparr> = None"
  by (rule onRead_spins_on_error) (simp add: writeAble_def demo_buffer_def)

text \<open>
  C21. Replying on a server connection with an empty output buffer makes the next \<open>onWrite\<close> send exactly
  the encoded responses; but the sent bytes stay in the buffer, so a later reply on the same connection
  sends all earlier responses again in front of its own.
\<close>

theorem reply_sends_and_resends:
  assumes "conn_ready c l" "contents (m_out_buffer c) = []" "\<forall>m \<in> set (ms @ ms'). wire_ok m" "ms \<noteq> []"
    and "buf_room (m_out_buffer c) (length (concat (map frame_bytes (ms @ ms'))))"
    and "length (concat (map frame_bytes (ms @ ms'))) \<le> n"
  shows "\<exists>c1 l1 l2 c3 l3 l4. reply fd_ok tid ms c l = Some (c1, l1) \<and>
    onWrite fd_ok tid [Wrote n] c1 l1 = Some (c1, l2, concat (map frame_bytes ms), []) \<and>
    reply fd_ok tid ms' c1 l2 = Some (c3, l3) \<and>
    onWrite fd_ok tid [Wrote n] c3 l3 = Some (c3, l4, concat (map frame_bytes ms) @ concat (map frame_bytes ms'), [])"
proof -
  let ?f = "\<lambda>ms. concat (map frame_bytes ms)"
  have i: "buf_inv (m_out_buffer c)" using assms(1) by (simp add: conn_ready_def)
  have r: "buf_room (m_out_buffer c) (length (?f ms))" using assms(5) by (simp add: buf_room_def)
  obtain o1 where o1: "encode ms (m_out_buffer c) = Some (map sent ms, o1)" "buf_inv o1" "contents o1 = ?f ms"
    using encode_frames [OF _ i r] assms(2,3) by auto
  obtain o2 where o2: "encode (ms @ ms') (m_out_buffer c) = Some (map sent (ms @ ms'), o2)" "buf_inv o2"
      "contents o2 = ?f (ms @ ms')"
    using encode_frames [OF assms(3) i assms(5)] assms(2) by auto
  then obtain ys where ys: "encode ms' o1 = Some (ys, o2)"
    using o1(1) by (auto simp: encode_append split: Option.bind_splits)
  have ne: "?f ms \<noteq> []" using assms(4) by (cases ms) auto
  obtain l1 where l1: "reply fd_ok tid ms c l = Some (c\<lparr>m_out_buffer := o1\<rparr>, l1)" "conn_ready (c\<lparr>m_out_buffer := o1\<rparr>) l1"
    using reply_ready [OF assms(1) o1(1,2)] by blast
  obtain l2 where l2: "onWrite fd_ok tid [Wrote n] (c\<lparr>m_out_buffer := o1\<rparr>) l1 = Some (c\<lparr>m_out_buffer := o1\<rparr>, l2, ?f ms, [])"
      "conn_ready (c\<lparr>m_out_buffer := o1\<rparr>) l2"
    using onWrite_ready [OF l1(2), of n fd_ok tid] o1(3) ne assms(6) by auto
  obtain l3 where l3: "reply fd_ok tid ms' (c\<lparr>m_out_buffer := o1\<rparr>) l2 = Some (c\<lparr>m_out_buffer := o2\<rparr>, l3)"
      "conn_ready (c\<lparr>m_out_buffer := o2\<rparr>) l3"
    using reply_ready [OF l2(2), of ms' ys o2] ys o2(2) by auto
  obtain l4 where "onWrite fd_ok tid [Wrote n] (c\<lparr>m_out_buffer := o2\<rparr>) l3 = Some (c\<lparr>m_out_buffer := o2\<rparr>, l4, ?f ms @ ?f ms', [])"
    using onWrite_ready [OF l3(2), of n fd_ok tid] o2(3) ne assms(6) by auto
  then show ?thesis using l1(1) l2(1) l3(1) by blast
qed

definition demo_conn :: tcp_connection where
  "demo_conn = \<lparr>conn_local_addr = None, conn_peer_addr = None, m_in_buffer = demo_buffer [],
     m_out_buffer = demo_buffer [], conn_fd_event = 9, conn_state = Connected, conn_fd = 9, conn_fd_flags = 2048,
     conn_type = TcpConnectionByServer, m_write_dones = [], m_read_dones = []\<rparr>"

lemma demo_conn_ready: "conn_ready demo_conn demo_loop"
  using demo_buffer_inv [of "[]"] by (simp add: conn_ready_def demo_conn_def demo_loop_eval)

theorem reply_sends_and_resends_witness:
  "\<exists>c1 l1 l2 c3 l3 l4. reply (\<lambda>fd. True) 1 [demo_msg] demo_conn demo_loop = Some (c1, l1) \<and>
    onWrite (\<lambda>fd. True) 1 [Wrote 90] c1 l1 = Some (c1, l2, concat (map frame_bytes [demo_msg]), []) \<and>
    reply (\<lambda>fd. True) 1 [demo_msg] c1 l2 = Some (c3, l3) \<and>
    onWrite (\<lambda>fd. True) 1 [Wrote 90] c3 l3 =
      Some (c3, l4, concat (map frame_bytes [demo_msg]) @ concat (map frame_bytes [demo_msg]), [])"
  by (rule reply_sends_and_resends [OF demo_conn_ready])
     (simp_all add: demo_msg_wire_ok frame_size_demo_msg demo_conn_def buf_room_def demo_buffer_def contents_def)

text \<open>
  A partial write is not followed by the rest: the loop writes the whole buffer again from its
  start, so the peer receives the accepted prefix twice.
\<close>

theorem partial_write_repeats:
  assumes "buf_inv b" "k < length (contents b)" "length (contents b) \<le> n"
  shows "onWrite_loop b [Wrote k, Wrote n] = Some (True, take k (contents b) @ contents b)"
proof -
  have "contents b \<noteq> []" using assms(2) by auto
  then show ?thesis using onWrite_loop_partial [OF assms(1,2)] onWrite_loop_all [OF assms(1) _ assms(3)] by simp
qed

theorem partial_write_repeats_witness:
  "onWrite_loop (demo_buffer ''hello'') [Wrote 2, Wrote 5] = Some (True, ''hehello'')"
proof -
  have c: "contents (demo_buffer ''hello'') = ''hello''" by (simp add: contents_def demo_buffer_def)
  have "buf_inv (demo_buffer ''hello'')" by (rule demo_buffer_inv) simp
  from partial_write_repeats [OF this, of 2 5] c show ?thesis by simp
qed

text \<open>
  \<open>clear\<close> on a connection of the loop's thread removes its descriptor from the kernel's interest list
  and marks it closed, and doing it again changes nothing; the other descriptors keep
  their registration.
\<close>

theorem clear_unregisters:
  assumes "kernel_agrees fd_ok l" "isInLoopThread tid l" "ev_at l (Group_Event (conn_fd_event c)) = Some e"
    "conn_state c \<noteq> Closed"
  shows "\<exists>c' l'. clear fd_ok tid c l = Some (c', l') \<and> conn_state c' = Closed \<and> kernel_agrees fd_ok l' \<and>
    el_kernel l' = (el_kernel l)(getFd e := None) \<and> clear fd_ok tid c' l' = Some (c', l')"
proof -
  let ?p = "Group_Event (conn_fd_event c)"
  obtain l1 where l1: "update_event (conn_fd_event c) (cancle IN_EVENT) l = Some l1"
      "ev_at l1 ?p = Some (cancle IN_EVENT e)" "el_kernel l1 = el_kernel l" "m_listen_fds l1 = m_listen_fds l"
      "el_thread_id l1 = el_thread_id l"
    using update_event_ok [OF assms(3), of "cancle IN_EVENT"] by blast
  obtain l2 where l2: "update_event (conn_fd_event c) (cancle OUT_EVENT) l1 = Some l2"
      "ev_at l2 ?p = Some (cancle OUT_EVENT (cancle IN_EVENT e))" "el_kernel l2 = el_kernel l"
      "m_listen_fds l2 = m_listen_fds l" "el_thread_id l2 = el_thread_id l"
    using update_event_ok [OF l1(2), of "cancle OUT_EVENT"] l1(3-5) by auto
  have g: "kernel_agrees fd_ok l2 \<and> isInLoopThread tid l2" "getFd (cancle OUT_EVENT (cancle IN_EVENT e)) = getFd e"
    using assms(1,2) l2(3-5) by (simp_all add: kernel_agrees_def isInLoopThread_def getFd_def)
  obtain l3 where "deleteEpollEvent fd_ok tid ?p l2 = Some l3" "kernel_agrees fd_ok l3"
      "el_kernel l3 = (el_kernel l2)(getFd e := None)"
    using elr.unwatch [OF g(1), of ?p "getFd e" "getEpollEvent (cancle OUT_EVENT (cancle IN_EVENT e))"] l2(2) g(2)
    by auto
  then show ?thesis using l1(1) l2(1,3) assms(4) by (simp add: clear_def)
qed

theorem clear_unregisters_witness:
  "\<exists>c' l'. clear (\<lambda>fd. True) 1 demo_conn demo_loop = Some (c', l') \<and> conn_state c' = Closed \<and> kernel_agrees (\<lambda>fd. True) l' \<and>
    el_kernel l' = (el_kernel demo_loop)(getFd (Fd_Event_new 9) := None) \<and> clear (\<lambda>fd. True) 1 c' l' = Some (c', l')"
  by (rule clear_unregisters) (auto simp: kernel_agrees_def demo_loop_eval isInLoopThread_def demo_conn_def)

end
