(* ===== verification/Rpc_Base.thy ===== *)
theory Rpc_Base
  imports Net_Addr
begin

text \<open>
  The small objects of the RPC layer: the error codes (\<^verbatim>\<open>common/err_code.h\<close>), exceptions
  (\<^verbatim>\<open>common/exception.h\<close>), \<open>RunTime\<close> (\<^verbatim>\<open>common/run_time.{h,cc}\<close>), \<open>RpcController\<close>
  (\<^verbatim>\<open>net/rpc/rpc_controller.{h,cc}\<close>), \<open>RpcClosure\<close> (\<^verbatim>\<open>net/rpc/rpc_closure.h\<close>) and \<open>RpcInterface\<close>
  (\<^verbatim>\<open>net/rpc/rpc_interface.{h,cc}\<close>).
\<close>

section \<open>Error codes\<close>

text \<open>\<open>SYS_ERROR_PREFIX(xx)\<close> pastes \<open>1000\<close> before the four digits of its argument.\<close>

definition SYS_ERROR_PREFIX :: "int \<Rightarrow> int" where
  "SYS_ERROR_PREFIX xx = 1000 * 10000 + xx"

definition ERROR_PEER_CLOSED :: int where "ERROR_PEER_CLOSED = SYS_ERROR_PREFIX 0"
definition ERROR_FAILED_CONNECT :: int where "ERROR_FAILED_CONNECT = SYS_ERROR_PREFIX 1"
definition ERROR_FAILED_GET_REPLY :: int where "ERROR_FAILED_GET_REPLY = SYS_ERROR_PREFIX 2"
definition ERROR_FAILED_DESERIALIZE :: int where "ERROR_FAILED_DESERIALIZE = SYS_ERROR_PREFIX 3"
definition ERROR_FAILED_SERIALIZE :: int where "ERROR_FAILED_SERIALIZE = SYS_ERROR_PREFIX 4"
definition ERROR_FAILED_ENCODE :: int where "ERROR_FAILED_ENCODE = SYS_ERROR_PREFIX 5"
definition ERROR_FAILED_DECODE :: int where "ERROR_FAILED_DECODE = SYS_ERROR_PREFIX 6"
definition ERROR_RPC_CALL_TIMEOUT :: int where "ERROR_RPC_CALL_TIMEOUT = SYS_ERROR_PREFIX 7"
definition ERROR_SERVICE_NOT_FOUND :: int where "ERROR_SERVICE_NOT_FOUND = SYS_ERROR_PREFIX 8"
definition ERROR_METHOD_NOT_FOUND :: int where "ERROR_METHOD_NOT_FOUND = SYS_ERROR_PREFIX 9"
definition ERROR_PARSE_SERVICE_NAME :: int where "ERROR_PARSE_SERVICE_NAME = SYS_ERROR_PREFIX 10"
definition ERROR_RPC_CHANNEL_INIT :: int where "ERROR_RPC_CHANNEL_INIT = SYS_ERROR_PREFIX 11"
definition ERROR_RPC_PEER_ADDR :: int where "ERROR_RPC_PEER_ADDR = SYS_ERROR_PREFIX 12"

lemmas err_codes =
  SYS_ERROR_PREFIX_def ERROR_PEER_CLOSED_def ERROR_FAILED_CONNECT_def ERROR_FAILED_GET_REPLY_def
  ERROR_FAILED_DESERIALIZE_def ERROR_FAILED_SERIALIZE_def ERROR_FAILED_ENCODE_def ERROR_FAILED_DECODE_def
  ERROR_RPC_CALL_TIMEOUT_def ERROR_SERVICE_NOT_FOUND_def ERROR_METHOD_NOT_FOUND_def
  ERROR_PARSE_SERVICE_NAME_def ERROR_RPC_CHANNEL_INIT_def ERROR_RPC_PEER_ADDR_def

section \<open>RpcController\<close>

record rpc_controller =
  ctl_error_code :: int
  ctl_error_info :: string
  ctl_msg_id :: string
  ctl_is_failed :: bool
  ctl_is_cancled :: bool
  ctl_is_finished :: bool
  ctl_local_addr :: "ip_net_addr option"
  ctl_peer_addr :: "ip_net_addr option"
  ctl_timeout :: int

definition RpcController_new :: rpc_controller where
  "RpcController_new = \<lparr>ctl_error_code = 0, ctl_error_info = [], ctl_msg_id = [], ctl_is_failed = False,
     ctl_is_cancled = False, ctl_is_finished = False, ctl_local_addr = None, ctl_peer_addr = None,
     ctl_timeout = 1000\<rparr>"

definition ctl_Reset :: "rpc_controller \<Rightarrow> rpc_controller" where
  "ctl_Reset c = c\<lparr>ctl_error_code := 0, ctl_error_info := [], ctl_msg_id := [], ctl_is_failed := False,
     ctl_is_cancled := False, ctl_is_finished := False, ctl_local_addr := None, ctl_peer_addr := None,
     ctl_timeout := 1000\<rparr>"

definition Failed :: "rpc_controller \<Rightarrow> bool" where "Failed c = ctl_is_failed c"
definition ErrorText :: "rpc_controller \<Rightarrow> string" where "ErrorText c = ctl_error_info c"

definition SetFinished :: "bool \<Rightarrow> rpc_controller \<Rightarrow> rpc_controller" where
  "SetFinished v c = c\<lparr>ctl_is_finished := v\<rparr>"

definition StartCancel :: "rpc_controller \<Rightarrow> rpc_controller" where
  "StartCancel c = SetFinished True (c\<lparr>ctl_is_cancled := True, ctl_is_failed := True\<rparr>)"

definition SetFailed :: "string \<Rightarrow> rpc_controller \<Rightarrow> rpc_controller" where
  "SetFailed reason c = c\<lparr>ctl_error_info := reason, ctl_is_failed := True\<rparr>"

definition IsCanceled :: "rpc_controller \<Rightarrow> bool" where "IsCanceled c = ctl_is_cancled c"

definition NotifyOnCancel :: "'a \<Rightarrow> rpc_controller \<Rightarrow> rpc_controller" where
  "NotifyOnCancel callback c = c"

definition SetError :: "int \<Rightarrow> string \<Rightarrow> rpc_controller \<Rightarrow> rpc_controller" where
  "SetError error_code error_info c =
     c\<lparr>ctl_error_code := error_code, ctl_error_info := error_info, ctl_is_failed := True\<rparr>"

definition GetErrorCode :: "rpc_controller \<Rightarrow> int" where "GetErrorCode c = ctl_error_code c"
definition GetErrorInfo :: "rpc_controller \<Rightarrow> string" where "GetErrorInfo c = ctl_error_info c"

definition SetMsgId :: "string \<Rightarrow> rpc_controller \<Rightarrow> rpc_controller" where
  "SetMsgId msg_id c = c\<lparr>ctl_msg_id := msg_id\<rparr>"

definition GetMsgId :: "rpc_controller \<Rightarrow> string" where "GetMsgId c = ctl_msg_id c"

definition SetLocalAddr :: "ip_net_addr option \<Rightarrow> rpc_controller \<Rightarrow> rpc_controller" where
  "SetLocalAddr addr c = c\<lparr>ctl_local_addr := addr\<rparr>"

definition SetPeerAddr :: "ip_net_addr option \<Rightarrow> rpc_controller \<Rightarrow> rpc_controller" where
  "SetPeerAddr addr c = c\<lparr>ctl_peer_addr := addr\<rparr>"

definition GetLocalAddr :: "rpc_controller \<Rightarrow> ip_net_addr option" where "GetLocalAddr c = ctl_local_addr c"
definition GetPeerAddr :: "rpc_controller \<Rightarrow> ip_net_addr option" where "GetPeerAddr c = ctl_peer_addr c"

definition SetTimeout :: "int \<Rightarrow> rpc_controller \<Rightarrow> rpc_controller" where
  "SetTimeout timeout c = c\<lparr>ctl_timeout := timeout\<rparr>"

definition GetTimeout :: "rpc_controller \<Rightarrow> int" where "GetTimeout c = ctl_timeout c"
definition Finished :: "rpc_controller \<Rightarrow> bool" where "Finished c = ctl_is_finished c"

lemmas controller_defs =
  Failed_def ErrorText_def SetFinished_def StartCancel_def SetFailed_def IsCanceled_def NotifyOnCancel_def
  SetError_def GetErrorCode_def GetErrorInfo_def SetMsgId_def GetMsgId_def SetLocalAddr_def SetPeerAddr_def
  GetLocalAddr_def GetPeerAddr_def SetTimeout_def GetTimeout_def Finished_def

section \<open>RunTime, exceptions, RpcClosure\<close>

record run_time =
  rt_msgid :: string
  rt_method_name :: string
  rt_rpc_interface :: "nat option"

definition RunTime_new :: run_time where
  "RunTime_new = \<lparr>rt_msgid = [], rt_method_name = [], rt_rpc_interface = None\<rparr>"

definition GetRunTime :: "run_time option \<Rightarrow> run_time" where
  "GetRunTime t = (case t of Some r \<Rightarrow> r | None \<Rightarrow> RunTime_new)"

definition getRpcInterface :: "run_time \<Rightarrow> nat option" where
  "getRpcInterface r = rt_rpc_interface r"

record talon_exception =
  exc_error_code :: int
  exc_error_info :: string

text \<open>How a user callback ends.\<close>

datatype cb_end = Cb_Returns | Cb_TalonException talon_exception | Cb_StdException | Cb_OtherException

record rpc_closure =
  cl_rpc_interface :: "nat option"
  cl_cb :: "cb_end option"

text \<open>
  \<open>Run\<close>: the closure and run time afterwards, and the \<open>setError\<close> call made on the interface, if
  any.  \<open>cl_cb\<close> is \<open>None\<close> for a null callback, otherwise it tells how the callback ends.
\<close>

definition closure_Run ::
    "rpc_closure \<Rightarrow> run_time \<Rightarrow> rpc_closure \<times> run_time \<times> (nat \<times> int \<times> string) option" where
  "closure_Run cl rt =
     (let rt1 = (if cl_rpc_interface cl = None then rt\<lparr>rt_rpc_interface := cl_rpc_interface cl\<rparr> else rt);
          done = cl\<lparr>cl_rpc_interface := None\<rparr>;
          err = (\<lambda>code info. map_option (\<lambda>i. (i, code, info)) (cl_rpc_interface cl))
      in case cl_cb cl of
           None \<Rightarrow> (done, rt1, None)
         | Some Cb_Returns \<Rightarrow> (done, rt1, None)
         | Some (Cb_TalonException e) \<Rightarrow> (done, rt1, err (exc_error_code e) (exc_error_info e))
         | Some Cb_StdException \<Rightarrow> (done, rt1, err (-1) ''unkonwn std::exception'')
         | Some Cb_OtherException \<Rightarrow> (done, rt1, err (-1) ''unkonwn exception''))"

section \<open>RpcInterface\<close>

text \<open>The pointers it owns, by object number.\<close>

record rpc_interface =
  ri_req_base :: "nat option"
  ri_rsp_base :: "nat option"
  ri_done :: "nat option"
  ri_controller :: "nat option"

definition RpcInterface_new :: "nat option \<Rightarrow> nat option \<Rightarrow> nat option \<Rightarrow> nat option \<Rightarrow> rpc_interface" where
  "RpcInterface_new req rsp done controller =
     \<lparr>ri_req_base = req, ri_rsp_base = rsp, ri_done = done, ri_controller = controller\<rparr>"

text \<open>The closure that \<open>reply\<close> runs, if any, and the objects \<open>destroy\<close> deletes, in order.\<close>

definition interface_reply :: "rpc_interface \<Rightarrow> nat option" where
  "interface_reply i = ri_done i"

definition interface_destroy :: "rpc_interface \<Rightarrow> nat list \<times> rpc_interface" where
  "interface_destroy i =
     (List.map_filter id [ri_req_base i, ri_rsp_base i, ri_done i, ri_controller i],
      i\<lparr>ri_req_base := None, ri_rsp_base := None, ri_done := None, ri_controller := None\<rparr>)"

definition RpcInterface_delete :: "rpc_interface \<Rightarrow> nat option \<times> nat list" where
  "RpcInterface_delete i = (interface_reply i, fst (interface_destroy i))"

definition newRpcClosure :: "nat \<Rightarrow> cb_end option \<Rightarrow> rpc_closure" where
  "newRpcClosure this cb = \<lparr>cl_rpc_interface = Some this, cl_cb = cb\<rparr>"

section \<open>The interface of a controller\<close>

text \<open>
  The contract of \<^verbatim>\<open>google::protobuf::RpcController\<close>: a failed call carries its reason, cancelling
  shows, resetting returns to the initial state.
\<close>

locale controller_contract =
  fixes failed :: "'c \<Rightarrow> bool"
    and error_text :: "'c \<Rightarrow> string"
    and cancelled :: "'c \<Rightarrow> bool"
    and set_failed :: "string \<Rightarrow> 'c \<Rightarrow> 'c"
    and start_cancel :: "'c \<Rightarrow> 'c"
    and reset :: "'c \<Rightarrow> 'c"
    and initial :: "'c"
  assumes failed_set_failed: "failed (set_failed r c)"
    and text_set_failed: "error_text (set_failed r c) = r"
    and cancelled_set_failed: "cancelled (set_failed r c) = cancelled c"
    and cancelled_start: "cancelled (start_cancel c)"
    and failed_start: "failed (start_cancel c)"
    and text_start: "error_text (start_cancel c) = error_text c"
    and reset_initial: "reset c = initial"
    and initial_ok: "\<not> failed initial" "\<not> cancelled initial"
begin

lemma reset_after_failure: "\<not> failed (reset (start_cancel (set_failed r c)))"
  by (simp add: reset_initial initial_ok)

lemma cancel_keeps_reason: "error_text (start_cancel (set_failed r c)) = r"
  by (simp add: text_start text_set_failed)

end

interpretation ctl: controller_contract Failed ErrorText IsCanceled SetFailed StartCancel ctl_Reset RpcController_new
  by unfold_locales (simp_all add: controller_defs ctl_Reset_def RpcController_new_def)

interpretation ctl_err: controller_contract Failed ErrorText IsCanceled "\<lambda>r. SetError code r" StartCancel ctl_Reset
    RpcController_new for code
  by unfold_locales (simp_all add: controller_defs ctl_Reset_def RpcController_new_def)

section \<open>Properties\<close>

text \<open>
  \<open>Run\<close> never lets an exception of the callback escape: it releases the interface in every case,
  reports a \<open>TalonException\<close> with its own code and text, any other with \<open>-1\<close>, and a normal
  return not at all.  The run time's interface is never set to a live one (the test
  before the assignment is inverted).
\<close>

theorem closure_Run_reports_exceptions:
  "closure_Run (newRpcClosure i cb) rt =
     (\<lparr>cl_rpc_interface = None, cl_cb = cb\<rparr>, rt,
      case cb of
        Some (Cb_TalonException e) \<Rightarrow> Some (i, exc_error_code e, exc_error_info e)
      | Some Cb_StdException \<Rightarrow> Some (i, -1, ''unkonwn std::exception'')
      | Some Cb_OtherException \<Rightarrow> Some (i, -1, ''unkonwn exception'')
      | _ \<Rightarrow> None) \<and>
   getRpcInterface (fst (snd (closure_Run \<lparr>cl_rpc_interface = None, cl_cb = cb\<rparr> rt))) = None"
  by (auto simp: closure_Run_def newRpcClosure_def getRpcInterface_def Let_def split: option.split cb_end.split)

end
