(* ===== verification/Tcp_Client.thy ===== *)
theory Tcp_Client
  imports Tcp_Connection Rpc_Base
begin

text \<open>
  \<open>TcpClient\<close>, \<^verbatim>\<open>net/tcp/tcp_client.{h,cc}\<close>.  The event loop is passed along; what \<open>socket\<close>, \<open>connect\<close> and
  \<open>getsockname\<close> return are arguments.  A null connection or address that the code dereferences makes
  the operation \<open>None\<close>.
\<close>

section \<open>State\<close>

record tcp_client =
  cli_peer_addr :: ip_net_addr
  cli_local_addr :: "ip_net_addr option"
  cli_fd :: int
  cli_fd_event :: nat
  cli_connection :: "tcp_connection option"
  cli_connect_error_code :: int
  cli_connect_error_info :: string

definition TcpClient_new ::
    "(int \<Rightarrow> bool) \<Rightarrow> int \<Rightarrow> int32 \<Rightarrow> int \<Rightarrow> ip_net_addr option \<Rightarrow> event_loop \<Rightarrow> (tcp_client \<times> event_loop) option" where
  "TcpClient_new fd_ok tid flag sock peer_addr l = do {
     peer \<leftarrow> peer_addr;
     let l = (if m_stop_flag l then l\<lparr>m_stop_flag := False, m_is_looping := False\<rparr> else l);
     let cl = \<lparr>cli_peer_addr = peer, cli_local_addr = None, cli_fd = sock, cli_fd_event = 0, cli_connection = None,
       cli_connect_error_code = 0, cli_connect_error_info = []\<rparr>;
     (if sock < 0 then Some (cl, l)
      else do {
        (i, g) \<leftarrow> getFdEvent sock (el_group l);
        (c, l) \<leftarrow> TcpConnection_new fd_ok tid flag sock 128 (Some peer) None TcpConnectionByClient (l\<lparr>el_group := g\<rparr>);
        let c = setConnectionType TcpConnectionByClient c;
        Some (cl\<lparr>cli_fd_event := i, cli_connection := Some c\<rparr>, l) }) }"

section \<open>Operations\<close>

text \<open>\<open>sockname\<close> is \<open>None\<close> when \<open>getsockname\<close> fails.\<close>

definition initLocalAddr :: "(32 word \<Rightarrow> string) \<Rightarrow> sockaddr_in option \<Rightarrow> tcp_client \<Rightarrow> tcp_client" where
  "initLocalAddr inet_ntoa sockname cl = (case sockname of
     None \<Rightarrow> cl
   | Some sa \<Rightarrow> cl\<lparr>cli_local_addr := Some (IPNetAddr_of_sockaddr inet_ntoa sa)\<rparr>)"

definition with_connection :: "(tcp_connection \<Rightarrow> tcp_connection) \<Rightarrow> tcp_client \<Rightarrow> tcp_client option" where
  "with_connection f cl = do { c \<leftarrow> cli_connection cl; Some (cl\<lparr>cli_connection := Some (f c)\<rparr>) }"

text \<open>
  The result of a \<open>connect\<close> call; a text is what \<open>strerror\<close> says.  After the call: whether \<open>done\<close> is called
  now, and whether the loop is entered to wait for the connection.
\<close>

datatype connect_result = Conn_Ok | Conn_In_Progress | Conn_Is_Connected | Conn_Refused string | Conn_Failed string

datatype connect_next = Call_Done | Enter_Loop | Wait_Loop

text \<open>\<open>task_id\<close> names the closure that finishes the connection.\<close>

definition client_connect ::
    "(int \<Rightarrow> bool) \<Rightarrow> int \<Rightarrow> (32 word \<Rightarrow> string) \<Rightarrow> sockaddr_in option \<Rightarrow> connect_result \<Rightarrow> nat \<Rightarrow> tcp_client \<Rightarrow> event_loop
       \<Rightarrow> (tcp_client \<times> event_loop \<times> connect_next) option" where
  "client_connect fd_ok tid inet_ntoa sockname r task_id cl l = (case r of
     Conn_Ok \<Rightarrow> do {
       cl \<leftarrow> with_connection (setState Connected) cl;
       Some (initLocalAddr inet_ntoa sockname cl, l, Call_Done) }
   | Conn_In_Progress \<Rightarrow> do {
       let p = Group_Event (cli_fd_event cl);
       l \<leftarrow> update_event (cli_fd_event cl) (fd_listen p OUT_EVENT (Some (Client_Task task_id)) None) l;
       l \<leftarrow> addEpollEvent fd_ok tid p l;
       Some (cl, l, if isLooping l then Wait_Loop else Enter_Loop) }
   | _ \<Rightarrow>
       let msg = (case r of Conn_Refused e \<Rightarrow> e | Conn_Failed e \<Rightarrow> e | _ \<Rightarrow> ''Transport endpoint is already connected'') in
       Some (cl\<lparr>cli_connect_error_code := ERROR_FAILED_CONNECT,
                cli_connect_error_info := ''connect error, sys error = '' @ msg\<rparr>, l, Call_Done))"

text \<open>
  The closure run when the descriptor becomes writable; \<open>new_fd\<close> is the socket opened after a failure, when the old
  descriptor has been closed, which also takes it out of the interest list.  It always ends with \<open>done\<close>.
\<close>

definition connect_writable ::
    "(int \<Rightarrow> bool) \<Rightarrow> int \<Rightarrow> (32 word \<Rightarrow> string) \<Rightarrow> sockaddr_in option \<Rightarrow> connect_result \<Rightarrow> int \<Rightarrow> tcp_client \<Rightarrow> event_loop
       \<Rightarrow> (tcp_client \<times> event_loop) option" where
  "connect_writable fd_ok tid inet_ntoa sockname r new_fd cl l = do {
     let old_fd = cli_fd cl;
     cl \<leftarrow> (case r of
         Conn_Ok \<Rightarrow> with_connection (setState Connected) (initLocalAddr inet_ntoa sockname cl)
       | Conn_Is_Connected \<Rightarrow> with_connection (setState Connected) (initLocalAddr inet_ntoa sockname cl)
       | Conn_Refused e \<Rightarrow> Some (cl\<lparr>cli_connect_error_code := ERROR_PEER_CLOSED,
           cli_connect_error_info := ''connect refused, sys error = '' @ e, cli_fd := new_fd\<rparr>)
       | Conn_Failed e \<Rightarrow> Some (cl\<lparr>cli_connect_error_code := ERROR_FAILED_CONNECT,
           cli_connect_error_info := ''connect unkonwn error, sys error = '' @ e, cli_fd := new_fd\<rparr>)
       | Conn_In_Progress \<Rightarrow> Some (cl\<lparr>cli_connect_error_code := ERROR_FAILED_CONNECT,
           cli_connect_error_info := ''connect unkonwn error, sys error = '' @ ''Operation already in progress'', cli_fd := new_fd\<rparr>));
     let l = (if r = Conn_Ok \<or> r = Conn_Is_Connected then l else l\<lparr>el_kernel := (el_kernel l)(old_fd := None)\<rparr>);
     l \<leftarrow> deleteEpollEvent fd_ok tid (Group_Event (cli_fd_event cl)) l;
     Some (cl, l) }"

definition client_stop :: "event_loop \<Rightarrow> event_loop" where
  "client_stop l = (if isLooping l then loop_stop l else l)"

definition writeMessage ::
    "(int \<Rightarrow> bool) \<Rightarrow> int \<Rightarrow> tiny_pb \<Rightarrow> nat \<Rightarrow> tcp_client \<Rightarrow> event_loop \<Rightarrow> (tcp_client \<times> event_loop) option" where
  "writeMessage fd_ok tid message done cl l = do {
     cl \<leftarrow> with_connection (pushSendMessage message done) cl;
     c \<leftarrow> cli_connection cl;
     l \<leftarrow> listenWrite fd_ok tid c l;
     Some (cl, l) }"

definition readMessage ::
    "(int \<Rightarrow> bool) \<Rightarrow> int \<Rightarrow> string \<Rightarrow> nat \<Rightarrow> tcp_client \<Rightarrow> event_loop \<Rightarrow> (tcp_client \<times> event_loop) option" where
  "readMessage fd_ok tid msg_id done cl l = do {
     cl \<leftarrow> with_connection (pushReadMessage msg_id done) cl;
     c \<leftarrow> cli_connection cl;
     l \<leftarrow> listenRead fd_ok tid c l;
     Some (cl, l) }"

definition getConnectErrorCode :: "tcp_client \<Rightarrow> int" where
  "getConnectErrorCode cl = cli_connect_error_code cl"

definition getConnectErrorInfo :: "tcp_client \<Rightarrow> string" where
  "getConnectErrorInfo cl = cli_connect_error_info cl"

definition client_getPeerAddr :: "tcp_client \<Rightarrow> ip_net_addr" where
  "client_getPeerAddr cl = cli_peer_addr cl"

definition client_getLocalAddr :: "tcp_client \<Rightarrow> ip_net_addr option" where
  "client_getLocalAddr cl = cli_local_addr cl"

definition client_addTimerEvent :: "(nat \<Rightarrow> int) \<Rightarrow> nat \<Rightarrow> event_loop \<Rightarrow> event_loop" where
  "client_addTimerEvent clock timer_event l = loop_addTimerEvent clock timer_event l"

text \<open>The destructor closes the descriptor when it is positive.\<close>

definition TcpClient_delete :: "tcp_client \<Rightarrow> int option" where
  "TcpClient_delete cl = (if cli_fd cl > 0 then Some (cli_fd cl) else None)"

section \<open>Lemmas\<close>

definition client_ready :: "tcp_client \<Rightarrow> tcp_connection \<Rightarrow> event_loop \<Rightarrow> bool" where
  "client_ready cl c l \<longleftrightarrow> cli_connection cl = Some c \<and> conn_type c = TcpConnectionByClient \<and>
     conn_state c = Connected \<and> buf_inv (m_out_buffer c) \<and> ev_at l (Group_Event (conn_fd_event c)) \<noteq> None"

lemma writeMessage_ready:
  assumes "client_ready cl c l"
  shows "\<exists>l'. writeMessage fd_ok tid m done cl l =
      Some (cl\<lparr>cli_connection := Some (pushSendMessage m done c)\<rparr>, l') \<and>
    client_ready (cl\<lparr>cli_connection := Some (pushSendMessage m done c)\<rparr>) (pushSendMessage m done c) l'"
proof -
  have e: "ev_at l (Group_Event (conn_fd_event (pushSendMessage m done c))) \<noteq> None"
    using assms by (simp add: client_ready_def pushSendMessage_def)
  from listenWrite_ok [OF e, of fd_ok tid] show ?thesis
    using assms by (auto simp: writeMessage_def with_connection_def client_ready_def pushSendMessage_def)
qed

lemma update_listen_ok:
  assumes "ev_at l (Group_Event (conn_fd_event c)) \<noteq> None"
  shows "\<exists>l'. listenRead fd_ok tid c l = Some l' \<and> ev_at l' (Group_Event (conn_fd_event c)) \<noteq> None"
proof -
  let ?p = "Group_Event (conn_fd_event c)" and ?i = "conn_fd_event c"
  obtain e where e: "ev_at l ?p = Some e" using assms by blast
  obtain l1 where l1: "update_event ?i (fd_listen ?p IN_EVENT (Some (On_Read ?i)) None) l = Some l1"
      "ev_at l1 ?p = Some (fd_listen ?p IN_EVENT (Some (On_Read ?i)) None e)"
    using update_event_ok [OF e] by blast
  then show ?thesis using addEpollEvent_ok [OF l1(2), of fd_ok tid] by (auto simp: listenRead_def)
qed

lemma readMessage_ready:
  assumes "client_ready cl c l"
  shows "\<exists>l'. readMessage fd_ok tid i done cl l =
      Some (cl\<lparr>cli_connection := Some (pushReadMessage i done c)\<rparr>, l') \<and>
    client_ready (cl\<lparr>cli_connection := Some (pushReadMessage i done c)\<rparr>) (pushReadMessage i done c) l'"
proof -
  have e: "ev_at l (Group_Event (conn_fd_event (pushReadMessage i done c))) \<noteq> None"
    using assms by (simp add: client_ready_def pushReadMessage_def)
  from update_listen_ok [OF e, of fd_ok tid] show ?thesis
    using assms by (auto simp: readMessage_def with_connection_def client_ready_def pushReadMessage_def)
qed

text \<open>The client's \<open>onWrite\<close> with a socket that takes everything.\<close>

lemma client_onWrite_ready:
  assumes "client_ready cl c l" "contents (m_out_buffer c) = []" "m_write_dones c = [(m, done)]" "wire_ok m"
    and "buf_room (m_out_buffer c) (frame_size m)" "frame_size m \<le> n"
  shows "\<exists>ob l'. onWrite fd_ok tid [Wrote n] c l =
      Some (c\<lparr>m_out_buffer := ob, m_write_dones := []\<rparr>, l', frame_bytes m, [(done, sent m)]) \<and>
    ev_at l' (Group_Event (conn_fd_event c)) \<noteq> None \<and> buf_inv ob"
proof -
  let ?p = "Group_Event (conn_fd_event c)"
  have i: "buf_inv (m_out_buffer c)" using assms(1) by (simp add: client_ready_def)
  obtain ob where ob: "encode [m] (m_out_buffer c) = Some ([sent m], ob)" "buf_inv ob" "contents ob = frame_bytes m"
    using encode_frames [of "[m]", OF _ i] assms(2,4,5) by auto
  obtain e where e: "ev_at l ?p = Some e" using assms(1) by (auto simp: client_ready_def)
  obtain l1 where l1: "update_event (conn_fd_event c) (cancle OUT_EVENT) l = Some l1"
      "ev_at l1 ?p = Some (cancle OUT_EVENT e)" using update_event_ok [OF e] by blast
  obtain l2 where l2: "addEpollEvent fd_ok tid ?p l1 = Some l2" "ev_at l2 = ev_at l1"
    using addEpollEvent_ok [OF l1(2)] by blast
  have "onWrite_loop ob [Wrote n] = Some (True, frame_bytes m)"
    using onWrite_loop_all [OF ob(2)] ob(3) assms(6) by simp
  then show ?thesis using l1 l2 ob assms(1,3)
    by (intro exI [of _ ob] exI [of _ l2]) (simp add: onWrite_def client_ready_def)
qed

text \<open>A client with a good socket has a fresh, unconnected connection on it; the loop's timer is untouched.\<close>

lemma TcpClient_new_ok:
  assumes "group_inv (el_group l)" "0 \<le> sock" "int_ok (3 * sock div 2)"
  shows "\<exists>cl c l'. TcpClient_new fd_ok tid flag sock (Some peer) l = Some (cl, l') \<and> el_timer l' = el_timer l \<and>
    cli_peer_addr cl = peer \<and> cli_connection cl = Some c \<and> conn_fd c = sock \<and> conn_state c = NotConnected \<and>
    conn_type c = TcpConnectionByClient \<and> cli_connect_error_code cl = 0 \<and> m_write_dones c = [] \<and> m_read_dones c = [] \<and>
    cli_fd_event cl = nat sock \<and> conn_fd_event c = nat sock \<and> ev_at l' (Group_Event (nat sock)) \<noteq> None"
proof -
  define l0 where "l0 = (if m_stop_flag l then l\<lparr>m_stop_flag := False, m_is_looping := False\<rparr> else l)"
  have g0: "el_group l0 = el_group l" "el_timer l0 = el_timer l" by (simp_all add: l0_def)
  obtain g e where g: "getFdEvent sock (el_group l) = Some (nat sock, g)" "m_fd_group g ! nat sock = Some e"
      "nat sock < length (m_fd_group g)"
    using getFdEvent_entry [OF assms] by blast
  have g2: "getFdEvent sock g = Some (nat sock, g)" using g(3) assms(2)
    by (simp add: getFdEvent_def zless_nat_eq_int_zless [symmetric] nat_less_iff)
  obtain c where c: "TcpConnection_new fd_ok tid flag sock 128 (Some peer) None TcpConnectionByClient (l0\<lparr>el_group := g\<rparr>) =
      Some (c, l0\<lparr>el_group := g\<rparr>)" "conn_fd c = sock" "conn_state c = NotConnected" "conn_fd_event c = nat sock"
      "m_write_dones c = []" "m_read_dones c = []"
    using g2 by (simp add: TcpConnection_new_def TcpBuffer_new_def)
  let ?c = "setConnectionType TcpConnectionByClient c"
  have "TcpClient_new fd_ok tid flag sock (Some peer) l = Some (\<lparr>cli_peer_addr = peer, cli_local_addr = None, cli_fd = sock,
      cli_fd_event = nat sock, cli_connection = Some ?c, cli_connect_error_code = 0, cli_connect_error_info = []\<rparr>,
      l0\<lparr>el_group := g\<rparr>)"
    unfolding TcpClient_new_def Let_def l0_def [symmetric] using assms(2) g(1) g0(1) c(1) by simp
  moreover have "ev_at (l0\<lparr>el_group := g\<rparr>) (Group_Event (conn_fd_event ?c)) = Some e"
    using g(2,3) c(4) by (simp add: ev_at_def setConnectionType_def)
  ultimately show ?thesis using g0(2) c by (simp add: setConnectionType_def)
qed

text \<open>A connection under way: the closure that finishes it waits for the descriptor to be writable.\<close>

lemma client_connect_in_progress:
  assumes "ev_at l (Group_Event (cli_fd_event cl)) \<noteq> None"
  shows "\<exists>l' e. client_connect fd_ok tid nt sn Conn_In_Progress k cl l = Some (cl, l', if isLooping l' then Wait_Loop else Enter_Loop) \<and>
    isLooping l' = isLooping l \<and> el_timer l' = el_timer l \<and> ev_at l' (Group_Event (cli_fd_event cl)) = Some e \<and> wants_out e \<and>
    handler OUT_EVENT e = Some (Client_Task k)"
proof -
  let ?p = "Group_Event (cli_fd_event cl)"
  let ?f = "fd_listen ?p OUT_EVENT (Some (Client_Task k)) None"
  obtain e where e: "ev_at l ?p = Some e" using assms by blast
  define l1 where "l1 = the (update_event (cli_fd_event cl) ?f l)"
  have l1: "update_event (cli_fd_event cl) ?f l = Some l1" "ev_at l1 ?p = Some (?f e)" "el_timer l1 = el_timer l" "m_is_looping l1 = m_is_looping l"
    using e by (auto simp: l1_def update_event_def ev_at_def split: if_splits)
  define l2 where "l2 = the (addEpollEvent fd_ok tid ?p l1)"
  have l2: "addEpollEvent fd_ok tid ?p l1 = Some l2" "ev_at l2 = ev_at l1" "el_timer l2 = el_timer l1" "m_is_looping l2 = m_is_looping l1"
    using l1(2) by (auto simp: l2_def addEpollEvent_def add_to_epoll_def addTask_def wakeup_def Let_def split: prod.splits)
  have "handler OUT_EVENT (?f e) = Some (Client_Task k)" by (simp add: handler_def fd_listen_def Let_def)
  then show ?thesis using l1 l2 by (auto simp: client_connect_def isLooping_def)
qed

text \<open>
  A connection attempt that fails after \<open>EINPROGRESS\<close> closes the descriptor and opens another one, but the
  client's connection and event keep the old number: the next use of the client is on
  a descriptor that is closed.
\<close>

theorem failed_connect_leaves_stale_descriptor:
  assumes "cli_connection cl = Some c" "conn_fd c = cli_fd cl" "new_fd \<noteq> cli_fd cl"
    and "connect_writable fd_ok tid nt sn (Conn_Refused e) new_fd cl l = Some (cl', l')"
  shows "cli_connect_error_code cl' = ERROR_PEER_CLOSED \<and> cli_fd cl' = new_fd \<and>
    map_option conn_fd (cli_connection cl') = Some (cli_fd cl)"
  using assms by (auto simp: connect_writable_def split: Option.bind_splits)

end
