(* ===== verification/Service_Discovery.thy ===== *)
theory Service_Discovery
  imports Std_Containers
begin

text \<open>
  The service discovery centre, \<^verbatim>\<open>net/service_discovery/run_server_discovery.cc\<close>: start-up, the
  epoll loop (one \<open>sd_step\<close> per event), the text commands of the control port and the queries of
  the query port.  The state is the global \<open>service_map\<close> and the descriptors; what the system calls
  return comes with each event.
\<close>

section \<open>Start-up\<close>

text \<open>What the system calls of \<open>main\<close> return, in the order of the calls; \<open>-1\<close> is a failed call.\<close>

record sd_sys =
  sys_server_socket :: int
  sys_control_socket :: int
  sys_bind_server :: int
  sys_bind_control :: int
  sys_listen_server :: int
  sys_listen_control :: int
  sys_epoll_create :: int
  sys_ctl_server :: int
  sys_ctl_control :: int

record sd_state =
  service_map :: "(string \<times> string) list"
  serverSocket :: int
  controlSocket :: int
  watched :: "int list"

text \<open>\<open>Inl fds\<close>: \<open>main\<close> returns 1 after closing \<open>fds\<close>; \<open>Inr s\<close>: the loop is entered in state \<open>s\<close>.\<close>

definition sd_start :: "sd_sys \<Rightarrow> int list + sd_state" where
  "sd_start e =
     (let ss = sys_server_socket e; cs = sys_control_socket e; ep = sys_epoll_create e in
      if ss = -1 then Inl []
      else if cs = -1 then Inl [ss]
      else if sys_bind_server e = -1 then Inl [ss, cs]
      else if sys_bind_control e = -1 then Inl [ss, cs]
      else if sys_listen_server e = -1 then Inl [ss, cs]
      else if sys_listen_control e = -1 then Inl [ss, cs]
      else if ep = -1 then Inl [ss, cs]
      else if sys_ctl_server e < 0 then Inl [ss, cs, ep]
      else if sys_ctl_control e = -1 then Inl [ss, cs, ep]
      else Inr \<lparr>service_map = [], serverSocket = ss, controlSocket = cs, watched = [ss, cs]\<rparr>)"

section \<open>Commands and queries\<close>

datatype recv_result = Recv_Error | Recv_Bytes "byte list"

text \<open>
  \<open>recv(fd, buffer, n, 0)\<close> into \<open>char buffer[1024]\<close>, the test \<open>bytesRead <= 0\<close> on the unsigned count,
  \<open>buffer[bytesRead] = 0\<close> and the C string in the buffer.  \<open>None\<close>: the write is outside the buffer;
  \<open>Some None\<close>: nothing was read, the descriptor is closed.
\<close>

definition recv_string :: "nat \<Rightarrow> recv_result \<Rightarrow> string option option" where
  "recv_string n r =
     (case r of
        Recv_Error \<Rightarrow> None
      | Recv_Bytes avail \<Rightarrow>
          let bs = take n avail in
          if bs = [] then Some None
          else if length bs < 1024 then Some (Some (takeWhile (\<lambda>c. c \<noteq> NUL) bs))
          else None)"

text \<open>\<open>s.substr(0, s.find_first_of(' '))\<close> and \<open>s.substr(s.find_first_of(' ') + 1, s.length())\<close>; \<open>npos + 1\<close> is 0.\<close>

definition before_space :: "string \<Rightarrow> string" where
  "before_space s = (case find_first_of (CHR '' '') s of None \<Rightarrow> s | Some i \<Rightarrow> substr s 0 i)"

definition after_space :: "string \<Rightarrow> string" where
  "after_space s = (case find_first_of (CHR '' '') s of
     None \<Rightarrow> substr s 0 (length s) | Some i \<Rightarrow> substr s (i + 1) (length s))"

definition handle_command ::
    "(string \<times> string) list \<Rightarrow> string \<Rightarrow> (string \<times> string) list \<times> string" where
  "handle_command smap command =
     (let operator_c = before_space command; content = after_space command in
      if operator_c = ''add'' then
        let service_name = before_space content; service_addr = after_space content in
        (map_assign service_name service_addr smap, ''add service success'')
      else if operator_c = ''delete'' then
        (if map_of smap content = None then (smap, ''service not exist'')
         else (map_erase content smap, ''delete service success''))
      else if operator_c = ''lookup'' then
        (if smap = [] then (smap, ''service map is empty'')
         else (smap, concat (map (\<lambda>i. fst i @ '' '' @ snd i @ [CHR 0x0A]) smap)))
      else if operator_c = ''modify'' then
        let service_name = before_space content; service_addr = after_space content in
        (if map_of smap service_name = None then (smap, ''service not exist'')
         else (map_assign service_name service_addr smap, ''modify service success''))
      else (smap, ''unkown command''))"

definition handle_query :: "(string \<times> string) list \<Rightarrow> string \<Rightarrow> string" where
  "handle_query smap server_name =
     (case map_of smap server_name of None \<Rightarrow> ''unknown host'' | Some service_addr \<Rightarrow> service_addr)"

section \<open>The event loop\<close>

record sd_event =
  ev_fd :: int
  ev_accept :: int
  ev_ctl :: int
  ev_recv :: recv_result

datatype sd_action = Sd_Write int string | Sd_Close int

definition sd_step :: "sd_state \<Rightarrow> sd_event \<Rightarrow> (sd_state \<times> sd_action list) option" where
  "sd_step s ev =
     (if ev_fd ev = serverSocket s then
        let clientSocket = ev_accept ev in
        if clientSocket < 0 then Some (s, [])
        else if ev_ctl ev < 0 then Some (s, [Sd_Close clientSocket])
        else Some (s\<lparr>watched := watched s @ [clientSocket]\<rparr>, [])
      else if ev_fd ev = controlSocket s then
        let clientSocket = ev_accept ev in
        if clientSocket = -1 then Some (s, [])
        else do {
          r \<leftarrow> recv_string 1024 (ev_recv ev);
          (case r of
             None \<Rightarrow> Some (s, [Sd_Close clientSocket])
           | Some command \<Rightarrow>
               let (smap, back_message) = handle_command (service_map s) command in
               Some (s\<lparr>service_map := smap\<rparr>, [Sd_Write clientSocket back_message])) }
      else do {
        r \<leftarrow> recv_string 1023 (ev_recv ev);
        (case r of
           None \<Rightarrow> Some (s\<lparr>watched := filter (\<lambda>f. f \<noteq> ev_fd ev) (watched s)\<rparr>, [Sd_Close (ev_fd ev)])
         | Some server_name \<Rightarrow>
             Some (s, [Sd_Write (ev_fd ev) (handle_query (service_map s) server_name)])) })"

text \<open>The states of a run of the centre.\<close>

inductive sd_reachable :: "sd_state \<Rightarrow> bool" where
  sd_init: "sd_start e = Inr s \<Longrightarrow> sd_reachable s"
| sd_next: "sd_reachable s \<Longrightarrow> sd_step s ev = Some (s', acts) \<Longrightarrow> sd_reachable s'"

inductive_cases sd_reachableE: "sd_reachable s"

section \<open>Lemmas\<close>

definition word_ok :: "string \<Rightarrow> bool" where
  "word_ok n \<longleftrightarrow> CHR '' '' \<notin> set n"

lemma before_space_append [simp]: "word_ok w \<Longrightarrow> before_space (w @ CHR '' '' # r) = w"
  by (simp add: before_space_def word_ok_def substr_def)

lemma after_space_append [simp]: "word_ok w \<Longrightarrow> after_space (w @ CHR '' '' # r) = r"
  by (simp add: after_space_def word_ok_def substr_def)

lemma keyword_ok [simp]:
  "word_ok ''add''" "word_ok ''delete''" "word_ok ''lookup''" "word_ok ''modify''"
  by (simp_all add: word_ok_def)

lemma before_space_word: "word_ok w \<Longrightarrow> before_space w = w"
  by (simp add: before_space_def find_first_of_def word_ok_def)

lemmas before_space_keyword [simp] =
  before_space_append [of "''add''", simplified] before_space_append [of "''delete''", simplified]
  before_space_append [of "''modify''", simplified] before_space_word [of "''lookup''", simplified]

lemmas after_space_keyword [simp] =
  after_space_append [of "''add''", simplified] after_space_append [of "''delete''", simplified]
  after_space_append [of "''modify''", simplified]

lemma handle_add:
  "word_ok n \<Longrightarrow> handle_command m (''add '' @ n @ '' '' @ a) = (map_assign n a m, ''add service success'')"
  by (simp add: handle_command_def)

lemma handle_delete:
  "handle_command m (''delete '' @ n) =
     (if map_of m n = None then (m, ''service not exist'') else (map_erase n m, ''delete service success''))"
  by (simp add: handle_command_def)

lemma handle_modify:
  "word_ok n \<Longrightarrow> handle_command m (''modify '' @ n @ '' '' @ a) =
     (if map_of m n = None then (m, ''service not exist'') else (map_assign n a m, ''modify service success''))"
  by (simp add: handle_command_def)

lemma handle_lookup:
  "handle_command m ''lookup'' = (m, if m = [] then ''service map is empty''
     else concat (map (\<lambda>i. fst i @ '' '' @ snd i @ [CHR 0x0A]) m))"
  by (simp add: handle_command_def)

lemma handle_command_inv [talon_inv]: "map_inv m \<Longrightarrow> map_inv (fst (handle_command m c))"
  by (simp add: handle_command_def Let_def map_inv_assign map_inv_erase)

text \<open>Only a control command changes the map, and only through \<open>handle_command\<close>.\<close>

lemma sd_step_map:
  assumes "sd_step s ev = Some (s', acts)"
  shows "service_map s' = service_map s \<or>
    (\<exists>c. service_map s' = fst (handle_command (service_map s) c)) \<and> ev_fd ev = controlSocket s"
proof (cases "ev_fd ev = controlSocket s \<and> ev_fd ev \<noteq> serverSocket s")
  case True
  then show ?thesis using assms
    by (cases "recv_string 1024 (ev_recv ev)")
       (auto simp: sd_step_def Let_def case_prod_beta split: if_splits option.splits)
next
  case False
  then show ?thesis using assms
    by (cases "recv_string 1023 (ev_recv ev)")
       (auto simp: sd_step_def Let_def split: if_splits option.splits)
qed

lemma sd_step_inv:
  "sd_step s ev = Some (s', acts) \<Longrightarrow> map_inv (service_map s) \<Longrightarrow> map_inv (service_map s')"
  using sd_step_map handle_command_inv by metis

lemma sd_reachable_inv: "sd_reachable s \<Longrightarrow> map_inv (service_map s)"
proof (induction rule: sd_reachable.induct)
  case (sd_init e s)
  then show ?case by (auto simp: sd_start_def Let_def split: if_splits)
next
  case (sd_next s ev s' acts)
  then show ?case by (blast intro: sd_step_inv)
qed

lemma recv_string_small:
  "bs \<noteq> [] \<Longrightarrow> length bs < 1023 \<Longrightarrow> NUL \<notin> set bs \<Longrightarrow> 1023 \<le> n \<Longrightarrow>
   recv_string n (Recv_Bytes bs) = Some (Some bs)"
proof -
  assume a: "bs \<noteq> []" "length bs < 1023" "NUL \<notin> set bs" "1023 \<le> n"
  then have t: "takeWhile (\<lambda>c. c \<noteq> NUL) bs = bs" "take n bs = bs" "length bs < 1024"
    by (auto simp: takeWhile_eq_all_conv)
  show ?thesis unfolding recv_string_def recv_result.case Let_def t(2) using a(1) t(1,3) by simp
qed

section \<open>The interface of a registry\<close>

text \<open>
  What a service node and a client rely on: a name that has been registered resolves to the
  address registered last; other names are not touched.
\<close>

locale service_registry =
  fixes resolve :: "'s \<Rightarrow> string \<Rightarrow> string option"
    and register :: "string \<Rightarrow> string \<Rightarrow> 's \<Rightarrow> 's"
    and unregister :: "string \<Rightarrow> 's \<Rightarrow> 's"
    and valid :: "string \<Rightarrow> bool"
  assumes resolve_register: "valid n \<Longrightarrow> resolve (register n a s) = (resolve s)(n \<mapsto> a)"
    and resolve_unregister: "resolve (unregister n s) = (resolve s)(n := None)"
begin

fun register_all :: "string list \<Rightarrow> string \<Rightarrow> 's \<Rightarrow> 's" where
  "register_all [] a s = s"
| "register_all (n # ns) a s = register_all ns a (register n a s)"

lemma resolve_register_all:
  "\<forall>n \<in> set ns. valid n \<Longrightarrow>
   resolve (register_all ns a s) k = (if k \<in> set ns then Some a else resolve s k)"
  by (induction ns arbitrary: s) (auto simp: resolve_register)

lemma resolve_unregistered: "resolve (unregister n (register_all ns a s)) n = None"
  by (simp add: resolve_unregister)

end

text \<open>Registration and removal as the centre's commands.\<close>

definition sd_register :: "string \<Rightarrow> string \<Rightarrow> (string \<times> string) list \<Rightarrow> (string \<times> string) list" where
  "sd_register n a m = fst (handle_command m (''add '' @ n @ '' '' @ a))"

definition sd_unregister :: "string \<Rightarrow> (string \<times> string) list \<Rightarrow> (string \<times> string) list" where
  "sd_unregister n m = fst (handle_command m (''delete '' @ n))"

interpretation sdr: service_registry map_of sd_register sd_unregister word_ok
proof unfold_locales
  fix n a and s :: "(string \<times> string) list" assume "word_ok n"
  then show "map_of (sd_register n a s) = (map_of s)(n \<mapsto> a)"
    unfolding sd_register_def by (simp only: handle_add) simp
next
  fix n and s :: "(string \<times> string) list"
  show "map_of (sd_unregister n s) = (map_of s)(n := None)"
    unfolding sd_unregister_def by (simp only: handle_delete) (auto simp: fun_eq_iff)
qed

end
