(* ===== verification/Sd_Client.thy ===== *)
theory Sd_Client
  imports Service_Discovery
begin

text \<open>
  The two clients of the discovery centre: \<open>Runtime_Command\<close>
  (\<^verbatim>\<open>net/service_discovery/run_time_service_discovery_interface.h\<close>, the control port) and
  \<open>serviceDiscovery\<close> (\<^verbatim>\<open>net/service_discovery/service_discovery.h\<close>, the query port).  What the system
  calls return is an argument \<open>net\<close>; the properties at the end connect the clients with the
  centre's handlers of theory \<open>Service_Discovery\<close>.
\<close>

section \<open>Runtime\_Command\<close>

record rc_message =
  rc_info :: string
  rc_is_success :: bool

definition RC_Message_new :: rc_message where
  "RC_Message_new = \<lparr>rc_info = [], rc_is_success = False\<rparr>"

record sd_net =
  net_socket :: int
  net_connect :: int
  net_write :: int
  net_read :: recv_result

text \<open>
  The reply is read into \<open>char buff[1024]\<close> and terminated at \<open>buff[ret]\<close>, which is outside the array
  when 1024 bytes were read.
\<close>

definition read_reply :: "byte list \<Rightarrow> string option" where
  "read_reply avail = do {
     let bs = take 1024 avail;
     require (length bs < 1024);
     Some (takeWhile (\<lambda>c. c \<noteq> NUL) bs) }"

text \<open>The result: the message, the texts written to the centre, and whether the descriptor is closed.\<close>

definition to_command :: "sd_net \<Rightarrow> string \<Rightarrow> rc_message \<Rightarrow> (rc_message \<times> string list \<times> bool) option" where
  "to_command net command message =
     (if net_socket net = -1 then Some (message\<lparr>rc_info := ''socket error''\<rparr>, [], False)
      else if net_connect net \<noteq> 0 then Some (message\<lparr>rc_info := ''connect error''\<rparr>, [], False)
      else if net_write net < 0 then Some (message\<lparr>rc_info := ''write error''\<rparr>, [], False)
      else case net_read net of
          Recv_Error \<Rightarrow> Some (message\<lparr>rc_info := ''read error''\<rparr>, [command], False)
        | Recv_Bytes avail \<Rightarrow> do {
            buff \<leftarrow> read_reply avail;
            Some (message\<lparr>rc_is_success := True, rc_info := buff\<rparr>, [command], True) })"

definition modify_service ::
    "sd_net \<Rightarrow> string \<Rightarrow> string \<Rightarrow> int \<Rightarrow> (rc_message \<times> string list \<times> bool) option" where
  "modify_service net service_name ip port =
     to_command net (''modify'' @ '' '' @ service_name @ '' '' @ ip @ '':'' @ to_string port) RC_Message_new"

definition delete_service :: "sd_net \<Rightarrow> string \<Rightarrow> (rc_message \<times> string list \<times> bool) option" where
  "delete_service net service_name = to_command net (''delete'' @ '' '' @ service_name) RC_Message_new"

definition add_service ::
    "sd_net \<Rightarrow> string \<Rightarrow> string \<Rightarrow> int \<Rightarrow> (rc_message \<times> string list \<times> bool) option" where
  "add_service net service_name ip port =
     to_command net (''add'' @ '' '' @ service_name @ '' '' @ ip @ '':'' @ to_string port) RC_Message_new"

definition look_up :: "sd_net \<Rightarrow> (rc_message \<times> string list \<times> bool) option" where
  "look_up net = to_command net ''lookup'' RC_Message_new"

section \<open>serviceDiscovery\<close>

text \<open>
  Every error path calls \<open>sys_error\<close>, which prints its argument and ends the process.  The list has
  the texts written to the centre.
\<close>

datatype sd_lookup = Sys_Error string | Found_Addr string

definition serviceDiscovery :: "sd_net \<Rightarrow> string \<Rightarrow> (sd_lookup \<times> string list) option" where
  "serviceDiscovery net service_funcName =
     (if net_socket net = -1 then Some (Sys_Error ''socket error'', [])
      else if net_connect net \<noteq> 0 then Some (Sys_Error ''connect error'', [])
      else if net_write net < 0 then Some (Sys_Error ''write error'', [])
      else case net_read net of
          Recv_Error \<Rightarrow> Some (Sys_Error ''read error'', [service_funcName])
        | Recv_Bytes avail \<Rightarrow> do {
            addr_buff \<leftarrow> read_reply avail;
            Some (Found_Addr addr_buff, [service_funcName]) })"

section \<open>Lemmas\<close>

definition name_ok :: "string \<Rightarrow> bool" where
  "name_ok n \<longleftrightarrow> n \<noteq> [] \<and> word_ok n \<and> NUL \<notin> set n \<and> length n \<le> 400"

definition host_ok :: "string \<Rightarrow> bool" where
  "host_ok ip \<longleftrightarrow> NUL \<notin> set ip \<and> length ip \<le> 400"

definition net_up :: "byte list \<Rightarrow> sd_net" where
  "net_up reply = \<lparr>net_socket = 3, net_connect = 0, net_write = 1, net_read = Recv_Bytes reply\<rparr>"

lemma nat_to_string_length: "n < 10 ^ k \<Longrightarrow> length (nat_to_string n) \<le> max 1 k"
proof (induction k arbitrary: n)
  case 0
  then show ?case by (simp add: nat_to_string.simps)
next
  case (Suc k)
  show ?case
  proof (cases "n < 10")
    case True
    then show ?thesis by (simp add: nat_to_string.simps)
  next
    case False
    then have "n div 10 < 10 ^ k" using Suc.prems by (simp add: less_mult_imp_div_less)
    moreover have "k \<noteq> 0" using False Suc.prems by (cases k) auto
    ultimately show ?thesis using Suc.IH [of "n div 10"] False by (simp add: nat_to_string.simps [of n])
  qed
qed

lemma to_string_length: "int_ok i \<Longrightarrow> length (to_string i) \<le> 11"
proof -
  assume i: "int_ok i"
  then have "nat \<bar>i\<bar> < 10 ^ 10" by (auto simp: int_ok_def)
  from nat_to_string_length [OF this] show ?thesis
    by (cases "i < 0") (simp_all add: to_string_def)
qed

text \<open>A reply that fits the clients' buffers is returned unchanged.\<close>

definition reply_ok :: "string \<Rightarrow> bool" where
  "reply_ok a \<longleftrightarrow> length a < 1024 \<and> NUL \<notin> set a"

lemma read_reply_ok: "reply_ok a \<Longrightarrow> read_reply a = Some a"
proof -
  assume a: "reply_ok a"
  then have "takeWhile (\<lambda>c. c \<noteq> NUL) a = a" by (auto simp: reply_ok_def takeWhile_eq_all_conv)
  with a show ?thesis by (simp add: read_reply_def reply_ok_def)
qed

lemma to_command_up:
  "reply_ok r \<Longrightarrow> to_command (net_up r) c m = Some (m\<lparr>rc_is_success := True, rc_info := r\<rparr>, [c], True)"
  by (simp add: to_command_def net_up_def read_reply_ok)

lemma serviceDiscovery_up: "reply_ok a \<Longrightarrow> serviceDiscovery (net_up a) n = Some (Found_Addr a, [n])"
  by (simp add: serviceDiscovery_def net_up_def read_reply_ok)

text \<open>A command text the centre receives whole; the texts of the node's commands are such.\<close>

definition command_ok :: "string \<Rightarrow> bool" where
  "command_ok c \<longleftrightarrow> c \<noteq> [] \<and> length c < 1023 \<and> NUL \<notin> set c"

lemma name_ok_word [simp]: "name_ok n \<Longrightarrow> word_ok n"
  by (simp add: name_ok_def)

lemma command_ok_texts:
  assumes "name_ok n" "host_ok ip" "int_ok port"
  shows "command_ok (''add'' @ '' '' @ n @ '' '' @ ip @ '':'' @ to_string port)"
    "command_ok (''modify'' @ '' '' @ n @ '' '' @ ip @ '':'' @ to_string port)"
    "command_ok (''delete'' @ '' '' @ n)" "command_ok n" "reply_ok (ip @ '':'' @ to_string port)"
  using assms to_string_length [OF assms(3)] to_string_no_NUL
  by (simp_all add: command_ok_def name_ok_def host_ok_def reply_ok_def)

text \<open>One control connection carrying \<open>cmd\<close>, and one query for \<open>n\<close>.\<close>

definition control_event :: "sd_state \<Rightarrow> int \<Rightarrow> string \<Rightarrow> sd_event" where
  "control_event s fd cmd = \<lparr>ev_fd = controlSocket s, ev_accept = fd, ev_ctl = 0, ev_recv = Recv_Bytes cmd\<rparr>"

definition query_event :: "int \<Rightarrow> string \<Rightarrow> sd_event" where
  "query_event fd n = \<lparr>ev_fd = fd, ev_accept = -1, ev_ctl = 0, ev_recv = Recv_Bytes n\<rparr>"

lemma sd_step_control:
  assumes "controlSocket s \<noteq> serverSocket s" "0 \<le> fd" "command_ok cmd"
  shows "sd_step s (control_event s fd cmd) =
    Some (s\<lparr>service_map := fst (handle_command (service_map s) cmd)\<rparr>,
      [Sd_Write fd (snd (handle_command (service_map s) cmd))])"
proof -
  have "recv_string 1024 (Recv_Bytes cmd) = Some (Some cmd)"
    using assms recv_string_small [of cmd 1024] by (simp add: command_ok_def)
  then show ?thesis using assms by (simp add: sd_step_def control_event_def Let_def case_prod_beta)
qed

lemma sd_step_query:
  assumes "fd \<noteq> controlSocket s" "fd \<noteq> serverSocket s" "command_ok n"
  shows "sd_step s (query_event fd n) = Some (s, [Sd_Write fd (handle_query (service_map s) n)])"
proof -
  have "recv_string 1023 (Recv_Bytes n) = Some (Some n)"
    using assms recv_string_small [of n 1023] by (simp add: command_ok_def)
  then show ?thesis using assms by (simp add: sd_step_def query_event_def)
qed

text \<open>A sequence of events; without a control command among them the map and the sockets stay.\<close>

fun sd_steps :: "sd_state \<Rightarrow> sd_event list \<Rightarrow> sd_state option" where
  "sd_steps s [] = Some s"
| "sd_steps s (ev # evs) = do { (s', acts) \<leftarrow> sd_step s ev; sd_steps s' evs }"

lemma sd_step_sockets:
  "sd_step s ev = Some (s', acts) \<Longrightarrow> controlSocket s' = controlSocket s \<and> serverSocket s' = serverSocket s"
  by (auto simp: sd_step_def Let_def case_prod_beta split: if_splits option.splits Option.bind_splits)

lemma sd_steps_no_control:
  "sd_steps s evs = Some s' \<Longrightarrow> controlSocket s \<notin> ev_fd ` set evs \<Longrightarrow>
   service_map s' = service_map s \<and> controlSocket s' = controlSocket s \<and> serverSocket s' = serverSocket s"
proof (induction evs arbitrary: s)
  case Nil
  then show ?case by simp
next
  case (Cons ev evs)
  from Cons.prems(1) obtain s1 acts
    where s1: "sd_step s ev = Some (s1, acts)" "sd_steps s1 evs = Some s'"
    by (auto split: Option.bind_splits)
  have "service_map s1 = service_map s" using sd_step_map [OF s1(1)] Cons.prems(2) by auto
  moreover note sd_step_sockets [OF s1(1)]
  ultimately show ?case using Cons.IH [OF s1(2)] Cons.prems(2) by simp
qed

lemma add_service_text:
  "reply_ok r \<Longrightarrow> add_service (net_up r) n ip port =
     Some (\<lparr>rc_info = r, rc_is_success = True\<rparr>, [''add '' @ n @ '' '' @ ip @ '':'' @ to_string port], True)"
  by (simp add: add_service_def to_command_up RC_Message_new_def)

lemma delete_service_text:
  "reply_ok r \<Longrightarrow> delete_service (net_up r) n =
     Some (\<lparr>rc_info = r, rc_is_success = True\<rparr>, [''delete '' @ n], True)"
  by (simp add: delete_service_def to_command_up RC_Message_new_def)

section \<open>Properties\<close>

text \<open>
  C9. A service registered with \<open>add_service\<close> is found by \<open>serviceDiscovery\<close>: the text the node
  writes makes the centre answer success, and after any further events without a
  control command the centre answers a query for the name with exactly \<open>ip:port\<close>, which
  the client returns.
\<close>

theorem register_then_discover:
  assumes "name_ok n" "host_ok ip" "int_ok port" "controlSocket s \<noteq> serverSocket s" "0 \<le> fd"
  defines "addr \<equiv> ip @ '':'' @ to_string port"
  shows "\<exists>msg cmd s1. add_service (net_up ''add service success'') n ip port = Some (msg, [cmd], True) \<and>
    rc_is_success msg \<and>
    sd_step s (control_event s fd cmd) = Some (s1, [Sd_Write fd ''add service success'']) \<and>
    (\<forall>evs s2 qfd. sd_steps s1 evs = Some s2 \<longrightarrow> controlSocket s \<notin> ev_fd ` set evs \<longrightarrow>
       qfd \<notin> {controlSocket s, serverSocket s} \<longrightarrow>
       sd_step s2 (query_event qfd n) = Some (s2, [Sd_Write qfd addr])) \<and>
    serviceDiscovery (net_up addr) n = Some (Found_Addr addr, [n])"
proof -
  define cmd where "cmd = ''add '' @ n @ '' '' @ addr"
  define s1 where "s1 = s\<lparr>service_map := map_assign n addr (service_map s)\<rparr>"
  have cmd: "command_ok cmd" using command_ok_texts(1) [OF assms(1-3)] by (simp add: cmd_def addr_def)
  have h: "handle_command (service_map s) cmd = (map_assign n addr (service_map s), ''add service success'')"
    unfolding cmd_def by (rule handle_add) (simp add: assms)
  have "sd_step s2 (query_event qfd n) = Some (s2, [Sd_Write qfd addr])"
    if "sd_steps s1 evs = Some s2" "controlSocket s \<notin> ev_fd ` set evs"
      "qfd \<notin> {controlSocket s, serverSocket s}" for evs s2 qfd
  proof -
    have s2: "service_map s2 = service_map s1 \<and> controlSocket s2 = controlSocket s1 \<and> serverSocket s2 = serverSocket s1"
      using sd_steps_no_control [OF that(1)] that(2) by (simp add: s1_def)
    then have "sd_step s2 (query_event qfd n) = Some (s2, [Sd_Write qfd (handle_query (service_map s2) n)])"
      using that(3) command_ok_texts(4) [OF assms(1-3)] by (intro sd_step_query) (auto simp: s1_def)
    then show ?thesis by (simp add: s2) (simp add: s1_def handle_query_def)
  qed
  moreover have "sd_step s (control_event s fd cmd) = Some (s1, [Sd_Write fd ''add service success''])"
    using sd_step_control [OF assms(4,5) cmd] by (simp add: h s1_def)
  moreover have "serviceDiscovery (net_up addr) n = Some (Found_Addr addr, [n])"
    unfolding addr_def by (rule serviceDiscovery_up) (rule command_ok_texts(5) [OF assms(1-3)])
  moreover have "add_service (net_up ''add service success'') n ip port =
      Some (\<lparr>rc_info = ''add service success'', rc_is_success = True\<rparr>, [cmd], True)"
    by (simp add: add_service_text reply_ok_def cmd_def addr_def)
  ultimately show ?thesis by (intro exI conjI) (assumption | simp)+
qed

definition demo_centre :: sd_state where
  "demo_centre = \<lparr>service_map = [], serverSocket = 3, controlSocket = 4, watched = [3, 4]\<rparr>"

theorem register_then_discover_witness:
  "\<exists>msg cmd s1. add_service (net_up ''add service success'') ''Order.make'' ''127.0.0.1'' 12345 = Some (msg, [cmd], True) \<and>
    rc_is_success msg \<and>
    sd_step demo_centre (control_event demo_centre 7 cmd) = Some (s1, [Sd_Write 7 ''add service success'']) \<and>
    sd_step s1 (query_event 9 ''Order.make'') = Some (s1, [Sd_Write 9 (''127.0.0.1'' @ '':'' @ to_string 12345)]) \<and>
    serviceDiscovery (net_up (''127.0.0.1'' @ '':'' @ to_string 12345)) ''Order.make'' =
      Some (Found_Addr (''127.0.0.1'' @ '':'' @ to_string 12345), [''Order.make''])"
proof -
  have n: "name_ok ''Order.make''" "host_ok ''127.0.0.1''" "int_ok 12345" "controlSocket demo_centre \<noteq> serverSocket demo_centre"
    by (simp_all add: name_ok_def host_ok_def word_ok_def int_ok_def demo_centre_def)
  have q: "9 \<notin> {controlSocket demo_centre, serverSocket demo_centre}" by (simp add: demo_centre_def)
  have e: "sd_steps s [] = Some s" "controlSocket demo_centre \<notin> ev_fd ` set []" for s by simp_all
  from register_then_discover [OF n, of 7] obtain msg cmd s1
    where r: "add_service (net_up ''add service success'') ''Order.make'' ''127.0.0.1'' 12345 = Some (msg, [cmd], True)"
      "rc_is_success msg" "sd_step demo_centre (control_event demo_centre 7 cmd) = Some (s1, [Sd_Write 7 ''add service success''])"
      "\<And>evs s2 qfd. sd_steps s1 evs = Some s2 \<Longrightarrow> controlSocket demo_centre \<notin> ev_fd ` set evs \<Longrightarrow>
         qfd \<notin> {controlSocket demo_centre, serverSocket demo_centre} \<Longrightarrow>
         sd_step s2 (query_event qfd ''Order.make'') = Some (s2, [Sd_Write qfd (''127.0.0.1'' @ '':'' @ to_string 12345)])"
      "serviceDiscovery (net_up (''127.0.0.1'' @ '':'' @ to_string 12345)) ''Order.make'' =
         Some (Found_Addr (''127.0.0.1'' @ '':'' @ to_string 12345), [''Order.make''])"
    by fastforce
  then show ?thesis using r(4) [OF e q] by blast
qed

text \<open>
  After \<open>delete_service\<close> the centre answers queries for the name with \<open>unknown host\<close> and all
  other names resolve as before; deleting or modifying a name that is not registered
  leaves the map unchanged.  In that case the centre answers \<open>service not exist\<close>, but
  \<open>Runtime_Command\<close> still reports success to its caller.
\<close>

theorem delete_and_modify_registered_only:
  assumes "word_ok n"
  shows "\<exists>del mdf. delete_service (net_up ''service not exist'') n =
        Some (\<lparr>rc_info = ''service not exist'', rc_is_success = True\<rparr>, [del], True) \<and>
      modify_service (net_up ''service not exist'') n ip port =
        Some (\<lparr>rc_info = ''service not exist'', rc_is_success = True\<rparr>, [mdf], True) \<and>
      handle_query (fst (handle_command m del)) n = ''unknown host'' \<and>
      (\<forall>k. k \<noteq> n \<longrightarrow> handle_query (fst (handle_command m del)) k = handle_query m k) \<and>
      (map_of m n = None \<longrightarrow> handle_command m del = (m, ''service not exist'') \<and>
         handle_command m mdf = (m, ''service not exist''))"
proof -
  let ?del = "''delete '' @ n" and ?mdf = "''modify '' @ n @ '' '' @ ip @ '':'' @ to_string port"
  have "modify_service (net_up ''service not exist'') n ip port =
      Some (\<lparr>rc_info = ''service not exist'', rc_is_success = True\<rparr>, [?mdf], True)"
    by (simp add: modify_service_def to_command_up RC_Message_new_def reply_ok_def)
  moreover have "delete_service (net_up ''service not exist'') n =
      Some (\<lparr>rc_info = ''service not exist'', rc_is_success = True\<rparr>, [?del], True)"
    by (simp add: delete_service_text reply_ok_def)
  moreover have "handle_query (fst (handle_command m ?del)) n = ''unknown host''"
    by (simp only: handle_query_def sdr.resolve_unregister [unfolded sd_unregister_def]) simp
  moreover have "\<forall>k. k \<noteq> n \<longrightarrow> handle_query (fst (handle_command m ?del)) k = handle_query m k"
    by (simp only: handle_query_def sdr.resolve_unregister [unfolded sd_unregister_def]) simp
  moreover have "map_of m n = None \<longrightarrow> handle_command m ?del = (m, ''service not exist'') \<and>
      handle_command m ?mdf = (m, ''service not exist'')"
    using assms by (simp only: handle_delete handle_modify) simp
  ultimately show ?thesis by (intro exI conjI)
qed

theorem delete_and_modify_registered_only_witness:
  "\<exists>del mdf. delete_service (net_up ''service not exist'') ''Order.make'' =
        Some (\<lparr>rc_info = ''service not exist'', rc_is_success = True\<rparr>, [del], True) \<and>
      modify_service (net_up ''service not exist'') ''Order.make'' ''127.0.0.1'' 80 =
        Some (\<lparr>rc_info = ''service not exist'', rc_is_success = True\<rparr>, [mdf], True) \<and>
      handle_query (fst (handle_command [(''A'', ''1.2.3.4:5'')] del)) ''Order.make'' = ''unknown host'' \<and>
      handle_command [(''A'', ''1.2.3.4:5'')] del = ([(''A'', ''1.2.3.4:5'')], ''service not exist'') \<and>
      handle_command [(''A'', ''1.2.3.4:5'')] mdf = ([(''A'', ''1.2.3.4:5'')], ''service not exist'')"
proof -
  have w: "word_ok ''Order.make''" by (simp add: word_ok_def)
  have m: "map_of [(''A'', ''1.2.3.4:5'')] ''Order.make'' = None" by simp
  obtain del mdf where "delete_service (net_up ''service not exist'') ''Order.make'' =
        Some (\<lparr>rc_info = ''service not exist'', rc_is_success = True\<rparr>, [del], True)"
      "modify_service (net_up ''service not exist'') ''Order.make'' ''127.0.0.1'' 80 =
        Some (\<lparr>rc_info = ''service not exist'', rc_is_success = True\<rparr>, [mdf], True)"
      "handle_query (fst (handle_command [(''A'', ''1.2.3.4:5'')] del)) ''Order.make'' = ''unknown host''"
      "map_of [(''A'', ''1.2.3.4:5'')] ''Order.make'' = None \<longrightarrow>
         handle_command [(''A'', ''1.2.3.4:5'')] del = ([(''A'', ''1.2.3.4:5'')], ''service not exist'') \<and>
         handle_command [(''A'', ''1.2.3.4:5'')] mdf = ([(''A'', ''1.2.3.4:5'')], ''service not exist'')"
    using delete_and_modify_registered_only [OF w, of "''127.0.0.1''" 80 "[(''A'', ''1.2.3.4:5'')]"] by metis
  then show ?thesis using m by (intro exI conjI) (assumption | blast)+
qed

section \<open>The centre as a registry\<close>

text \<open>
  The abstract specification: a partial map from names to addresses, the commands on it, and their answers; the list
  has a line for each name, in order.  \<open>Reg_Other\<close> is a text that starts with none of the four keywords.
\<close>

datatype registry_cmd = Reg_Add string string | Reg_Delete string | Reg_Modify string string | Reg_List | Reg_Other string

type_synonym registry = "string \<rightharpoonup> string"

fun cmd_text :: "registry_cmd \<Rightarrow> string" where
  "cmd_text (Reg_Add n a) = ''add '' @ n @ '' '' @ a"
| "cmd_text (Reg_Delete n) = ''delete '' @ n"
| "cmd_text (Reg_Modify n a) = ''modify '' @ n @ '' '' @ a"
| "cmd_text Reg_List = ''lookup''"
| "cmd_text (Reg_Other c) = c"

fun cmd_ok :: "registry_cmd \<Rightarrow> bool" where
  "cmd_ok (Reg_Add n a) \<longleftrightarrow> word_ok n \<and> command_ok (cmd_text (Reg_Add n a))"
| "cmd_ok (Reg_Modify n a) \<longleftrightarrow> word_ok n \<and> command_ok (cmd_text (Reg_Modify n a))"
| "cmd_ok (Reg_Other c) \<longleftrightarrow> before_space c \<notin> {''add'', ''delete'', ''lookup'', ''modify''} \<and> command_ok c"
| "cmd_ok c \<longleftrightarrow> command_ok (cmd_text c)"

fun reg_step :: "registry_cmd \<Rightarrow> registry \<Rightarrow> registry" where
  "reg_step (Reg_Add n a) r = r(n \<mapsto> a)"
| "reg_step (Reg_Delete n) r = r(n := None)"
| "reg_step (Reg_Modify n a) r = (if r n = None then r else r(n \<mapsto> a))"
| "reg_step _ r = r"

definition reg_list :: "registry \<Rightarrow> string" where
  "reg_list r = concat (map (\<lambda>n. n @ '' '' @ the (r n) @ [CHR 0x0A]) (sorted_list_of_set (dom r)))"

fun reg_reply :: "registry_cmd \<Rightarrow> registry \<Rightarrow> string" where
  "reg_reply (Reg_Add n a) r = ''add service success''"
| "reg_reply (Reg_Delete n) r = (if n \<in> dom r then ''delete service success'' else ''service not exist'')"
| "reg_reply (Reg_Modify n a) r = (if n \<in> dom r then ''modify service success'' else ''service not exist'')"
| "reg_reply Reg_List r = (if dom r = {} then ''service map is empty'' else reg_list r)"
| "reg_reply (Reg_Other c) r = ''unkown command''"

lemma keys_sorted_list: "map_inv m \<Longrightarrow> sorted_list_of_set (dom (map_of m)) = map fst m"
  by (simp add: map_inv_def dom_map_of_conv_image_fst sorted_list_of_set.idem_if_sorted_distinct strict_sorted_iff flip: set_map)

lemma map_of_reg_list:
  assumes "map_inv m"
  shows "reg_list (map_of m) = concat (map (\<lambda>i. fst i @ '' '' @ snd i @ [CHR 0x0A]) m)"
proof -
  have "the (map_of m (fst i)) = snd i" if "i \<in> set m" for i
    using map_of_is_SomeI [OF map_inv_distinct [OF assms], of "fst i" "snd i"] that by simp
  then show ?thesis by (simp add: reg_list_def keys_sorted_list [OF assms] comp_def cong: map_cong)
qed

lemma handle_other:
  "before_space c \<notin> {''add'', ''delete'', ''lookup'', ''modify''} \<Longrightarrow> handle_command m c = (m, ''unkown command'')"
  by (simp add: handle_command_def Let_def)

text \<open>\<open>handle_command\<close> implements the registry.\<close>

lemma handle_command_refines:
  assumes "map_inv m" "cmd_ok c"
  shows "map_of (fst (handle_command m (cmd_text c))) = reg_step c (map_of m) \<and>
    snd (handle_command m (cmd_text c)) = reg_reply c (map_of m)"
proof (cases c)
  case (Reg_Delete n)
  then show ?thesis
    by (simp only: cmd_text.simps handle_delete) (auto simp: domIff map_inv_distinct [OF assms(1)] fun_eq_iff)
next
  case (Reg_Modify n a)
  then have "word_ok n" using assms(2) by simp
  then show ?thesis unfolding Reg_Modify by (simp only: cmd_text.simps handle_modify) (auto simp: domIff)
next
  case (Reg_Add n a)
  then have "word_ok n" using assms(2) by simp
  then show ?thesis unfolding Reg_Add by (simp only: cmd_text.simps handle_add) simp
next
  case Reg_List
  then show ?thesis by (simp only: cmd_text.simps handle_lookup) (simp add: map_of_reg_list [OF assms(1)])
next
  case (Reg_Other c')
  then show ?thesis using assms(2) by (simp add: handle_other)
qed

text \<open>
  What comes to the centre: a command on the control port, a client of the query port that connects, asks or leaves;
  and the event the loop sees.
\<close>

datatype sd_request = Rq_Control int registry_cmd | Rq_Query int string | Rq_Connect int int | Rq_Leave int

fun event_of :: "sd_state \<Rightarrow> sd_request \<Rightarrow> sd_event" where
  "event_of s (Rq_Control fd c) = control_event s fd (cmd_text c)"
| "event_of s (Rq_Query fd n) = query_event fd n"
| "event_of s (Rq_Connect fd ctl) = \<lparr>ev_fd = serverSocket s, ev_accept = fd, ev_ctl = ctl, ev_recv = Recv_Error\<rparr>"
| "event_of s (Rq_Leave fd) = \<lparr>ev_fd = fd, ev_accept = -1, ev_ctl = 0, ev_recv = Recv_Bytes []\<rparr>"

fun request_ok :: "int set \<Rightarrow> sd_request \<Rightarrow> bool" where
  "request_ok ports (Rq_Control fd c) \<longleftrightarrow> 0 \<le> fd \<and> cmd_ok c"
| "request_ok ports (Rq_Query fd n) \<longleftrightarrow> fd \<notin> ports \<and> command_ok n"
| "request_ok ports (Rq_Connect fd ctl) \<longleftrightarrow> True"
| "request_ok ports (Rq_Leave fd) \<longleftrightarrow> fd \<notin> ports"

text \<open>The two runs, with the answers given.\<close>

definition answers_of :: "sd_action list \<Rightarrow> (int \<times> string) list" where
  "answers_of acts = concat (map (\<lambda>a. case a of Sd_Write fd msg \<Rightarrow> [(fd, msg)] | Sd_Close fd \<Rightarrow> []) acts)"

fun centre_run :: "sd_state \<Rightarrow> sd_request list \<Rightarrow> (sd_state \<times> (int \<times> string) list) option" where
  "centre_run s [] = Some (s, [])"
| "centre_run s (req # reqs) = do {
     (s1, acts) \<leftarrow> sd_step s (event_of s req);
     (s2, out) \<leftarrow> centre_run s1 reqs;
     Some (s2, answers_of acts @ out) }"

fun registry_run :: "registry \<Rightarrow> sd_request list \<Rightarrow> registry \<times> (int \<times> string) list" where
  "registry_run r [] = (r, [])"
| "registry_run r (Rq_Control fd c # reqs) = (let (r', out) = registry_run (reg_step c r) reqs in (r', (fd, reg_reply c r) # out))"
| "registry_run r (Rq_Query fd n # reqs) = (let (r', out) = registry_run r reqs in
     (r', (fd, case r n of None \<Rightarrow> ''unknown host'' | Some a \<Rightarrow> a) # out))"
| "registry_run r (_ # reqs) = registry_run r reqs"

lemma answers_of_simps [simp]:
  "answers_of [] = []" "answers_of [Sd_Write fd msg] = [(fd, msg)]" "answers_of [Sd_Close fd] = []"
  by (simp_all add: answers_of_def)

lemma sd_step_connect:
  "\<exists>w acts. sd_step s (event_of s (Rq_Connect fd ctl)) = Some (s\<lparr>watched := w\<rparr>, acts) \<and> answers_of acts = []"
  by (cases "fd < 0"; cases "ctl < 0") (auto simp: sd_step_def intro: exI [of _ "watched s"])

lemma sd_step_leave:
  "fd \<notin> {serverSocket s, controlSocket s} \<Longrightarrow>
   \<exists>w. sd_step s (event_of s (Rq_Leave fd)) = Some (s\<lparr>watched := w\<rparr>, [Sd_Close fd])"
  by (simp add: sd_step_def recv_string_def) blast

text \<open>The simulation.\<close>

lemma centre_run_refines:
  assumes "map_inv (service_map s)" "serverSocket s \<noteq> controlSocket s"
    "list_all (request_ok {serverSocket s, controlSocket s}) reqs"
  shows "\<exists>s'. centre_run s reqs = Some (s', snd (registry_run (map_of (service_map s)) reqs)) \<and>
    map_of (service_map s') = fst (registry_run (map_of (service_map s)) reqs)"
  using assms
proof (induction reqs arbitrary: s)
  case (Cons req reqs)
  show ?case
  proof (cases req)
    case (Rq_Control fd c)
    let ?m = "service_map s"
    let ?s = "s\<lparr>service_map := fst (handle_command ?m (cmd_text c))\<rparr>"
    have c: "0 \<le> fd" "cmd_ok c" "command_ok (cmd_text c)" using Cons.prems(3) Rq_Control by (cases c; simp)+
    note step = sd_step_control [OF Cons.prems(2) [symmetric] c(1,3)]
    note h = handle_command_refines [OF Cons.prems(1) c(2)]
    have "map_inv (service_map ?s)" using handle_command_inv [OF Cons.prems(1)] by simp
    from Cons.IH [OF this] Cons.prems(2,3) obtain s' where
      "centre_run ?s reqs = Some (s', snd (registry_run (map_of (service_map ?s)) reqs))"
      "map_of (service_map s') = fst (registry_run (map_of (service_map ?s)) reqs)" by auto
    then show ?thesis using h step by (simp add: Rq_Control case_prod_beta)
  next
    case (Rq_Query fd n)
    have "sd_step s (query_event fd n) = Some (s, [Sd_Write fd (handle_query (service_map s) n)])"
      using Cons.prems(3) Rq_Query by (intro sd_step_query) auto
    then show ?thesis using Cons.IH [OF Cons.prems(1,2)] Cons.prems(3)
      by (auto simp: Rq_Query handle_query_def case_prod_beta)
  next
    case (Rq_Connect fd ctl)
    obtain w acts where st: "sd_step s (event_of s (Rq_Connect fd ctl)) = Some (s\<lparr>watched := w\<rparr>, acts)" "answers_of acts = []"
      using sd_step_connect by blast
    then show ?thesis using Cons.IH [of "s\<lparr>watched := w\<rparr>"] Cons.prems by (auto simp: Rq_Connect simp del: event_of.simps)
  next
    case (Rq_Leave fd)
    obtain w where "sd_step s (event_of s (Rq_Leave fd)) = Some (s\<lparr>watched := w\<rparr>, [Sd_Close fd])"
      using sd_step_leave [of fd s] Cons.prems(3) Rq_Leave by auto
    then show ?thesis using Cons.IH [of "s\<lparr>watched := w\<rparr>"] Cons.prems by (auto simp: Rq_Leave simp del: event_of.simps)
  qed
qed simp

text \<open>
  C30. The centre implements a registry.  From start-up on, for any sequence of well-formed commands on the control port
  (each shorter than the buffer) interleaved with clients that connect, ask and leave, the table is the
  partial map the commands describe: an added or modified name has the address given last, a deleted one is gone,
  and modifying or deleting an unknown name, listing and unknown commands change nothing.  Every
  command and every query gets the answer of that registry at its place in the sequence, the list in the order of
  the names, and nothing else is answered.
\<close>

theorem centre_refines_registry:
  assumes "sd_start e = Inr s0" "sys_server_socket e \<noteq> sys_control_socket e"
    and "list_all (request_ok {sys_server_socket e, sys_control_socket e}) reqs"
  shows "\<exists>s. centre_run s0 reqs = Some (s, snd (registry_run Map.empty reqs)) \<and>
    map_of (service_map s) = fst (registry_run Map.empty reqs)"
proof -
  have s0: "service_map s0 = []" "serverSocket s0 = sys_server_socket e" "controlSocket s0 = sys_control_socket e"
    using assms(1) by (auto simp: sd_start_def Let_def split: if_splits)
  then show ?thesis using centre_run_refines [of s0 reqs] sd_reachable_inv [OF sd_init [OF assms(1)]] assms(2,3) by simp
qed

definition demo_sys :: sd_sys where
  "demo_sys = \<lparr>sys_server_socket = 3, sys_control_socket = 4, sys_bind_server = 0, sys_bind_control = 0,
     sys_listen_server = 0, sys_listen_control = 0, sys_epoll_create = 5, sys_ctl_server = 0, sys_ctl_control = 0\<rparr>"

definition demo_requests :: "sd_request list" where
  "demo_requests = [Rq_Connect 8 0, Rq_Control 7 (Reg_Add ''A'' ''1.2.3.4:5''), Rq_Control 7 (Reg_Modify ''A'' ''6.7.8.9:5''),
     Rq_Query 8 ''A'', Rq_Control 7 (Reg_Delete ''B''), Rq_Control 7 Reg_List, Rq_Leave 8, Rq_Control 7 (Reg_Delete ''A'')]"

theorem centre_refines_registry_witness:
  "\<exists>s. centre_run demo_centre demo_requests = Some (s, [(7, ''add service success''), (7, ''modify service success''),
      (8, ''6.7.8.9:5''), (7, ''service not exist''), (7, ''A 6.7.8.9:5'' @ [CHR 0x0A]), (7, ''delete service success'')]) \<and>
    map_of (service_map s) = Map.empty"
proof -
  have s: "sd_start demo_sys = Inr demo_centre" by (simp add: sd_start_def demo_sys_def demo_centre_def)
  have n: "sys_server_socket demo_sys \<noteq> sys_control_socket demo_sys" by (simp add: demo_sys_def)
  have "list_all (request_ok {sys_server_socket demo_sys, sys_control_socket demo_sys}) demo_requests"
    by (simp add: demo_requests_def demo_sys_def command_ok_def word_ok_def)
  moreover have "registry_run Map.empty demo_requests = (Map.empty, [(7, ''add service success''), (7, ''modify service success''),
      (8, ''6.7.8.9:5''), (7, ''service not exist''), (7, ''A 6.7.8.9:5'' @ [CHR 0x0A]), (7, ''delete service success'')])"
    by (simp add: demo_requests_def reg_list_def)
  ultimately show ?thesis using centre_refines_registry [OF s n] by (metis fst_conv snd_conv)
qed

text \<open>
  A control connection that sends 1024 bytes or more, or on which \<open>recv\<close> fails, makes the
  centre write outside its 1024-byte buffer, whatever its state.
\<close>

theorem control_overflow:
  assumes "ev_fd ev = controlSocket s" "controlSocket s \<noteq> serverSocket s" "ev_accept ev \<noteq> -1"
    and "case ev_recv ev of Recv_Error \<Rightarrow> True | Recv_Bytes bs \<Rightarrow> 1024 \<le> length bs"
  shows "sd_step s ev = None"
proof -
  have "recv_string 1024 (ev_recv ev) = None"
    using assms(4) by (auto simp: recv_string_def Let_def split: recv_result.splits)
  then show ?thesis using assms(1-3) by (simp add: sd_step_def)
qed

theorem control_overflow_witness:
  "sd_step demo_centre \<lparr>ev_fd = 4, ev_accept = 7, ev_ctl = 0, ev_recv = Recv_Bytes (replicate 1024 (CHR ''a''))\<rparr> = None"
  by (rule control_overflow) (simp_all add: demo_centre_def)

end
