(* ===== verification/Rpc_Dispatcher.thy ===== *)
theory Rpc_Dispatcher
  imports Tcp_Connection Rpc_Base Sd_Client
begin

text \<open>
  \<open>RpcDispatcher\<close>, \<^verbatim>\<open>net/rpc/rpc_dispatcher.{h,cc}\<close>, and the parts of \<open>TcpConnection\<close> that call it
  (\<open>excute\<close>, \<open>onRead\<close>).  A protobuf service is code the repository does not contain: it is the
  record \<open>pb_service\<close>, an argument of the definitions, with its descriptor (name and methods), the
  parsing and serialisation of its messages, and what a method does with a request.
\<close>

section \<open>Services\<close>

text \<open>
  \<open>svc_call\<close> gives the response message and whether the method runs the \<open>done\<close> closure.
\<close>

record ('req, 'rsp) pb_service =
  svc_full_name :: string
  svc_methods :: "string list"
  svc_parse :: "string \<Rightarrow> string \<Rightarrow> 'req option"
  svc_call :: "string \<Rightarrow> rpc_controller \<Rightarrow> 'req \<Rightarrow> 'rsp \<times> bool"
  svc_serialize :: "'rsp \<Rightarrow> string option"

type_synonym ('req, 'rsp) service_map = "(string \<times> ('req, 'rsp) pb_service) list"

text \<open>The dispatcher is created with no services when it is first asked for.\<close>

definition GetRpcDispatcher :: "('req, 'rsp) service_map option \<Rightarrow> ('req, 'rsp) service_map" where
  "GetRpcDispatcher g_rpc_dispatcher = (case g_rpc_dispatcher of Some d \<Rightarrow> d | None \<Rightarrow> [])"

definition parseServiceFullName :: "string \<Rightarrow> (string \<times> string) option" where
  "parseServiceFullName full_name =
     (if full_name = [] then None
      else case find_first_of (CHR ''.'') full_name of
          None \<Rightarrow> None
        | Some i \<Rightarrow> Some (substr full_name 0 i, substr full_name (i + 1) (length full_name - i - 1)))"

definition setTinyPBError :: "int \<Rightarrow> string \<Rightarrow> tiny_pb \<Rightarrow> tiny_pb" where
  "setTinyPBError err_code err_info msg =
     msg\<lparr>m_err_code := word_of_int err_code, m_err_info := err_info,
         m_err_info_len := word_of_nat (length err_info)\<rparr>"

section \<open>dispatch\<close>

text \<open>The body of the closure given to the method.\<close>

definition dispatch_closure ::
    "('req, 'rsp) pb_service \<Rightarrow> 'rsp \<Rightarrow> tiny_pb \<Rightarrow> tiny_pb" where
  "dispatch_closure service rsp_msg rsp =
     (case svc_serialize service rsp_msg of
        None \<Rightarrow> setTinyPBError ERROR_FAILED_SERIALIZE ''serilize error'' rsp
      | Some data \<Rightarrow> rsp\<lparr>m_pb_data := data, m_err_code := 0, m_err_info := []\<rparr>)"

text \<open>The controller prepared for the method.\<close>

definition dispatch_controller :: "tiny_pb \<Rightarrow> tcp_connection \<Rightarrow> rpc_controller" where
  "dispatch_controller req c =
     SetMsgId (m_msg_id req) (SetPeerAddr (getPeerAddr c) (SetLocalAddr (getLocalAddr c) RpcController_new))"

text \<open>The result: the response object, the connection and the loop, and the run time.\<close>

definition rpc_dispatch ::
    "(int \<Rightarrow> bool) \<Rightarrow> int \<Rightarrow> ('req, 'rsp) service_map \<Rightarrow> tiny_pb \<Rightarrow> tiny_pb \<Rightarrow> run_time \<Rightarrow> tcp_connection \<Rightarrow> event_loop
       \<Rightarrow> (tiny_pb \<times> tcp_connection \<times> event_loop \<times> run_time) option" where
  "rpc_dispatch fd_ok tid smap req rsp rt c l =
     (let rsp = rsp\<lparr>m_msg_id := m_msg_id req, m_method_name := m_method_name req\<rparr> in
      case parseServiceFullName (m_method_name req) of
        None \<Rightarrow> Some (setTinyPBError ERROR_PARSE_SERVICE_NAME ''parse service name error'' rsp, c, l, rt)
      | Some (service_name, method_name) \<Rightarrow>
        (case map_of smap service_name of
           None \<Rightarrow> Some (setTinyPBError ERROR_SERVICE_NOT_FOUND ''service not found'' rsp, c, l, rt)
         | Some service \<Rightarrow>
           if method_name \<notin> set (svc_methods service)
           then Some (setTinyPBError ERROR_SERVICE_NOT_FOUND ''method not found'' rsp, c, l, rt)
           else (case svc_parse service method_name (m_pb_data req) of
              None \<Rightarrow> Some (setTinyPBError ERROR_FAILED_DESERIALIZE ''deserilize error'' rsp, c, l, rt)
            | Some req_msg \<Rightarrow>
              let rt = rt\<lparr>rt_msgid := m_msg_id req, rt_method_name := method_name\<rparr>;
                  (rsp_msg, runs_done) = svc_call service method_name (dispatch_controller req c) req_msg
              in if runs_done then do {
                   let rsp = dispatch_closure service rsp_msg rsp;
                   let rt = rt\<lparr>rt_rpc_interface := None\<rparr>;
                   (c, l) \<leftarrow> reply fd_ok tid [rsp] c l;
                   Some (rsp, c, l, rt) }
                 else Some (rsp, c, l, rt))))"

section \<open>registerService\<close>

fun register_methods ::
    "(nat \<Rightarrow> sd_net) \<Rightarrow> nat \<Rightarrow> string \<Rightarrow> string \<Rightarrow> int \<Rightarrow> string list \<Rightarrow> (rc_message \<times> string list \<times> bool) list option" where
  "register_methods nets i service_name local_ip local_port [] = Some []"
| "register_methods nets i service_name local_ip local_port (m # ms) = do {
     let all_name = service_name @ ''.'' @ m;
     res \<leftarrow> add_service (nets i) all_name local_ip local_port;
     rest \<leftarrow> register_methods nets (Suc i) service_name local_ip local_port ms;
     Some (res # rest) }"

text \<open>
  \<open>control_port\<close> is the text configured for the centre's port, \<open>nets\<close> what the network does on the
  \<open>i\<close>-th connection.  The result: the service map and the messages of the centre.
\<close>

definition registerService ::
    "string \<Rightarrow> (nat \<Rightarrow> sd_net) \<Rightarrow> string \<Rightarrow> int \<Rightarrow> ('req, 'rsp) pb_service \<Rightarrow> ('req, 'rsp) service_map
       \<Rightarrow> (('req, 'rsp) service_map \<times> (rc_message \<times> string list \<times> bool) list) option" where
  "registerService control_port nets local_ip local_port service smap = do {
     let service_name = svc_full_name service;
     let smap = map_assign service_name service smap;
     _ \<leftarrow> atoi control_port;
     msgs \<leftarrow> register_methods nets 0 service_name local_ip local_port (svc_methods service);
     Some (smap, msgs) }"

section \<open>excute and onRead\<close>

fun excute_all ::
    "(int \<Rightarrow> bool) \<Rightarrow> int \<Rightarrow> ('req, 'rsp) service_map \<Rightarrow> tiny_pb list \<Rightarrow> run_time \<Rightarrow> tcp_connection \<Rightarrow> event_loop
       \<Rightarrow> (tcp_connection \<times> event_loop \<times> run_time) option" where
  "excute_all fd_ok tid smap [] rt c l = Some (c, l, rt)"
| "excute_all fd_ok tid smap (i # result) rt c l = do {
     (rsp, c, l, rt) \<leftarrow> rpc_dispatch fd_ok tid smap i TinyPBProtocol_new rt c l;
     excute_all fd_ok tid smap result rt c l }"

text \<open>
  \<open>Returns (c, l, rt, calls)\<close>: \<open>calls\<close> are the read callbacks a client connection calls.  \<open>None\<close>: the decoder
  does not return.
\<close>

definition excute ::
    "(int \<Rightarrow> bool) \<Rightarrow> int \<Rightarrow> ('req, 'rsp) service_map \<Rightarrow> run_time \<Rightarrow> tcp_connection \<Rightarrow> event_loop
       \<Rightarrow> (tcp_connection \<times> event_loop \<times> run_time \<times> (nat \<times> tiny_pb) list) outcome option" where
  "excute fd_ok tid smap rt c l = do {
     r \<leftarrow> decode [] (m_in_buffer c);
     (case r of
        Undefined \<Rightarrow> Some Undefined
      | Returns (result, ib) \<Rightarrow>
          let c = c\<lparr>m_in_buffer := ib\<rparr> in
          if conn_type c = TcpConnectionByServer then
            (case excute_all fd_ok tid smap result rt c l of
               None \<Rightarrow> Some Undefined
             | Some (c, l, rt) \<Rightarrow> Some (Returns (c, l, rt, [])))
          else
            let (calls, rd) = deliver result (m_read_dones c) in
            Some (Returns (c\<lparr>m_read_dones := rd\<rparr>, l, rt, calls))) }"

definition onRead ::
    "(int \<Rightarrow> bool) \<Rightarrow> int \<Rightarrow> ('req, 'rsp) service_map \<Rightarrow> run_time \<Rightarrow> sock_in \<Rightarrow> tcp_connection \<Rightarrow> event_loop
       \<Rightarrow> (tcp_connection \<times> event_loop \<times> run_time \<times> (nat \<times> tiny_pb) list) outcome option" where
  "onRead fd_ok tid smap rt s c l =
     (if conn_state c \<noteq> Connected then Some (Returns (c, l, rt, []))
      else do {
        r \<leftarrow> onRead_loop (m_in_buffer c) s;
        (case r of
           Undefined \<Rightarrow> Some Undefined
         | Returns (is_close, ib, s) \<Rightarrow>
             let c = c\<lparr>m_in_buffer := ib\<rparr> in
             if is_close then
               (case clear fd_ok tid c l of
                  None \<Rightarrow> Some Undefined
                | Some (c, l) \<Rightarrow> Some (Returns (c, l, rt, [])))
             else excute fd_ok tid smap rt c l) })"

section \<open>Lemmas\<close>

lemma parseServiceFullName_dot:
  assumes "CHR ''.'' \<notin> set s"
  shows "parseServiceFullName (s @ ''.'' @ m) = Some (s, m)"
  using assms by (simp add: parseServiceFullName_def substr_def)

lemma parseServiceFullName_first_dot:
  assumes "CHR ''.'' \<notin> set p"
  shows "parseServiceFullName ((p @ ''.'' @ s) @ ''.'' @ m) = Some (p, s @ ''.'' @ m)"
  using parseServiceFullName_dot [OF assms, of "s @ ''.'' @ m"] by simp

text \<open>The error a request runs into before its method is called, if any.\<close>

definition dispatch_error :: "('req, 'rsp) service_map \<Rightarrow> tiny_pb \<Rightarrow> (int \<times> string) option" where
  "dispatch_error smap req =
     (case parseServiceFullName (m_method_name req) of
        None \<Rightarrow> Some (ERROR_PARSE_SERVICE_NAME, ''parse service name error'')
      | Some (s, m) \<Rightarrow>
        (case map_of smap s of
           None \<Rightarrow> Some (ERROR_SERVICE_NOT_FOUND, ''service not found'')
         | Some service \<Rightarrow>
           if m \<notin> set (svc_methods service) then Some (ERROR_SERVICE_NOT_FOUND, ''method not found'')
           else if svc_parse service m (m_pb_data req) = None
           then Some (ERROR_FAILED_DESERIALIZE, ''deserilize error'') else None))"

text \<open>A call that succeeds: the request reaches a method that parses it, runs \<open>done\<close> and whose response serialises.\<close>

definition call_result :: "('req, 'rsp) service_map \<Rightarrow> tiny_pb \<Rightarrow> tcp_connection \<Rightarrow> string option" where
  "call_result smap req c = do {
     (s, m) \<leftarrow> parseServiceFullName (m_method_name req);
     service \<leftarrow> map_of smap s;
     req_msg \<leftarrow> (if m \<in> set (svc_methods service) then svc_parse service m (m_pb_data req) else None);
     let (rsp_msg, runs_done) = svc_call service m (dispatch_controller req c) req_msg;
     if runs_done then svc_serialize service rsp_msg else None }"

definition response_of :: "tiny_pb \<Rightarrow> string \<Rightarrow> tiny_pb" where
  "response_of req data = TinyPBProtocol_new\<lparr>m_msg_id := m_msg_id req, m_method_name := m_method_name req,
     m_pb_data := data, m_err_code := 0, m_err_info := []\<rparr>"

lemma rpc_dispatch_ok:
  assumes "call_result smap req c = Some data"
  shows "\<exists>rt'. rpc_dispatch fd_ok tid smap req TinyPBProtocol_new rt c l = do {
    (c', l') \<leftarrow> reply fd_ok tid [response_of req data] c l;
    Some (response_of req data, c', l', rt') }"
proof -
  obtain s m service req_msg rsp_msg
    where r: "parseServiceFullName (m_method_name req) = Some (s, m)" "map_of smap s = Some service"
      "m \<in> set (svc_methods service)" "svc_parse service m (m_pb_data req) = Some req_msg"
      "svc_call service m (dispatch_controller req c) req_msg = (rsp_msg, True)"
      "svc_serialize service rsp_msg = Some data"
    using assms by (auto simp: call_result_def split: Option.bind_splits if_splits prod.splits)
  then show ?thesis
    by (simp add: rpc_dispatch_def Let_def dispatch_closure_def response_of_def)
       (auto simp: bind_eq_None_conv intro!: exI)
qed

lemma rpc_dispatch_error:
  assumes "dispatch_error smap req = Some (code, reason)"
  shows "rpc_dispatch fd_ok tid smap req rsp rt c l =
    Some (setTinyPBError code reason (rsp\<lparr>m_msg_id := m_msg_id req, m_method_name := m_method_name req\<rparr>), c, l, rt)"
  using assms by (auto simp: rpc_dispatch_def dispatch_error_def Let_def split: option.splits if_splits prod.splits)

lemma encode_one:
  assumes "wire_ok m" "buf_inv b" "buf_room b (frame_size m + r)"
  shows "\<exists>b'. encode [m] b = Some ([sent m], b') \<and> buf_inv b' \<and> contents b' = contents b @ frame_bytes m \<and> buf_room b' r"
proof -
  have "buf_room b (length (frame_bytes m))" using assms(3) by (simp add: buf_room_def)
  then obtain b' where b': "writeToBuffer b (frame_bytes m) = Some b'" "buf_inv b'" "contents b' = contents b @ frame_bytes m"
    using tb.put_spec [OF assms(2)] by blast
  have "buf_room b' r" using tb.put_room [OF assms(2) _ b'(1), of r] assms(3) by simp
  moreover have "encode [m] b = Some ([sent m], b')" using encode_put_all [of "[m]" b] assms(1) b'(1) by simp
  ultimately show ?thesis using b' by blast
qed

lemma reply_one:
  assumes "conn_ready c l" "wire_ok m" "buf_room (m_out_buffer c) (frame_size m + r)"
  shows "\<exists>ob l'. reply fd_ok tid [m] c l = Some (c\<lparr>m_out_buffer := ob\<rparr>, l') \<and> conn_ready (c\<lparr>m_out_buffer := ob\<rparr>) l' \<and>
    contents ob = contents (m_out_buffer c) @ frame_bytes m \<and> buf_room ob r"
proof -
  have "buf_inv (m_out_buffer c)" using assms(1) by (simp add: conn_ready_def)
  from encode_one [OF assms(2) this assms(3)] obtain ob where ob: "encode [m] (m_out_buffer c) = Some ([sent m], ob)"
      "buf_inv ob" "contents ob = contents (m_out_buffer c) @ frame_bytes m" "buf_room ob r" by blast
  then show ?thesis using reply_ready [OF assms(1) ob(1,2), of fd_ok tid] by blast
qed

text \<open>The answer depends on the connection only through its addresses, on the request only through three fields.\<close>

lemma call_result_conn [simp]:
  "call_result smap req (c\<lparr>m_out_buffer := b\<rparr>) = call_result smap req c"
  "call_result smap req (c\<lparr>m_in_buffer := b\<rparr>) = call_result smap req c"
  by (simp_all add: call_result_def dispatch_controller_def getPeerAddr_def getLocalAddr_def)

lemma call_result_received [simp]: "call_result smap (received req) c = call_result smap req c"
  by (simp add: call_result_def dispatch_controller_def received_def cong: if_cong)

lemma response_of_received [simp]: "response_of (received req) data = response_of req data"
  by (simp add: response_of_def received_def)

abbreviation answer_bytes :: "(tiny_pb \<Rightarrow> string) \<Rightarrow> tiny_pb list \<Rightarrow> byte list" where
  "answer_bytes ans reqs \<equiv> concat (map (\<lambda>r. frame_bytes (response_of r (ans r))) reqs)"

lemma excute_all_ok:
  assumes "conn_ready c l" "\<forall>r \<in> set reqs. call_result smap r c = Some (ans r) \<and> wire_ok (response_of r (ans r))"
    and "buf_room (m_out_buffer c) (length (answer_bytes ans reqs) + n)"
  shows "\<exists>ob l' rt'. excute_all fd_ok tid smap reqs rt c l = Some (c\<lparr>m_out_buffer := ob\<rparr>, l', rt') \<and>
    conn_ready (c\<lparr>m_out_buffer := ob\<rparr>) l' \<and> contents ob = contents (m_out_buffer c) @ answer_bytes ans reqs \<and> buf_room ob n"
  using assms
proof (induction reqs arbitrary: rt c l)
  case Nil
  then show ?case by (intro exI [of _ "m_out_buffer c"] exI) simp
next
  case (Cons r reqs)
  let ?m = "response_of r (ans r)"
  obtain rt1 where rt1: "rpc_dispatch fd_ok tid smap r TinyPBProtocol_new rt c l = do {
      (c', l') \<leftarrow> reply fd_ok tid [?m] c l; Some (?m, c', l', rt1) }"
    using rpc_dispatch_ok [of smap r c "ans r" fd_ok tid rt l] Cons.prems(2) by auto
  obtain o1 l1 where o1: "reply fd_ok tid [?m] c l = Some (c\<lparr>m_out_buffer := o1\<rparr>, l1)"
      "conn_ready (c\<lparr>m_out_buffer := o1\<rparr>) l1" "contents o1 = contents (m_out_buffer c) @ frame_bytes ?m"
      "buf_room o1 (length (answer_bytes ans reqs) + n)"
    using reply_one [OF Cons.prems(1), of ?m "length (answer_bytes ans reqs) + n"] Cons.prems(2,3) by (fastforce simp: add.assoc)
  from Cons.IH [OF o1(2), of rt1] Cons.prems(2) o1(3,4) rt1 o1(1) show ?case by auto
qed

text \<open>Requests that arrive in one piece are decoded and executed, and the piece is consumed.\<close>

lemma onRead_requests:
  assumes "conn_state c = Connected" "conn_type c = TcpConnectionByServer"
    and "buf_inv (m_in_buffer c)" "contents (m_in_buffer c) = []" "reqs \<noteq> []" "\<forall>r \<in> set reqs. wire_ok r"
    and "length (concat (map frame_bytes reqs)) < length (m_buffer (m_in_buffer c)) - m_write_index (m_in_buffer c)"
  shows "\<exists>ib ib'. onRead_loop (m_in_buffer c) \<lparr>si_chunks = [concat (map frame_bytes reqs)], si_end = At_Again\<rparr> =
      Some (Returns (False, ib, \<lparr>si_chunks = [], si_end = At_Again\<rparr>)) \<and>
    buf_inv ib' \<and> contents ib' = [] \<and> onRead fd_ok tid smap rt \<lparr>si_chunks = [concat (map frame_bytes reqs)], si_end = At_Again\<rparr> c l =
      (case excute_all fd_ok tid smap (map received reqs) rt (c\<lparr>m_in_buffer := ib'\<rparr>) l of
         None \<Rightarrow> Some Undefined | Some (c, l, rt) \<Rightarrow> Some (Returns (c, l, rt, [])))"
proof -
  let ?bs = "concat (map frame_bytes reqs)" and ?k = "length (m_buffer (m_in_buffer c)) - m_write_index (m_in_buffer c)"
  have ne: "?bs \<noteq> []" using assms(5) by (cases reqs) auto
  then have k: "0 < ?k" "length ?bs < ?k" using assms(7) by linarith+
  obtain ib where ib: "onRead_loop (m_in_buffer c) \<lparr>si_chunks = [?bs], si_end = At_Again\<rparr> =
      Some (Returns (False, ib, \<lparr>si_chunks = [], si_end = At_Again\<rparr>))" "buf_inv ib" "contents ib = ?bs"
      "m_write_index ib < length (m_buffer ib)"
    using onRead_loop_chunk [OF assms(3) refl _ ne] assms(4) k by auto
  obtain ib' where "decode [] ib = Some (Returns (map received reqs, ib'))" "buf_inv ib'" "contents ib' = []"
    using decode_all [OF _ ib(2,4,3), of "[]"] assms(6) by auto
  then show ?thesis using ib(1) assms(1,2) by (auto simp: onRead_def excute_def intro!: exI [of _ ib'])
qed

section \<open>Properties\<close>

text \<open>
  The server's path from bytes to bytes: when the frames of a batch of well-formed requests arrive (in
  one piece that fits the input buffer) and each request names a registered service and
  method that answers it, \<open>onRead\<close> returns and the output buffer holds, in order, exactly one
  response frame per request, carrying the request's message id and method name, error code 0 and the
  serialised response.
\<close>

theorem server_answers_requests:
  assumes "conn_ready c l" "buf_inv (m_in_buffer c)" "contents (m_in_buffer c) = []" "reqs \<noteq> []"
    and "\<forall>r \<in> set reqs. wire_ok r \<and> call_result smap r c = Some (ans r) \<and> wire_ok (response_of r (ans r))"
    and "length (concat (map frame_bytes reqs)) < length (m_buffer (m_in_buffer c)) - m_write_index (m_in_buffer c)"
    and "buf_room (m_out_buffer c) (length (concat (map (\<lambda>r. frame_bytes (response_of r (ans r))) reqs)))"
  shows "\<exists>c' l' rt'. onRead fd_ok tid smap rt \<lparr>si_chunks = [concat (map frame_bytes reqs)], si_end = At_Again\<rparr> c l =
      Some (Returns (c', l', rt', [])) \<and> conn_ready c' l' \<and> contents (m_in_buffer c') = [] \<and>
    contents (m_out_buffer c') = contents (m_out_buffer c) @ concat (map (\<lambda>r. frame_bytes (response_of r (ans r))) reqs)"
proof -
  obtain ib' where ib': "onRead fd_ok tid smap rt \<lparr>si_chunks = [concat (map frame_bytes reqs)], si_end = At_Again\<rparr> c l =
      (case excute_all fd_ok tid smap (map received reqs) rt (c\<lparr>m_in_buffer := ib'\<rparr>) l of
         None \<Rightarrow> Some Undefined | Some (c, l, rt) \<Rightarrow> Some (Returns (c, l, rt, [])))" "contents ib' = []"
    using onRead_requests [OF _ _ assms(2-4) _ assms(6)] assms(1,5) by (fastforce simp: conn_ready_def)
  let ?c = "c\<lparr>m_in_buffer := ib'\<rparr>" and ?ans = "\<lambda>r. the (call_result smap r c)"
  have r: "conn_ready ?c l" using assms(1) by (simp add: conn_ready_def)
  have a: "map (\<lambda>r. frame_bytes (response_of r (?ans r))) (map received reqs) =
      map (\<lambda>r. frame_bytes (response_of r (ans r))) reqs"
    using assms(5) by simp
  obtain ob l' rt' where e: "excute_all fd_ok tid smap (map received reqs) rt ?c l = Some (?c\<lparr>m_out_buffer := ob\<rparr>, l', rt')"
      "conn_ready (?c\<lparr>m_out_buffer := ob\<rparr>) l'"
      "contents ob = contents (m_out_buffer c) @ concat (map (\<lambda>r. frame_bytes (response_of r (ans r))) reqs)"
    using excute_all_ok [OF r, of "map received reqs" smap ?ans 0 fd_ok tid rt] assms(5,7) unfolding a by auto
  then show ?thesis using ib' by auto
qed

text \<open>A service like the repository's example: \<open>Order.makeOrder\<close> echoes its argument.\<close>

definition demo_service :: "(string, string) pb_service" where
  "demo_service = \<lparr>svc_full_name = ''Order'', svc_methods = [''makeOrder'', ''queryOrder''],
     svc_parse = (\<lambda>m s. Some s), svc_call = (\<lambda>m ctl r. (r, True)), svc_serialize = Some\<rparr>"

lemma demo_call:
  "call_result [(''Order'', demo_service)] demo_msg demo_conn = Some (m_pb_data demo_msg)"
  by (simp add: call_result_def demo_msg_def TinyPBProtocol_new_def parseServiceFullName_def find_first_of_def
      substr_def demo_service_def)

lemma demo_response_ok: "wire_ok (response_of demo_msg (m_pb_data demo_msg))"
  "frame_size (response_of demo_msg (m_pb_data demo_msg)) = 45"
  by (simp_all add: response_of_def demo_msg_def TinyPBProtocol_new_def wire_ok_def frame_size_def)

definition demo_conn_1k :: tcp_connection where
  "demo_conn_1k = demo_conn\<lparr>m_in_buffer := (demo_buffer [])\<lparr>m_buffer := replicate 1024 NUL\<rparr>\<rparr>"

theorem server_answers_requests_witness:
  "\<exists>c' l' rt'. onRead (\<lambda>fd. True) 1 [(''Order'', demo_service)] RunTime_new
      \<lparr>si_chunks = [concat (map frame_bytes [demo_msg])], si_end = At_Again\<rparr> demo_conn_1k demo_loop =
      Some (Returns (c', l', rt', [])) \<and> conn_ready c' l' \<and> contents (m_in_buffer c') = [] \<and>
    contents (m_out_buffer c') = contents (m_out_buffer demo_conn_1k) @
      concat (map (\<lambda>r. frame_bytes (response_of r (m_pb_data r))) [demo_msg])"
proof (rule server_answers_requests)
  show "conn_ready demo_conn_1k demo_loop"
    using demo_conn_ready by (simp add: conn_ready_def demo_conn_1k_def)
  show "buf_inv (m_in_buffer demo_conn_1k)" "contents (m_in_buffer demo_conn_1k) = []"
    by (simp_all add: demo_conn_1k_def demo_buffer_def buf_inv_def contents_def)
  show "length (concat (map frame_bytes [demo_msg])) <
      length (m_buffer (m_in_buffer demo_conn_1k)) - m_write_index (m_in_buffer demo_conn_1k)"
    by (simp add: demo_conn_1k_def demo_buffer_def frame_size_demo_msg)
  show "buf_room (m_out_buffer demo_conn_1k)
      (length (concat (map (\<lambda>r. frame_bytes (response_of r (m_pb_data r))) [demo_msg])))"
    by (simp add: demo_conn_1k_def demo_conn_def demo_buffer_def demo_response_ok buf_room_def)
  show "\<forall>r \<in> set [demo_msg]. wire_ok r \<and> call_result [(''Order'', demo_service)] r demo_conn_1k = Some (m_pb_data r) \<and>
      wire_ok (response_of r (m_pb_data r))"
    using demo_call demo_response_ok(1) demo_msg_wire_ok by (simp add: demo_conn_1k_def)
qed simp

text \<open>
  C36. Requests that fail before their method is called (no dot in the name, unknown service, unknown
  method, undecodable argument) leave the connection untouched: the error is recorded in the
  response object, but no response is sent, so the client learns of it only by its timeout.
\<close>

theorem failed_requests_get_no_reply:
  assumes "\<forall>r \<in> set reqs. dispatch_error smap r \<noteq> None"
  shows "excute_all fd_ok tid smap reqs rt c l = Some (c, l, rt)"
  using assms
proof (induction reqs)
  case Nil
  show ?case by simp
next
  case (Cons r reqs)
  then obtain code reason where "dispatch_error smap r = Some (code, reason)" by auto
  from rpc_dispatch_error [OF this, of fd_ok tid TinyPBProtocol_new rt c l] Cons show ?case by simp
qed

theorem failed_requests_get_no_reply_witness:
  "excute_all (\<lambda>fd. True) 1 ([] :: (string, string) service_map) [demo_msg] RunTime_new demo_conn demo_loop =
     Some (demo_conn, demo_loop, RunTime_new)"
  by (rule failed_requests_get_no_reply)
     (simp add: dispatch_error_def parseServiceFullName_def demo_msg_def TinyPBProtocol_new_def find_first_of_def)

text \<open>
  A service in a protobuf package is registered under its qualified name, but a request is split at its
  first dot: a method of service \<open>p.s\<close> is looked up in a service \<open>p\<close>, so it is answered with \<open>service not
  found\<close> unless a service of that name exists.
\<close>

theorem packaged_service_not_found:
  assumes "CHR ''.'' \<notin> set p" "svc_full_name service = p @ ''.'' @ s"
    and "registerService port nets ip lport service smap = Some (smap', msgs)" "map_of smap p = None"
    and "m_method_name req = svc_full_name service @ ''.'' @ m"
  shows "map_of smap' (svc_full_name service) = Some service \<and>
    dispatch_error smap' req = Some (ERROR_SERVICE_NOT_FOUND, ''service not found'')"
proof -
  have s: "smap' = map_assign (svc_full_name service) service smap"
    using assms(3) by (auto simp: registerService_def Let_def split: Option.bind_splits)
  have "p \<noteq> svc_full_name service" using assms(2) by simp
  then have "map_of smap' p = None" using assms(4) by (simp add: s)
  then show ?thesis
    using parseServiceFullName_first_dot [OF assms(1), of s m] assms(2,5) by (simp add: s dispatch_error_def)
qed

theorem packaged_service_not_found_witness:
  "\<exists>smap'. map_of smap' ''shop.Order'' = Some (demo_service\<lparr>svc_full_name := ''shop.Order'', svc_methods := []\<rparr>) \<and>
    dispatch_error smap' (demo_msg\<lparr>m_method_name := ''shop.Order.makeOrder''\<rparr>) =
      Some (ERROR_SERVICE_NOT_FOUND, ''service not found'')"
proof -
  let ?s = "demo_service\<lparr>svc_full_name := ''shop.Order'', svc_methods := []\<rparr>"
  obtain smap' where "registerService ''9090'' (\<lambda>_. net_up []) ''127.0.0.1'' 80 ?s [] = Some (smap', [])"
    by (simp add: registerService_def talon_eval)
  from packaged_service_not_found [OF _ _ this, of "''shop''" "''Order''" "demo_msg\<lparr>m_method_name := ''shop.Order.makeOrder''\<rparr>" "''makeOrder''"]
  show ?thesis by auto
qed

text \<open>
  The effect of the texts a node writes on the centre's map, in order.  Texts that fit the centre's receive buffer
  have this effect through its event loop (\<open>centre_after_steps\<close>).
\<close>

definition centre_after :: "(string \<times> string) list \<Rightarrow> (rc_message \<times> string list \<times> bool) list \<Rightarrow> (string \<times> string) list" where
  "centre_after m msgs = foldl (\<lambda>m cmd. fst (handle_command m cmd)) m (concat (map (fst \<circ> snd) msgs))"

lemma sd_steps_commands:
  "controlSocket s \<noteq> serverSocket s \<Longrightarrow> 0 \<le> fd \<Longrightarrow> list_all command_ok cmds \<Longrightarrow>
   \<exists>s'. sd_steps s (map (control_event s fd) cmds) = Some s' \<and>
     service_map s' = foldl (\<lambda>m cmd. fst (handle_command m cmd)) (service_map s) cmds"
proof (induction cmds arbitrary: s)
  case (Cons cmd cmds)
  let ?s = "s\<lparr>service_map := fst (handle_command (service_map s) cmd)\<rparr>"
  have e: "control_event ?s fd = control_event s fd" by (simp add: control_event_def fun_eq_iff)
  show ?case using Cons.IH [of ?s] Cons.prems sd_step_control [of s fd cmd] by (simp add: e)
qed simp

lemma centre_after_steps:
  assumes "controlSocket s \<noteq> serverSocket s" "0 \<le> fd" "list_all command_ok (concat (map (fst \<circ> snd) msgs))"
  shows "\<exists>s'. sd_steps s (map (control_event s fd) (concat (map (fst \<circ> snd) msgs))) = Some s' \<and>
    service_map s' = centre_after (service_map s) msgs"
  using sd_steps_commands [OF assms] by (simp add: centre_after_def)

lemma register_methods_texts:
  assumes "\<forall>i. nets i = net_up ''add service success''"
  shows "\<exists>msgs. register_methods nets i sn ip port ms = Some msgs \<and> (\<forall>r \<in> set msgs. rc_is_success (fst r)) \<and>
    (\<forall>m. centre_after m msgs = sdr.register_all (map (\<lambda>x. sn @ ''.'' @ x) ms) (ip @ '':'' @ to_string port) m)"
proof (induction ms arbitrary: i)
  case Nil
  show ?case by (simp add: centre_after_def)
next
  case (Cons x ms)
  let ?t = "''add '' @ (sn @ ''.'' @ x) @ '' '' @ (ip @ '':'' @ to_string port)"
  obtain msgs where msgs: "register_methods nets (Suc i) sn ip port ms = Some msgs" "\<forall>r \<in> set msgs. rc_is_success (fst r)"
      "\<And>m. centre_after m msgs = sdr.register_all (map (\<lambda>x. sn @ ''.'' @ x) ms) (ip @ '':'' @ to_string port) m"
    using Cons.IH by blast
  have a: "add_service (nets i) (sn @ ''.'' @ x) ip port =
      Some (\<lparr>rc_info = ''add service success'', rc_is_success = True\<rparr>, [?t], True)"
    using assms add_service_text [of "''add service success''" "sn @ ''.'' @ x" ip port]
    by (simp add: reply_ok_def)
  have "centre_after m ((\<lparr>rc_info = ''add service success'', rc_is_success = True\<rparr>, [?t], True) # msgs) =
      centre_after (sd_register (sn @ ''.'' @ x) (ip @ '':'' @ to_string port) m) msgs" for m
    by (simp add: centre_after_def sd_register_def)
  then show ?case using a msgs by (auto simp: Let_def)
qed

text \<open>
  C8. \<open>registerService\<close> makes every method of the service discoverable: after the centre has executed the
  texts written by the node, each name \<open>service.method\<close> resolves to the node's \<open>ip:port\<close>, every other
  name as before, and locally the service is found under its full name.
\<close>

theorem registerService_publishes_methods:
  assumes "\<forall>i. nets i = net_up ''add service success''" "atoi control_port = Some p"
    and "word_ok (svc_full_name service)" "\<forall>m \<in> set (svc_methods service). word_ok m"
  shows "\<exists>smap' msgs. registerService control_port nets ip port service smap = Some (smap', msgs) \<and>
    map_of smap' (svc_full_name service) = Some service \<and>
    (\<forall>k. map_of (centre_after m msgs) k =
       (if k \<in> (\<lambda>x. svc_full_name service @ ''.'' @ x) ` set (svc_methods service)
        then Some (ip @ '':'' @ to_string port) else map_of m k))"
proof -
  let ?names = "map (\<lambda>x. svc_full_name service @ ''.'' @ x) (svc_methods service)"
  obtain msgs where msgs: "register_methods nets 0 (svc_full_name service) ip port (svc_methods service) = Some msgs"
      "\<And>m. centre_after m msgs = sdr.register_all ?names (ip @ '':'' @ to_string port) m"
    using register_methods_texts [OF assms(1)] by blast
  have "\<forall>n \<in> set ?names. word_ok n" using assms(3,4) by (auto simp: word_ok_def)
  then have "map_of (centre_after m msgs) k =
      (if k \<in> set ?names then Some (ip @ '':'' @ to_string port) else map_of m k)" for k
    unfolding msgs(2) by (rule sdr.resolve_register_all)
  then show ?thesis using msgs(1) assms(2) by (simp add: registerService_def)
qed

theorem registerService_publishes_methods_witness:
  "\<exists>smap' msgs. registerService ''9090'' (\<lambda>i. net_up ''add service success'') ''127.0.0.1'' 12345 demo_service [] = Some (smap', msgs) \<and>
    map_of smap' (svc_full_name demo_service) = Some demo_service \<and>
    (\<forall>k. map_of (centre_after [] msgs) k =
       (if k \<in> (\<lambda>x. svc_full_name demo_service @ ''.'' @ x) ` set (svc_methods demo_service)
        then Some (''127.0.0.1'' @ '':'' @ to_string 12345) else map_of [] k))"
  by (rule registerService_publishes_methods [where p = 9090])
     (simp_all add: talon_eval demo_service_def word_ok_def)

end
