(* ===== verification/Msg_Id.thy ===== *)
theory Msg_Id
  imports Talon_Prelude
begin

text \<open>
  Message ids, \<^verbatim>\<open>net/rpc/msg_id_util.cc\<close>: \<open>MsgIDUtil::GenMsgID\<close> with its two thread-local strings and
  the shared descriptor of \<^verbatim>\<open>/dev/urandom\<close>.  What \<open>open\<close> and \<open>read\<close> return is an argument.
\<close>

section \<open>State and operation\<close>

abbreviation g_msg_id_length :: nat where "g_msg_id_length \<equiv> 20"

record msg_id_state =
  t_msg_id_no :: string
  t_max_msg_id_no :: string
  g_random_fd :: int

record urandom =
  ur_open :: int
  ur_read :: "byte list option"

definition msg_id_init :: msg_id_state where
  "msg_id_init = \<lparr>t_msg_id_no = [], t_max_msg_id_no = [], g_random_fd = -1\<rparr>"

text \<open>\<open>while (t_msg_id_no[i] == '9') i--\<close>; \<open>i\<close> is unsigned, below 0 the index is out of range.\<close>

fun skip_nines :: "string \<Rightarrow> nat \<Rightarrow> nat option" where
  "skip_nines s i =
     (if s ! i = CHR ''9'' then (if i = 0 then None else skip_nines s (i - 1)) else Some i)"

declare skip_nines.simps [simp del]

definition increment_id :: "string \<Rightarrow> string option" where
  "increment_id s = do {
     i \<leftarrow> skip_nines s (length s - 1);
     let s1 = s[i := char_of ((of_char (s ! i) :: nat) + 1)];
     Some (take (i + 1) s1 @ replicate (length s - (i + 1)) (CHR ''0'')) }"

definition random_digit :: "byte \<Rightarrow> char" where
  "random_digit b = char_of ((of_char b :: nat) mod 10 + 48)"

definition GenMsgID :: "urandom \<Rightarrow> msg_id_state \<Rightarrow> (string \<times> msg_id_state) option" where
  "GenMsgID env st =
     (if t_msg_id_no st = [] \<or> t_msg_id_no st = t_max_msg_id_no st then
        let st1 = (if g_random_fd st = -1 then st\<lparr>g_random_fd := ur_open env\<rparr> else st);
            res = (case ur_read env of None \<Rightarrow> [] | Some bs \<Rightarrow> take g_msg_id_length bs) in
        if length res \<noteq> g_msg_id_length then Some ([], st1)
        else
          let res = map random_digit res in
          Some (res, st1\<lparr>t_msg_id_no := res,
            t_max_msg_id_no := t_max_msg_id_no st1 @ replicate g_msg_id_length (CHR ''9'')\<rparr>)
      else do {
        s \<leftarrow> increment_id (t_msg_id_no st);
        Some (s, st\<lparr>t_msg_id_no := s\<rparr>) })"

fun gen_ids :: "urandom list \<Rightarrow> msg_id_state \<Rightarrow> (string list \<times> msg_id_state) option" where
  "gen_ids [] st = Some ([], st)"
| "gen_ids (env # envs) st = do {
     (x, st1) \<leftarrow> GenMsgID env st;
     (xs, st2) \<leftarrow> gen_ids envs st1;
     Some (x # xs, st2) }"

section \<open>Lemmas\<close>

definition is_id :: "string \<Rightarrow> bool" where
  "is_id s \<longleftrightarrow> length s = g_msg_id_length \<and> (\<forall>c \<in> set s. is_digit c)"

definition id_value :: "string \<Rightarrow> nat" where
  "id_value s = digits_value s"

lemma digits_value_snoc_append:
  "digits_value (a @ b) = digits_value a * 10 ^ length b + digits_value b"
proof (induction b rule: rev_induct)
  case Nil
  show ?case by (simp add: digits_value_def)
next
  case (snoc c b)
  then show ?case
    using digits_value_append [of "a @ b" c] digits_value_append [of b c]
    by (simp add: algebra_simps)
qed

lemma digits_value_single: "digits_value [c] = digit_value c"
  by (simp add: digits_value_def)

lemma digits_value_nines: "digits_value (replicate k (CHR ''9'')) + 1 = 10 ^ k"
proof (induction k)
  case 0
  show ?case by (simp add: digits_value_def)
next
  case (Suc k)
  have "digits_value (CHR ''9'' # replicate k (CHR ''9'')) =
      9 * 10 ^ k + digits_value (replicate k (CHR ''9''))"
    using digits_value_snoc_append [of "[CHR ''9'']" "replicate k (CHR ''9'')"]
    by (simp add: digits_value_single digit_value_def)
  with Suc show ?case by simp
qed

lemma digits_value_zeros: "digits_value (replicate k (CHR ''0'')) = 0"
  by (induction k) (simp_all add: digits_value_def digit_value_def)

lemma skip_nines_all: "skip_nines (replicate n (CHR ''9'')) i = None" if "i < n"
  using that
proof (induction i)
  case 0
  then show ?case by (simp add: skip_nines.simps)
next
  case (Suc i)
  then show ?case by (simp add: skip_nines.simps [of _ "Suc i"])
qed

text \<open>The decimal digits split at the last one that is not \<open>9\<close>.\<close>

lemma skip_nines_split:
  "c \<noteq> CHR ''9'' \<Longrightarrow> k \<le> m \<Longrightarrow>
   skip_nines (a @ c # replicate m (CHR ''9'')) (length a + k) = Some (length a)"
proof (induction k)
  case 0
  then show ?case by (simp add: skip_nines.simps)
next
  case (Suc k)
  then show ?case by (simp add: skip_nines.simps [of _ "Suc (length a + k)"] nth_append)
qed

lemma split_last_non_nine:
  "s \<noteq> replicate (length s) (CHR ''9'') \<Longrightarrow>
   \<exists>a c k. s = a @ c # replicate k (CHR ''9'') \<and> c \<noteq> CHR ''9''"
proof (induction s rule: rev_induct)
  case Nil
  then show ?case by simp
next
  case (snoc x s)
  show ?case
  proof (cases "x = CHR ''9''")
    case False
    then have "s @ [x] = s @ x # replicate 0 (CHR ''9'') \<and> x \<noteq> CHR ''9''" by simp
    then show ?thesis by blast
  next
    case True
    then have "s \<noteq> replicate (length s) (CHR ''9'')"
      using snoc.prems by (metis length_append_singleton replicate_Suc replicate_append_same)
    then obtain a c k where "s = a @ c # replicate k (CHR ''9'')" "c \<noteq> CHR ''9''"
      using snoc.IH by blast
    then have "s @ [x] = a @ c # replicate (Suc k) (CHR ''9'') \<and> c \<noteq> CHR ''9''"
      using True by (simp add: replicate_append_same)
    then show ?thesis by blast
  qed
qed

lemma increment_id_split:
  assumes "c \<noteq> CHR ''9''"
  shows "increment_id (a @ c # replicate k (CHR ''9'')) =
    Some (a @ char_of ((of_char c :: nat) + 1) # replicate k (CHR ''0''))"
  using skip_nines_split [OF assms, of k k a] by (simp add: increment_id_def nth_append)

lemma digit_below_nine:
  assumes "is_digit c" "c \<noteq> CHR ''9''"
  shows "is_digit (char_of ((of_char c :: nat) + 1))"
    "digit_value (char_of ((of_char c :: nat) + 1)) = digit_value c + 1"
proof -
  have "of_char c \<noteq> (57 :: nat)"
  proof
    assume "of_char c = (57 :: nat)"
    then have "c = char_of (57 :: nat)" by (metis char_of_char)
    then show False using assms(2) by (simp add: char_of_def bit_Suc_0_iff)
  qed
  then have b: "(48 :: nat) \<le> of_char c" "of_char c < (57 :: nat)"
    using assms(1) by (auto simp: is_digit_def)
  then have v: "of_char (char_of ((of_char c :: nat) + 1)) = (of_char c :: nat) + 1" by simp
  show "is_digit (char_of ((of_char c :: nat) + 1))" using b v by (simp add: is_digit_def)
  show "digit_value (char_of ((of_char c :: nat) + 1)) = digit_value c + 1"
    using b v by (simp add: digit_value_def)
qed

lemma increment_id_value:
  assumes "is_id s" "s \<noteq> replicate 20 (CHR ''9'')"
  shows "\<exists>s'. increment_id s = Some s' \<and> is_id s' \<and> id_value s' = id_value s + 1"
proof -
  obtain a c k where s: "s = a @ c # replicate k (CHR ''9'')" and c: "c \<noteq> CHR ''9''"
    using split_last_non_nine [of s] assms by (auto simp: is_id_def)
  have d: "is_digit c" using assms(1) s by (simp add: is_id_def)
  let ?c = "char_of ((of_char c :: nat) + 1)"
  let ?s = "a @ ?c # replicate k (CHR ''0'')"
  have z: "is_digit (CHR ''0'')" by (simp add: is_digit_def)
  have "is_id ?s" using assms(1) s digit_below_nine(1) [OF d c] z by (auto simp: is_id_def)
  moreover have "id_value ?s = id_value s + 1"
  proof -
    have v: "digits_value (a @ x # t) = (digits_value a * 10 + digit_value x) * 10 ^ length t + digits_value t"
      for x t
      using digits_value_snoc_append [of "a @ [x]" t] digits_value_append [of a x] by (simp add: mult.commute)
    show ?thesis
      using digits_value_nines [of k] digit_below_nine(2) [OF d c]
      by (simp add: id_value_def s v digits_value_zeros algebra_simps)
  qed
  ultimately show ?thesis using increment_id_split [OF c, of a k] s by simp
qed

lemma id_value_nines: "is_id s \<Longrightarrow> id_value s + 1 < 10 ^ 20 \<Longrightarrow> s \<noteq> replicate 20 (CHR ''9'')"
  using digits_value_nines [of 20] by (auto simp: id_value_def)

section \<open>Properties\<close>

definition id_inv :: "msg_id_state \<Rightarrow> bool" where
  "id_inv st \<longleftrightarrow> is_id (t_msg_id_no st) \<and> (\<exists>k. t_max_msg_id_no st = replicate k (CHR ''9''))"

lemma GenMsgID_increments:
  assumes "id_inv st" "id_value (t_msg_id_no st) + 1 < 10 ^ 20"
  shows "\<exists>x. GenMsgID env st = Some (x, st\<lparr>t_msg_id_no := x\<rparr>) \<and> is_id x \<and>
    id_value x = id_value (t_msg_id_no st) + 1"
proof -
  have i: "is_id (t_msg_id_no st)" using assms(1) by (simp add: id_inv_def)
  have n: "t_msg_id_no st \<noteq> replicate 20 (CHR ''9'')" using id_value_nines [OF i assms(2)] .
  then have "t_msg_id_no st \<noteq> t_max_msg_id_no st" "t_msg_id_no st \<noteq> []"
    using assms(1) i by (auto simp: id_inv_def is_id_def)
  then show ?thesis using increment_id_value [OF i n] by (auto simp: GenMsgID_def)
qed

lemma gen_ids_increments:
  assumes "id_inv st" "id_value (t_msg_id_no st) + length envs < 10 ^ 20"
  shows "\<exists>xs st'. gen_ids envs st = Some (xs, st') \<and> (\<forall>x \<in> set xs. is_id x) \<and>
      map id_value xs = map (\<lambda>k. id_value (t_msg_id_no st) + k) [1 ..< length envs + 1]"
  using assms
proof (induction envs arbitrary: st)
  case Nil
  then show ?case by simp
next
  case (Cons env envs)
  then have "id_value (t_msg_id_no st) + 1 < 10 ^ 20" by simp
  from GenMsgID_increments [OF Cons.prems(1) this] obtain x
    where x: "GenMsgID env st = Some (x, st\<lparr>t_msg_id_no := x\<rparr>)" "is_id x"
      "id_value x = id_value (t_msg_id_no st) + 1" by blast
  have "id_inv (st\<lparr>t_msg_id_no := x\<rparr>)" using Cons.prems(1) x(2) by (simp add: id_inv_def)
  from Cons.IH [OF this] Cons.prems(2) x(3) obtain xs st'
    where xs: "gen_ids envs (st\<lparr>t_msg_id_no := x\<rparr>) = Some (xs, st')" "\<forall>y \<in> set xs. is_id y"
      "map id_value xs = map (\<lambda>k. id_value x + k) [1 ..< length envs + 1]" by auto
  have "[1 ..< length (env # envs) + 1] = 1 # map Suc [1 ..< length envs + 1]"
    by (simp only: map_Suc_upt list.size) (simp add: upt_conv_Cons del: upt_Suc)
  then show ?case using x xs by (simp del: upt_Suc)
qed

lemma random_digit_digit: "is_digit (random_digit b)"
proof -
  have "(of_char b :: nat) mod 10 < 10" by simp
  then have "of_char (random_digit b) = (of_char b :: nat) mod 10 + 48"
    by (simp add: random_digit_def)
  then show ?thesis by (simp add: is_digit_def)
qed

lemma GenMsgID_fresh:
  assumes "t_msg_id_no st = [] \<or> t_msg_id_no st = t_max_msg_id_no st"
    and "ur_read env = Some bs" "20 \<le> length bs"
  shows "\<exists>st'. GenMsgID env st = Some (map random_digit (take 20 bs), st') \<and>
    t_msg_id_no st' = map random_digit (take 20 bs) \<and> is_id (t_msg_id_no st') \<and>
    t_max_msg_id_no st' = t_max_msg_id_no st @ replicate 20 (CHR ''9'')"
  using assms random_digit_digit by (auto simp: GenMsgID_def Let_def is_id_def)

text \<open>
  C24. The first call yields an id of twenty decimal digits, and each further call the decimal
  successor of the previous id, so the ids of one thread do not repeat before
  \<open>99999999999999999999\<close> is reached; no call indexes outside the string until then.
\<close>

theorem GenMsgID_counts_up:
  assumes "ur_read env = Some bs" "20 \<le> length bs"
    and "id_value (map random_digit (take 20 bs)) + length envs < 10 ^ 20"
  shows "\<exists>xs st'. gen_ids (env # envs) msg_id_init = Some (xs, st') \<and>
    (\<forall>x \<in> set xs. is_id x) \<and> distinct xs \<and>
    map id_value xs = map (\<lambda>k. id_value (map random_digit (take 20 bs)) + k) [0 ..< length envs + 1]"
proof -
  let ?x = "map random_digit (take 20 bs)"
  obtain st where st: "GenMsgID env msg_id_init = Some (?x, st)" "t_msg_id_no st = ?x" "is_id ?x"
      "t_max_msg_id_no st = replicate 20 (CHR ''9'')"
    using GenMsgID_fresh [OF _ assms(1,2), of msg_id_init] by (auto simp: msg_id_init_def)
  then have "id_inv st" by (auto simp: id_inv_def)
  from gen_ids_increments [OF this, of envs] assms(3) st(2) obtain xs st'
    where xs: "gen_ids envs st = Some (xs, st')" "\<forall>x \<in> set xs. is_id x"
      "map id_value xs = map (\<lambda>k. id_value ?x + k) [1 ..< length envs + 1]" by auto
  have v: "map id_value (?x # xs) = map (\<lambda>k. id_value ?x + k) [0 ..< length envs + 1]"
    using xs(3) by (simp add: upt_conv_Cons del: upt_Suc)
  have "distinct (map id_value (?x # xs))" unfolding v by (simp add: distinct_map inj_on_def)
  then have "distinct (?x # xs)" by (simp only: distinct_map)
  moreover have "gen_ids (env # envs) msg_id_init = Some (?x # xs, st')" using st(1) xs(1) by simp
  ultimately show ?thesis using v xs(2) st(3) by (intro exI [of _ "?x # xs"] exI [of _ st']) simp
qed

theorem GenMsgID_counts_up_witness:
  "\<exists>xs st'. gen_ids (\<lparr>ur_open = 5, ur_read = Some (replicate 20 (CHR ''2''))\<rparr> #
      replicate 3 \<lparr>ur_open = 5, ur_read = None\<rparr>) msg_id_init = Some (xs, st') \<and> distinct xs \<and>
    map id_value xs = map (\<lambda>k. id_value (map random_digit (take 20 (replicate 20 (CHR ''2'')))) + k)
      [0 ..< length (replicate 3 \<lparr>ur_open = 5, ur_read = None\<rparr>) + 1]"
proof -
  have "random_digit (CHR ''2'') = CHR ''0''" by (simp add: random_digit_def char_of_def bit_Suc_0_iff)
  then have "id_value (map random_digit (take 20 (replicate 20 (CHR ''2'')))) +
      length (replicate 3 \<lparr>ur_open = 5, ur_read = None\<rparr>) < 10 ^ 20"
    by (simp only: take_replicate map_replicate id_value_def digits_value_zeros) simp
  from GenMsgID_counts_up [OF _ _ this, of "\<lparr>ur_open = 5, ur_read = Some (replicate 20 (CHR ''2''))\<rparr>"]
  show ?thesis by (metis length_replicate order_refl urandom.select_convs(2))
qed

text \<open>
  When the ids wrap for the first time, a new random id is drawn, but the end marker
  \<open>t_max_msg_id_no\<close> grows to forty digits; from then on the twenty-digit id of nines is not
  recognised as the last one and the next call indexes below the start of the string.
\<close>

theorem GenMsgID_second_wrap_undefined:
  assumes "t_msg_id_no st = replicate 20 (CHR ''9'')" "t_max_msg_id_no st = replicate 20 (CHR ''9'')"
    and "ur_read env = Some bs" "20 \<le> length bs"
  shows "\<exists>st'. GenMsgID env st = Some (map random_digit (take 20 bs), st') \<and>
    t_max_msg_id_no st' = replicate 40 (CHR ''9'') \<and>
    GenMsgID env' (st'\<lparr>t_msg_id_no := replicate 20 (CHR ''9'')\<rparr>) = None"
proof -
  obtain st' where st': "GenMsgID env st = Some (map random_digit (take 20 bs), st')"
      "t_max_msg_id_no st' = replicate 20 (CHR ''9'') @ replicate 20 (CHR ''9'')"
    using GenMsgID_fresh [OF _ assms(3,4), of st] assms(1,2) by auto
  have m: "t_max_msg_id_no st' = replicate 40 (CHR ''9'')"
    unfolding st'(2) by (simp flip: replicate_add)
  have "increment_id (replicate 20 (CHR ''9'')) = None"
    by (simp add: increment_id_def skip_nines_all)
  moreover have "replicate 20 (CHR ''9'') \<noteq> replicate 40 (CHR ''9'')"
    by (rule notI, drule arg_cong [of _ _ length]) simp
  ultimately show ?thesis using st'(1) m by (auto simp: GenMsgID_def)
qed

theorem GenMsgID_second_wrap_undefined_witness:
  "\<exists>st'. GenMsgID \<lparr>ur_open = 5, ur_read = Some (replicate 20 (CHR ''a''))\<rparr>
      \<lparr>t_msg_id_no = replicate 20 (CHR ''9''), t_max_msg_id_no = replicate 20 (CHR ''9''), g_random_fd = 5\<rparr> =
      Some (map random_digit (take 20 (replicate 20 (CHR ''a''))), st') \<and>
    t_max_msg_id_no st' = replicate 40 (CHR ''9'') \<and>
    GenMsgID \<lparr>ur_open = 5, ur_read = None\<rparr> (st'\<lparr>t_msg_id_no := replicate 20 (CHR ''9'')\<rparr>) = None"
  by (rule GenMsgID_second_wrap_undefined) simp_all

end
