(* ===== verification/Config_File.thy ===== *)
theory Config_File
  imports Net_Addr Std_Containers
begin

text \<open>
  Configuration, \<^verbatim>\<open>common/config_reader.h\<close> and \<^verbatim>\<open>common/config.{h,cc}\<close>: the reader of \<open>key = value\<close> files that hold the
  address of the discovery centre, and the server's XML file.  TinyXML is a parameter: a record of
  the two queries the code makes of a parsed document.
\<close>

section \<open>ConfigReader\<close>

definition find_first_not_of :: "char \<Rightarrow> string \<Rightarrow> nat option" where
  "find_first_not_of c s = (let n = length (takeWhile ((=) c) s) in if n < length s then Some n else None)"

definition find_last_not_of :: "char \<Rightarrow> string \<Rightarrow> nat option" where
  "find_last_not_of c s = (let n = length (dropWhile ((=) c) (rev s)) in if 0 < n then Some (n - 1) else None)"

definition trim :: "string \<Rightarrow> string" where
  "trim str = (case find_first_not_of CHR '' '' str of
     None \<Rightarrow> []
   | Some first_pos \<Rightarrow> (case find_last_not_of CHR '' '' str of
       None \<Rightarrow> []
     | Some last_pos \<Rightarrow> substr str first_pos (last_pos - first_pos + 1)))"

text \<open>The map is a \<open>std::unordered_map\<close>; only look-ups are made in it.\<close>

type_synonym config_map = "string \<rightharpoonup> string"

definition parseLine :: "string \<Rightarrow> config_map \<Rightarrow> config_map" where
  "parseLine line configMap =
     (let trimmedLine = trim line in
      if trimmedLine = [] \<or> hd trimmedLine = CHR ''#'' then configMap
      else (case find_first_of CHR ''='' trimmedLine of
        None \<Rightarrow> configMap
      | Some pos \<Rightarrow>
          let key = trim (substr trimmedLine 0 pos);
              value = trim (substr trimmedLine (pos + 1) (length trimmedLine - (pos + 1)))
          in configMap(key \<mapsto> value)))"

text \<open>\<open>std::getline\<close> until it fails: the lines of a file; a last line without newline counts when it is not empty.\<close>

fun getlines :: "string \<Rightarrow> string \<Rightarrow> string list" where
  "getlines acc [] = (if acc = [] then [] else [rev acc])"
| "getlines acc (c # cs) = (if c = CHR ''\<newline>'' then rev acc # getlines [] cs else getlines (c # acc) cs)"

text \<open>\<open>None\<close>: the file cannot be opened.\<close>

definition ConfigReader_new :: "string option \<Rightarrow> config_map" where
  "ConfigReader_new file = (case file of
     None \<Rightarrow> Map.empty
   | Some text \<Rightarrow> fold parseLine (getlines [] text) Map.empty)"

text \<open>\<open>operator[]\<close> on the copy of the map that \<open>getServiceCenterMap\<close> returns: an absent key reads as the empty string.\<close>

definition map_index :: "config_map \<Rightarrow> string \<Rightarrow> string" where
  "map_index m k = (case m k of None \<Rightarrow> [] | Some v \<Rightarrow> v)"

section \<open>Config\<close>

record rpc_stub =
  stub_name :: string
  stub_addr :: ip_net_addr
  stub_timeout :: int

record config =
  m_log_level :: string
  m_log_file_name :: string
  m_log_file_path :: string
  m_local_ip :: string
  m_log_max_file_size :: int
  m_log_sync_inteval :: int
  cfg_port :: int
  m_io_threads :: int
  m_rpc_stubs :: "(string \<times> rpc_stub) list"

text \<open>The members before a constructor's body runs.\<close>

definition config_init :: config where
  "config_init = \<lparr>m_log_level = [], m_log_file_name = [], m_log_file_path = [], m_local_ip = [], m_log_max_file_size = 0,
     m_log_sync_inteval = 0, cfg_port = 0, m_io_threads = 0, m_rpc_stubs = []\<rparr>"

definition Config_new :: config where
  "Config_new = config_init\<lparr>m_log_level := ''DEBUG''\<rparr>"

text \<open>
  What the code uses of TinyXML: the child elements of a node with a given name in document order, visited by
  \<open>FirstChildElement\<close> and \<open>NextSiblingElement\<close>, and \<open>GetText\<close>.
\<close>

record 'e xml_api =
  xml_children :: "'e \<Rightarrow> string \<Rightarrow> 'e list"
  xml_text :: "'e \<Rightarrow> string option"

definition FirstChildElement :: "'e xml_api \<Rightarrow> 'e \<Rightarrow> string \<Rightarrow> 'e option" where
  "FirstChildElement api parent name = (case xml_children api parent name of [] \<Rightarrow> None | e # _ \<Rightarrow> Some e)"

text \<open>
  Reading the file ends in one of two ways: \<open>Inl name\<close>, the process exits because of that node, or a
  configuration.  \<open>None\<close> is undefined behaviour: a null element or text of a stub is dereferenced, or a
  number is too big for \<open>atoi\<close>.
\<close>

definition READ_XML_NODE :: "'e xml_api \<Rightarrow> string \<Rightarrow> 'e \<Rightarrow> string + 'e" where
  "READ_XML_NODE api name parent = (case FirstChildElement api parent name of None \<Rightarrow> Inl name | Some e \<Rightarrow> Inr e)"

definition READ_STR_FROM_XML_NODE :: "'e xml_api \<Rightarrow> string \<Rightarrow> 'e \<Rightarrow> string + string" where
  "READ_STR_FROM_XML_NODE api name parent = (case FirstChildElement api parent name of
     None \<Rightarrow> Inl name
   | Some e \<Rightarrow> (case xml_text api e of None \<Rightarrow> Inl name | Some t \<Rightarrow> Inr t))"

fun and_then :: "'a + 'b \<Rightarrow> ('b \<Rightarrow> ('a + 'c) option) \<Rightarrow> ('a + 'c) option" where
  "and_then (Inl e) f = Some (Inl e)"
| "and_then (Inr x) f = f x"

definition stub_text :: "'e xml_api \<Rightarrow> 'e \<Rightarrow> string \<Rightarrow> string option" where
  "stub_text api node name = do { e \<leftarrow> FirstChildElement api node name; xml_text api e }"

definition read_stub :: "'e xml_api \<Rightarrow> (string \<Rightarrow> 32 word) \<Rightarrow> 'e \<Rightarrow> rpc_stub option" where
  "read_stub api inet_addr node = do {
     name \<leftarrow> stub_text api node ''name'';
     timeout_str \<leftarrow> stub_text api node ''timeout'';
     timeout \<leftarrow> atoi timeout_str;
     ip \<leftarrow> stub_text api node ''ip'';
     port_str \<leftarrow> stub_text api node ''port'';
     port \<leftarrow> atoi port_str;
     Some \<lparr>stub_name = name, stub_addr = IPNetAddr_of_ip_port inet_addr ip (word_of_int port), stub_timeout = timeout\<rparr> }"

fun read_stubs :: "'e xml_api \<Rightarrow> (string \<Rightarrow> 32 word) \<Rightarrow> 'e list \<Rightarrow> (string \<times> rpc_stub) list \<Rightarrow> (string \<times> rpc_stub) list option" where
  "read_stubs api inet_addr [] stubs = Some stubs"
| "read_stubs api inet_addr (node # nodes) stubs = do {
     stub \<leftarrow> read_stub api inet_addr node;
     read_stubs api inet_addr nodes (map_insert (stub_name stub) stub stubs) }"

text \<open>\<open>document\<close> is \<open>None\<close> when \<open>LoadFile\<close> fails; the process then exits because of the file.\<close>

definition Config_of_xml :: "'e xml_api \<Rightarrow> (string \<Rightarrow> 32 word) \<Rightarrow> string \<Rightarrow> 'e option \<Rightarrow> (string + config) option" where
  "Config_of_xml api inet_addr xmlfile document = (case document of
     None \<Rightarrow> Some (Inl xmlfile)
   | Some doc \<Rightarrow>
     and_then (READ_XML_NODE api ''root'' doc) (\<lambda>root_node.
     and_then (READ_XML_NODE api ''log'' root_node) (\<lambda>log_node.
     and_then (READ_XML_NODE api ''server'' root_node) (\<lambda>server_node.
     and_then (READ_STR_FROM_XML_NODE api ''log_level'' log_node) (\<lambda>log_level_str.
     and_then (READ_STR_FROM_XML_NODE api ''log_file_name'' log_node) (\<lambda>log_file_name_str.
     and_then (READ_STR_FROM_XML_NODE api ''log_file_path'' log_node) (\<lambda>log_file_path_str.
     and_then (READ_STR_FROM_XML_NODE api ''log_max_file_size'' log_node) (\<lambda>log_max_file_size_str.
     and_then (READ_STR_FROM_XML_NODE api ''log_sync_interval'' log_node) (\<lambda>log_sync_interval_str. do {
       max_size \<leftarrow> atoi log_max_file_size_str;
       inteval \<leftarrow> atoi log_sync_interval_str;
       and_then (READ_STR_FROM_XML_NODE api ''port'' server_node) (\<lambda>port_str.
       and_then (READ_STR_FROM_XML_NODE api ''io_threads'' server_node) (\<lambda>io_threads_str.
       and_then (READ_STR_FROM_XML_NODE api ''local_ip'' server_node) (\<lambda>local_ip_str. do {
         port \<leftarrow> atoi port_str;
         io_threads \<leftarrow> atoi io_threads_str;
         stubs \<leftarrow> (case FirstChildElement api root_node ''stubs'' of
             None \<Rightarrow> Some []
           | Some stubs_node \<Rightarrow> read_stubs api inet_addr (xml_children api stubs_node ''rpc_server'') []);
         Some (Inr \<lparr>m_log_level = log_level_str, m_log_file_name = log_file_name_str, m_log_file_path = log_file_path_str,
           m_local_ip = local_ip_str, m_log_max_file_size = max_size, m_log_sync_inteval = inteval,
           cfg_port = port, m_io_threads = io_threads, m_rpc_stubs = stubs\<rparr>) }))) })))))))))"

section \<open>The global configuration\<close>

record config_globals =
  g_config :: "config option"
  service_center_map :: config_map

definition GetGlobalConfig :: "config_globals \<Rightarrow> config option" where
  "GetGlobalConfig g = g_config g"

text \<open>\<open>xmlfile\<close>: null, or a name with the document it loads.\<close>

definition SetGlobalConfig ::
    "'e xml_api \<Rightarrow> (string \<Rightarrow> 32 word) \<Rightarrow> (string \<times> 'e option) option \<Rightarrow> config_globals \<Rightarrow> (string + config_globals) option" where
  "SetGlobalConfig api inet_addr xmlfile g =
     (if g_config g \<noteq> None then Some (Inr g)
      else (case xmlfile of
        None \<Rightarrow> Some (Inr (g\<lparr>g_config := Some Config_new\<rparr>))
      | Some (name, document) \<Rightarrow> do {
          r \<leftarrow> Config_of_xml api inet_addr name document;
          and_then r (\<lambda>c. Some (Inr (g\<lparr>g_config := Some c\<rparr>))) }))"

definition setServiceCenterMap :: "string option \<Rightarrow> config_globals \<Rightarrow> config_globals" where
  "setServiceCenterMap file g = g\<lparr>service_center_map := ConfigReader_new file\<rparr>"

definition getServiceCenterMap :: "config_globals \<Rightarrow> config_map" where
  "getServiceCenterMap g = service_center_map g"

section \<open>Trimming\<close>

definition trimmed :: "string \<Rightarrow> bool" where
  "trimmed s \<longleftrightarrow> s = [] \<or> (hd s \<noteq> CHR '' '' \<and> last s \<noteq> CHR '' '')"

abbreviation spaces :: "nat \<Rightarrow> string" where "spaces n \<equiv> replicate n CHR '' ''"

lemma takeWhile_replicate_append:
  "s = [] \<or> hd s \<noteq> c \<Longrightarrow> takeWhile ((=) c) (replicate n c @ s) = replicate n c"
  by (induction n) (auto simp: takeWhile_eq_Nil_iff)

lemma dropWhile_replicate_append:
  "s = [] \<or> hd s \<noteq> c \<Longrightarrow> dropWhile ((=) c) (replicate n c @ s) = s"
  by (induction n) (cases s, auto)

lemma trim_padded:
  assumes "trimmed s"
  shows "trim (spaces a @ s @ spaces b) = s"
proof (cases "s = []")
  case True
  have "takeWhile ((=) CHR '' '') (spaces (a + b)) = spaces (a + b)"
    using takeWhile_replicate_append [of "[]" "CHR '' ''" "a + b"] by simp
  then show ?thesis using True by (simp add: trim_def find_first_not_of_def replicate_add [symmetric])
next
  case False
  let ?t = "spaces a @ s @ spaces b"
  have h: "hd s \<noteq> CHR '' ''" "last s \<noteq> CHR '' ''" using assms False by (simp_all add: trimmed_def)
  have "find_first_not_of CHR '' '' ?t = Some a"
    using takeWhile_replicate_append [of "s @ spaces b" "CHR '' ''" a] h False by (simp add: find_first_not_of_def)
  moreover have "dropWhile ((=) CHR '' '') (rev ?t) = rev s @ spaces a"
    using dropWhile_replicate_append [of "rev s @ spaces a" "CHR '' ''" b] h False by (simp add: hd_append hd_rev)
  then have "find_last_not_of CHR '' '' ?t = Some (a + length s - 1)"
    using False by (simp add: find_last_not_of_def add.commute)
  moreover have "a + length s - 1 - a + 1 = length s" using False by (cases s) simp_all
  ultimately show ?thesis by (simp add: trim_def substr_def)
qed

lemma split_trailing_spaces: "\<exists>w n. s = w @ spaces n \<and> (w = [] \<or> last w \<noteq> CHR '' '')"
proof (induction s rule: rev_induct)
  case (snoc c s)
  then obtain w n where w: "s = w @ spaces n" "w = [] \<or> last w \<noteq> CHR '' ''" by blast
  show ?case
  proof (cases "c = CHR '' ''")
    case True
    then have "s @ [c] = w @ spaces (Suc n)" using w(1) by (simp add: replicate_append_same)
    then show ?thesis using w(2) by blast
  next
    case False
    then show ?thesis by (intro exI [of _ "s @ [c]"] exI [of _ 0]) simp
  qed
qed simp

section \<open>Lines\<close>

text \<open>A line of a configuration file: an assignment with any spacing, a comment, or an empty line.\<close>

datatype config_line = Assign_Line nat string nat nat string nat | Comment_Line nat string | Blank_Line nat

fun line_text :: "config_line \<Rightarrow> string" where
  "line_text (Assign_Line a k b c v d) = spaces a @ k @ spaces b @ ''='' @ spaces c @ v @ spaces d"
| "line_text (Comment_Line a s) = spaces a @ ''#'' @ s"
| "line_text (Blank_Line a) = spaces a"

fun line_ok :: "config_line \<Rightarrow> bool" where
  "line_ok (Assign_Line a k b c v d) \<longleftrightarrow> k \<noteq> [] \<and> trimmed k \<and> hd k \<noteq> CHR ''#'' \<and> CHR ''='' \<notin> set k \<and> trimmed v \<and>
     CHR ''\<newline>'' \<notin> set k \<and> CHR ''\<newline>'' \<notin> set v"
| "line_ok (Comment_Line a s) \<longleftrightarrow> CHR ''\<newline>'' \<notin> set s"
| "line_ok (Blank_Line a) \<longleftrightarrow> True"

fun line_assigns :: "config_line \<Rightarrow> (string \<times> string) list" where
  "line_assigns (Assign_Line a k b c v d) = [(k, v)]"
| "line_assigns _ = []"

lemma parseLine_assign:
  assumes "line_ok (Assign_Line a k b c v d)"
  shows "parseLine (line_text (Assign_Line a k b c v d)) m = m(k \<mapsto> v)"
proof -
  have k: "k \<noteq> []" "trimmed k" "hd k \<noteq> CHR ''#''" "CHR ''='' \<notin> set k" "trimmed v" using assms by simp_all
  let ?d = "if v = [] then 0 else d" and ?c = "if v = [] then 0 else c" and ?e = "if v = [] then c + d else d"
  define body where "body = k @ spaces b @ ''='' @ spaces ?c @ v"
  have "spaces c @ v @ spaces d = spaces ?c @ v @ spaces ?e" by (simp add: replicate_add)
  then have l: "line_text (Assign_Line a k b c v d) = spaces a @ body @ spaces ?e" by (simp add: body_def)
  have hd: "hd body = hd k" "body \<noteq> []" using k(1) by (simp_all add: body_def)
  have "trimmed body" using k(1,2,5) hd by (cases "v = []") (auto simp: trimmed_def body_def)
  then have t: "trim (line_text (Assign_Line a k b c v d)) = body" unfolding l by (rule trim_padded)
  have p: "find_first_of CHR ''='' body = Some (length k + b)"
    using find_first_of_append [of "CHR ''=''" "k @ spaces b" "spaces ?c @ v"] k(4) by (simp add: body_def)
  have key: "trim (substr body 0 (length k + b)) = k" using trim_padded [OF k(2), of 0 b] by (simp add: substr_def body_def)
  have val: "trim (substr body (length k + b + 1) (length body - (length k + b + 1))) = v"
    using trim_padded [OF k(5), of ?c 0] by (simp add: substr_def body_def)
  show ?thesis using hd k(3) p key val by (simp add: parseLine_def t Let_def del: line_text.simps)
qed

lemma parseLine_ignored:
  "parseLine (line_text (Comment_Line a s)) m = m" "parseLine (line_text (Blank_Line a)) m = m"
proof -
  obtain w n where s: "s = w @ spaces n" and w: "w = [] \<or> last w \<noteq> CHR '' ''"
    using split_trailing_spaces [of s] by blast
  have "trimmed (CHR ''#'' # w)" using w by (auto simp: trimmed_def)
  from trim_padded [OF this, of a n] show "parseLine (line_text (Comment_Line a s)) m = m"
    using s by (simp add: parseLine_def Let_def)
  show "parseLine (line_text (Blank_Line a)) m = m"
    using trim_padded [of "[]" a 0] by (simp add: parseLine_def Let_def trimmed_def)
qed

lemma parseLine_line: "line_ok l \<Longrightarrow> parseLine (line_text l) m = m ++ map_of (line_assigns l)"
  by (cases l) (simp_all add: parseLine_assign parseLine_ignored del: line_text.simps line_ok.simps)

lemma getlines_append:
  "CHR ''\<newline>'' \<notin> set l \<Longrightarrow> getlines acc (l @ CHR ''\<newline>'' # cs) = (rev acc @ l) # getlines [] cs"
  by (induction l arbitrary: acc) auto

definition file_text :: "config_line list \<Rightarrow> string" where
  "file_text ls = concat (map (\<lambda>l. line_text l @ ''\<newline>'') ls)"

lemma getlines_file: "list_all line_ok ls \<Longrightarrow> getlines [] (file_text ls) = map line_text ls"
proof (induction ls)
  case (Cons l ls)
  have "CHR ''\<newline>'' \<notin> set (line_text l)" using Cons.prems by (cases l) auto
  then show ?case using Cons getlines_append [of "line_text l" "[]" "file_text ls"] by (simp add: file_text_def)
qed (simp add: file_text_def)

lemma fold_parseLine:
  "list_all line_ok ls \<Longrightarrow> fold parseLine (map line_text ls) m = m ++ map_of (rev (concat (map line_assigns ls)))"
proof (induction ls arbitrary: m)
  case (Cons l ls)
  have "length (line_assigns l) \<le> 1" by (cases l) simp_all
  then have "rev (line_assigns l) = line_assigns l" by (cases "line_assigns l") auto
  then show ?case using Cons by (simp add: parseLine_line map_add_assoc del: line_text.simps line_ok.simps)
qed simp

section \<open>Properties\<close>

text \<open>
  C26. Reading a configuration file gives back what was written: for a file of assignments with any spacing
  around the key, the equals sign and the value, comment lines and empty lines, the map has
  exactly the assigned keys, each with the value assigned last.
\<close>

theorem config_file_roundtrip:
  assumes "list_all line_ok ls"
  shows "ConfigReader_new (Some (file_text ls)) = map_of (rev (concat (map line_assigns ls)))"
  using assms by (simp add: ConfigReader_new_def getlines_file fold_parseLine)

theorem config_file_roundtrip_witness:
  "ConfigReader_new (Some (file_text [Comment_Line 0 ''query_port'', Assign_Line 0 ''query_port'' 2 3 ''8080'' 2, Blank_Line 1,
      Assign_Line 0 ''query_port'' 1 1 ''9090'' 0])) ''query_port'' = Some ''9090''"
  using config_file_roundtrip [of "[Comment_Line 0 ''query_port'', Assign_Line 0 ''query_port'' 2 3 ''8080'' 2, Blank_Line 1,
      Assign_Line 0 ''query_port'' 1 1 ''9090'' 0]"]
  by (simp add: trimmed_def)

text \<open>The stubs of a file: of several with one name the first counts.\<close>

fun stubs_of :: "'e xml_api \<Rightarrow> (string \<Rightarrow> 32 word) \<Rightarrow> 'e list \<Rightarrow> (string \<times> rpc_stub) list" where
  "stubs_of api ia [] = []"
| "stubs_of api ia (n # ns) = (case read_stub api ia n of
     None \<Rightarrow> [] | Some st \<Rightarrow> (stub_name st, st) # stubs_of api ia ns)"

lemma read_stubs_first:
  assumes "list_all (\<lambda>n. read_stub api ia n \<noteq> None) ns" "map_inv stubs"
  shows "\<exists>r. read_stubs api ia ns stubs = Some r \<and> map_inv r \<and> map_of r = map_of (stubs_of api ia ns) ++ map_of stubs"
  using assms
proof (induction ns arbitrary: stubs)
  case (Cons n ns)
  obtain st where st: "read_stub api ia n = Some st" using Cons.prems(1) by auto
  have i: "map_inv (map_insert (stub_name st) st stubs)" using Cons.prems(2) by (rule map_inv_insert)
  have "map_of (stubs_of api ia ns) ++ map_of (map_insert (stub_name st) st stubs) =
      map_of (stubs_of api ia (n # ns)) ++ map_of stubs"
    by (rule ext) (auto simp: st map_add_def split: option.split)
  then show ?case using Cons.IH [OF _ i] Cons.prems(1) st by (auto simp del: stubs_of.simps map_of_map_insert)
qed (simp add: map_add_def)

lemma read_stubs_all_read: "read_stubs api ia ns stubs = Some r \<Longrightarrow> list_all (\<lambda>n. read_stub api ia n \<noteq> None) ns"
  by (induction ns arbitrary: stubs) (auto split: Option.bind_splits)

lemma and_then_Inr: "and_then x f = Some (Inr y) \<longleftrightarrow> (\<exists>a. x = Inr a \<and> f a = Some (Inr y))"
  by (cases x) auto

lemma Config_of_xml_stubs:
  assumes "Config_of_xml api ia f (Some doc) = Some (Inr cfg)" "FirstChildElement api doc ''root'' = Some root"
    and "FirstChildElement api root ''stubs'' = Some st"
  shows "map_of (m_rpc_stubs cfg) = map_of (stubs_of api ia (xml_children api st ''rpc_server''))"
proof -
  have r: "read_stubs api ia (xml_children api st ''rpc_server'') [] = Some (m_rpc_stubs cfg)"
    using assms(1) assms(3) unfolding Config_of_xml_def option.case and_then_Inr bind_eq_Some_conv
    by (elim exE conjE, simp only: READ_XML_NODE_def assms(2) option.case sum.inject option.inject)
       (hypsubst, simp only: option.case config.simps)
  show ?thesis using read_stubs_first [OF read_stubs_all_read [OF r] map_inv_Nil] r by auto
qed

text \<open>A TinyXML document as a tree, for concrete files.\<close>

datatype xml_tree = Xml_Node string "string option" "xml_tree list"

fun tree_name :: "xml_tree \<Rightarrow> string" where "tree_name (Xml_Node n _ _) = n"
fun tree_text :: "xml_tree \<Rightarrow> string option" where "tree_text (Xml_Node _ t _) = t"
fun tree_children :: "xml_tree \<Rightarrow> xml_tree list" where "tree_children (Xml_Node _ _ cs) = cs"

definition tree_api :: "xml_tree xml_api" where
  "tree_api = \<lparr>xml_children = (\<lambda>e n. filter (\<lambda>c. tree_name c = n) (tree_children e)), xml_text = tree_text\<rparr>"

abbreviation leaf :: "string \<Rightarrow> string \<Rightarrow> xml_tree" where "leaf n t \<equiv> Xml_Node n (Some t) []"

definition log_tree :: "string \<Rightarrow> xml_tree" where
  "log_tree file_name = Xml_Node ''log'' None [leaf ''log_level'' ''DEBUG'', leaf ''log_file_name'' file_name, leaf ''log_file_path'' ''../log/'',
     leaf ''log_max_file_size'' ''1000000000'', leaf ''log_sync_interval'' ''500'']"

text \<open>The files \<^verbatim>\<open>conf/talon.xml\<close> and \<^verbatim>\<open>conf/talon_client.xml\<close>.\<close>

definition talon_xml :: xml_tree where
  "talon_xml = Xml_Node [] None [Xml_Node ''root'' None [log_tree ''test_rpc_server_log'',
     Xml_Node ''server'' None [leaf ''port'' ''9999'', leaf ''io_threads'' ''4'', leaf ''local_ip'' ''172.16.66.102''],
     Xml_Node ''stubs'' None [Xml_Node ''rpc_server'' None [leaf ''name'' ''default'', leaf ''ip'' ''172.16.66.102'',
       leaf ''port'' ''12345'', leaf ''timeout'' ''1000'']]]]"

definition talon_client_xml :: xml_tree where
  "talon_client_xml = Xml_Node [] None [Xml_Node ''root'' None [log_tree ''test_rpc_client'']]"

lemmas xml_eval = FirstChildElement_def tree_api_def READ_XML_NODE_def READ_STR_FROM_XML_NODE_def log_tree_def stub_text_def

lemma talon_xml_loads:
  "Config_of_xml tree_api ia f (Some talon_xml) = Some (Inr \<lparr>m_log_level = ''DEBUG'', m_log_file_name = ''test_rpc_server_log'',
     m_log_file_path = ''../log/'', m_local_ip = ''172.16.66.102'', m_log_max_file_size = 1000000000, m_log_sync_inteval = 500,
     cfg_port = 9999, m_io_threads = 4, m_rpc_stubs = [(''default'', \<lparr>stub_name = ''default'',
       stub_addr = IPNetAddr_of_ip_port ia ''172.16.66.102'' 12345, stub_timeout = 1000\<rparr>)]\<rparr>)"
  by (simp add: Config_of_xml_def talon_xml_def xml_eval read_stub_def map_insert_def talon_eval)

text \<open>The shipped client file cannot be loaded: the node \<open>server\<close> is demanded of every file.\<close>

lemma talon_client_xml_exits: "Config_of_xml tree_api ia f (Some talon_client_xml) = Some (Inl ''server'')"
  by (simp add: Config_of_xml_def talon_client_xml_def xml_eval)

end
