(* ===== verification/Rpc_Channel.thy ===== *)
theory Rpc_Channel
  imports Tcp_Client Rpc_Dispatcher Msg_Id Config_File
begin

text \<open>
  \<open>RpcChannel\<close>, \<^verbatim>\<open>net/rpc/rpc_channel.{h,cc}\<close>: the client's side of a call.  \<open>CallMethod\<close> resolves the address,
  prepares the request and starts the timeout and the connection; the closures it registers are the
  operations \<open>on_timeout\<close>, \<open>on_connected\<close>, \<open>on_sent\<close> and \<open>on_response\<close>.  \<open>ch_runs\<close> counts the runs of the
  user's closure.  The controller given to \<open>CallMethod\<close> is the one given to \<open>Init\<close>, as in the macro \<open>CALLRPRC\<close>.
  \<open>ch_response\<close> is the response message, null or with its serialised contents.
\<close>

section \<open>State\<close>

record rpc_channel =
  ch_peer_addr :: "ip_net_addr option"
  ch_controller :: "rpc_controller option"
  ch_request :: bool
  ch_response :: "string option"
  ch_closure :: bool
  ch_is_init :: bool
  ch_client :: "tcp_client option"
  ch_runs :: nat

definition RpcChannel_new :: "ip_net_addr option \<Rightarrow> rpc_channel" where
  "RpcChannel_new peer_addr = \<lparr>ch_peer_addr = peer_addr, ch_controller = None, ch_request = False, ch_response = None,
     ch_closure = False, ch_is_init = False, ch_client = None, ch_runs = 0\<rparr>"

text \<open>\<open>req\<close> and \<open>done\<close>: a request and a closure are given.\<close>

definition channel_Init :: "rpc_controller option \<Rightarrow> bool \<Rightarrow> string option \<Rightarrow> bool \<Rightarrow> rpc_channel \<Rightarrow> rpc_channel" where
  "channel_Init controller req res done ch =
     (if ch_is_init ch then ch
      else ch\<lparr>ch_controller := controller, ch_request := req, ch_response := res, ch_closure := done, ch_is_init := True\<rparr>)"

text \<open>Dereferencing a null controller is undefined.\<close>

definition callBack :: "rpc_channel \<Rightarrow> rpc_channel option" where
  "callBack ch = do {
     my_controller \<leftarrow> ch_controller ch;
     if Finished my_controller then Some ch
     else if ch_closure ch
     then Some (ch\<lparr>ch_runs := ch_runs ch + 1, ch_controller := Some (SetFinished True my_controller)\<rparr>)
     else Some ch }"

definition channel_SetError :: "int \<Rightarrow> string \<Rightarrow> rpc_channel \<Rightarrow> rpc_channel option" where
  "channel_SetError code reason ch = do {
     c \<leftarrow> ch_controller ch;
     Some (ch\<lparr>ch_controller := Some (SetError code reason c)\<rparr>) }"

text \<open>Without a global configuration the look-up dereferences a null pointer.\<close>

definition FindAddr :: "(string \<Rightarrow> 32 word) \<Rightarrow> config option \<Rightarrow> string \<Rightarrow> ip_net_addr option option" where
  "FindAddr inet_addr cfg str = do {
     ok \<leftarrow> CheckValid str;
     if ok then do { a \<leftarrow> IPNetAddr_of_string inet_addr str; Some (Some a) }
     else do {
       c \<leftarrow> cfg;
       Some (map_option stub_addr (map_of (m_rpc_stubs c) str)) } }"

section \<open>The closures of a call\<close>

text \<open>
  The closures log both addresses of the client: when the level lets \<open>INFOLOG\<close> through (\<open>verbose\<close>), a null local address
  (\<open>getsockname\<close> failed) is dereferenced.
\<close>

definition log_addrs :: "bool \<Rightarrow> rpc_channel \<Rightarrow> unit option" where
  "log_addrs verbose ch = (if verbose then do {
     cl \<leftarrow> ch_client ch;
     _ \<leftarrow> client_getLocalAddr cl;
     Some () } else Some ())"

definition on_timeout :: "rpc_channel \<Rightarrow> rpc_channel option" where
  "on_timeout ch = do {
     my_controller \<leftarrow> ch_controller ch;
     if Finished my_controller then Some ch
     else callBack (ch\<lparr>ch_controller := Some (SetError ERROR_RPC_CALL_TIMEOUT
       (''rpc call timeout '' @ to_string (GetTimeout my_controller)) (StartCancel my_controller))\<rparr>) }"

text \<open>\<open>parse\<close> is \<open>ParseFromString\<close> of the response message.\<close>

definition on_response :: "bool \<Rightarrow> (string \<Rightarrow> string option) \<Rightarrow> tiny_pb \<Rightarrow> rpc_channel \<Rightarrow> rpc_channel option" where
  "on_response verbose parse rsp ch = do {
     log_addrs verbose ch;
     ch_response ch;
     (case parse (m_pb_data rsp) of
        None \<Rightarrow> do { ch \<leftarrow> channel_SetError ERROR_FAILED_SERIALIZE ''serialize error'' ch; callBack ch }
      | Some msg \<Rightarrow>
          let ch = ch\<lparr>ch_response := Some msg\<rparr> in
          if m_err_code rsp \<noteq> 0 then do { ch \<leftarrow> channel_SetError (sint (m_err_code rsp)) (m_err_info rsp) ch; callBack ch }
          else callBack ch) }"

text \<open>The request has been sent: \<open>done_read\<close> names the closure \<open>on_response\<close>.\<close>

definition on_sent ::
    "bool \<Rightarrow> (int \<Rightarrow> bool) \<Rightarrow> int \<Rightarrow> tiny_pb \<Rightarrow> nat \<Rightarrow> rpc_channel \<Rightarrow> event_loop \<Rightarrow> (rpc_channel \<times> event_loop) option" where
  "on_sent verbose fd_ok tid req done_read ch l = do {
     log_addrs verbose ch;
     cl \<leftarrow> ch_client ch;
     (cl, l) \<leftarrow> readMessage fd_ok tid (m_msg_id req) done_read cl l;
     Some (ch\<lparr>ch_client := Some cl\<rparr>, l) }"

text \<open>The connection attempt has ended: \<open>done_write\<close> names the closure \<open>on_sent\<close>.\<close>

definition on_connected ::
    "bool \<Rightarrow> (int \<Rightarrow> bool) \<Rightarrow> int \<Rightarrow> tiny_pb \<Rightarrow> nat \<Rightarrow> rpc_channel \<Rightarrow> event_loop \<Rightarrow> (rpc_channel \<times> event_loop) option" where
  "on_connected verbose fd_ok tid req done_write ch l = do {
     cl \<leftarrow> ch_client ch;
     if getConnectErrorCode cl \<noteq> 0 then do {
       ch \<leftarrow> channel_SetError (getConnectErrorCode cl) (getConnectErrorInfo cl) ch;
       ch \<leftarrow> callBack ch;
       Some (ch, l) }
     else do {
       log_addrs verbose ch;
       (cl, l) \<leftarrow> writeMessage fd_ok tid req done_write cl l;
       Some (ch\<lparr>ch_client := Some cl\<rparr>, l) } }"

section \<open>CallMethod\<close>

text \<open>The message id: the controller's, else that of the request being served, else a new one.\<close>

definition choose_msg_id ::
    "urandom \<Rightarrow> run_time \<Rightarrow> msg_id_state \<Rightarrow> rpc_controller \<Rightarrow> (string \<times> rpc_controller \<times> msg_id_state) option" where
  "choose_msg_id env rt ids c =
     (if GetMsgId c = [] then
        (if rt_msgid rt \<noteq> [] then Some (rt_msgid rt, SetMsgId (rt_msgid rt) c, ids)
         else do {
           (i, ids) \<leftarrow> GenMsgID env ids;
           Some (i, SetMsgId i c, ids) })
      else Some (GetMsgId c, c, ids))"

text \<open>
  How \<open>CallMethod\<close> ends: the process exits; it returns; it returns while the connection for the request is under way in a
  loop that is running already; or it enters the loop and returns when that is stopped.
\<close>

datatype call_end = Call_Exits string | Call_Returns | Call_Waits tiny_pb | Call_Loops tiny_pb

record call_env =
  ce_globals :: config_globals
  ce_net :: sd_net
  ce_sock :: int
  ce_flag :: int32
  ce_fd_ok :: "int \<Rightarrow> bool"
  ce_tid :: int
  ce_inet_addr :: "string \<Rightarrow> 32 word"
  ce_clock :: "nat \<Rightarrow> int"
  ce_urandom :: urandom
  ce_timeout_task :: task
  ce_connect :: connect_result
  ce_connect_task :: nat
  ce_done_write :: nat
  ce_inet_ntoa :: "32 word \<Rightarrow> string"
  ce_sockname :: "sockaddr_in option"
  ce_verbose :: bool

text \<open>
  \<open>given\<close>: the controller, request and response pointers are not null; \<open>data\<close>: the serialised request, if it
  serialises; \<open>te\<close>: the address of the new timer event.
\<close>

definition CallMethod ::
    "call_env \<Rightarrow> string \<Rightarrow> bool \<times> bool \<times> bool \<Rightarrow> string option \<Rightarrow> nat \<Rightarrow> run_time \<Rightarrow> msg_id_state \<Rightarrow> rpc_channel \<Rightarrow> event_loop
       \<Rightarrow> (rpc_channel \<times> event_loop \<times> msg_id_state \<times> call_end) option" where
  "CallMethod env full_name given data te rt ids ch l = do {
     _ \<leftarrow> atoi (map_index (getServiceCenterMap (ce_globals env)) ''query_port'');
     (found, _) \<leftarrow> serviceDiscovery (ce_net env) full_name;
     (case found of
        Sys_Error e \<Rightarrow> Some (ch, l, ids, Call_Exits e)
      | Found_Addr server_addr \<Rightarrow>
        if server_addr = ''unknown host'' then Some (ch, l, ids, Call_Returns)
        else do {
          peer \<leftarrow> FindAddr (ce_inet_addr env) (GetGlobalConfig (ce_globals env)) server_addr;
          let ch = ch\<lparr>ch_peer_addr := peer\<rparr>;
          (cl, l) \<leftarrow> TcpClient_new (ce_fd_ok env) (ce_tid env) (ce_flag env) (ce_sock env) peer l;
          let ch = ch\<lparr>ch_client := Some cl\<rparr>;
          require (fst given);
          if \<not> fst (snd given) \<or> \<not> snd (snd given) then do {
            ch \<leftarrow> channel_SetError ERROR_RPC_CHANNEL_INIT ''controller or request or response NULL'' ch;
            ch \<leftarrow> callBack ch;
            Some (ch, l, ids, Call_Returns) }
          else do {
            require (ch_is_init ch);
            ctl \<leftarrow> ch_controller ch;
            (i, ctl, ids) \<leftarrow> choose_msg_id (ce_urandom env) rt ids ctl;
            let ch = ch\<lparr>ch_controller := Some ctl\<rparr>;
            let req = TinyPBProtocol_new\<lparr>m_msg_id := i, m_method_name := full_name\<rparr>;
            (case data of
               None \<Rightarrow> do {
                 ch \<leftarrow> channel_SetError ERROR_FAILED_SERIALIZE ''failde to serialize'' ch;
                 ch \<leftarrow> callBack ch;
                 Some (ch, l, ids, Call_Returns) }
             | Some pb \<Rightarrow> do {
                 let tm = el_timer l;
                 let tm = (tick tm)\<lparr>tm_heap := (tm_heap tm)(te :=
                   TimerEvent_new (ce_clock env (tm_ticks tm)) (GetTimeout ctl) False (Some (ce_timeout_task env)))\<rparr>;
                 let l = client_addTimerEvent (ce_clock env) te (l\<lparr>el_timer := tm\<rparr>);
                 let req = req\<lparr>m_pb_data := pb\<rparr>;
                 (cl, l, next) \<leftarrow> client_connect (ce_fd_ok env) (ce_tid env) (ce_inet_ntoa env) (ce_sockname env) (ce_connect env)
                   (ce_connect_task env) cl l;
                 let ch = ch\<lparr>ch_client := Some cl\<rparr>;
                 (case next of
                    Call_Done \<Rightarrow> do {
                      (ch, l) \<leftarrow> on_connected (ce_verbose env) (ce_fd_ok env) (ce_tid env) req (ce_done_write env) ch l;
                      Some (ch, l, ids, Call_Returns) }
                  | Wait_Loop \<Rightarrow> Some (ch, l, ids, Call_Waits req)
                  | Enter_Loop \<Rightarrow> Some (ch, l, ids, Call_Loops req)) }) } }) }"

definition getController :: "rpc_channel \<Rightarrow> rpc_controller option" where
  "getController ch = ch_controller ch"

definition getRequest :: "rpc_channel \<Rightarrow> bool" where
  "getRequest ch = ch_request ch"

definition getResponse :: "rpc_channel \<Rightarrow> string option" where
  "getResponse ch = ch_response ch"

definition getClosure :: "rpc_channel \<Rightarrow> bool" where
  "getClosure ch = ch_closure ch"

definition getTcpClient :: "rpc_channel \<Rightarrow> tcp_client option" where
  "getTcpClient ch = ch_client ch"

text \<open>The macro \<open>CALLRPRC\<close>; the generated stub passes its arguments to \<open>CallMethod\<close>.\<close>

definition CALLRPRC ::
    "call_env \<Rightarrow> string \<Rightarrow> string \<Rightarrow> rpc_controller option \<Rightarrow> bool \<Rightarrow> string option \<Rightarrow> bool \<Rightarrow> string option \<Rightarrow> nat \<Rightarrow> run_time \<Rightarrow> msg_id_state
       \<Rightarrow> event_loop \<Rightarrow> (rpc_channel \<times> event_loop \<times> msg_id_state \<times> call_end) option" where
  "CALLRPRC env addr full_name controller request response closure data te rt ids l = do {
     peer \<leftarrow> FindAddr (ce_inet_addr env) (GetGlobalConfig (ce_globals env)) addr;
     let channel = channel_Init controller request response closure (RpcChannel_new peer);
     CallMethod env full_name (controller \<noteq> None, request, response \<noteq> None) data te rt ids channel l }"

section \<open>What happens to a call\<close>

datatype call_event = Ev_Timeout | Ev_Response "string \<Rightarrow> string option" tiny_pb | Ev_Connect_Error int string

definition call_step :: "bool \<Rightarrow> call_event \<Rightarrow> rpc_channel \<Rightarrow> rpc_channel option" where
  "call_step verbose ev ch = (case ev of
     Ev_Timeout \<Rightarrow> on_timeout ch
   | Ev_Response parse rsp \<Rightarrow> on_response verbose parse rsp ch
   | Ev_Connect_Error code reason \<Rightarrow> do { ch \<leftarrow> channel_SetError code reason ch; callBack ch })"

fun call_steps :: "bool \<Rightarrow> call_event list \<Rightarrow> rpc_channel \<Rightarrow> rpc_channel option" where
  "call_steps verbose [] ch = Some ch"
| "call_steps verbose (ev # evs) ch = do { ch1 \<leftarrow> call_step verbose ev ch; call_steps verbose evs ch1 }"

text \<open>A channel whose closures may run: it has a response message and, for the log, a client that knows its address.\<close>

definition call_ready :: "bool \<Rightarrow> rpc_channel \<Rightarrow> bool" where
  "call_ready verbose ch \<longleftrightarrow> ch_response ch \<noteq> None \<and> log_addrs verbose ch = Some ()"

section \<open>Lemmas\<close>

lemma callBack_finished:
  "ch_controller ch = Some c \<Longrightarrow> Finished c \<Longrightarrow> callBack ch = Some ch"
  by (simp add: callBack_def)

lemma callBack_runs:
  "ch_controller ch = Some c \<Longrightarrow> \<not> Finished c \<Longrightarrow> ch_closure ch \<Longrightarrow>
   callBack ch = Some (ch\<lparr>ch_runs := ch_runs ch + 1, ch_controller := Some (SetFinished True c)\<rparr>)"
  by (simp add: callBack_def)

lemma Finished_simps [simp]:
  "Finished (SetError code r c) = Finished c" "Finished (StartCancel c)" "Finished (SetFinished b c) = b"
  "Finished (SetMsgId i c) = Finished c"
  by (simp_all add: controller_defs)

text \<open>Once the controller is finished nothing runs the closure any more.\<close>

lemma call_step_finished:
  assumes "call_ready verbose ch" "ch_controller ch = Some c" "Finished c"
  shows "\<exists>ch' c'. call_step verbose ev ch = Some ch' \<and> call_ready verbose ch' \<and> ch_controller ch' = Some c' \<and> Finished c' \<and>
    ch_runs ch' = ch_runs ch"
  using assms
  by (cases ev)
     (auto simp: call_step_def on_timeout_def on_response_def channel_SetError_def callBack_def Let_def call_ready_def log_addrs_def
       split: option.split)

lemma call_steps_finished:
  assumes "call_ready verbose ch" "ch_controller ch = Some c" "Finished c"
  shows "\<exists>ch'. call_steps verbose evs ch = Some ch' \<and> ch_runs ch' = ch_runs ch"
  using assms
proof (induction evs arbitrary: ch c)
  case (Cons ev evs)
  obtain ch1 c1 where "call_step verbose ev ch = Some ch1" "call_ready verbose ch1" "ch_controller ch1 = Some c1" "Finished c1"
      "ch_runs ch1 = ch_runs ch"
    using call_step_finished [OF Cons.prems] by blast
  then show ?case using Cons.IH [of ch1 c1] by auto
qed simp

lemma call_step_first:
  assumes "call_ready verbose ch" "ch_controller ch = Some c" "\<not> Finished c" "ch_closure ch"
  shows "\<exists>ch' c'. call_step verbose ev ch = Some ch' \<and> call_ready verbose ch' \<and> ch_controller ch' = Some c' \<and> Finished c' \<and>
    ch_runs ch' = ch_runs ch + (if ev = Ev_Timeout then 0 else 1)"
  using assms
  by (cases ev)
     (auto simp: call_step_def on_timeout_def on_response_def channel_SetError_def callBack_def Let_def call_ready_def log_addrs_def
       split: option.split)

lemma FindAddr_ip_port:
  assumes "CHR '':'' \<notin> set ip" "ip \<noteq> []" "p \<noteq> 0"
  shows "FindAddr ia cfg (ip @ '':'' @ to_string (uint p)) = Some (Some (IPNetAddr_of_ip_port ia ip p))"
proof -
  have "0 < uint p" using assms(3) by (simp add: word_neq_0_conv word_less_def)
  then have "\<not> (uint p \<le> 0 \<or> uint p > 65536)" using uint16_range [of p] by linarith
  then have "CheckValid (ip @ '':'' @ to_string (uint p)) = Some True"
    using CheckValid_ip_port [OF assms(1,2) to_string_nonempty atoi_port] by simp
  then show ?thesis
    using IPNetAddr_of_ip_colon_port [OF assms(1) atoi_port, of ia] unfolding FindAddr_def by simp
qed

lemma text_not_unknown: "ip @ '':'' @ to_string i \<noteq> ''unknown host''"
proof
  assume "ip @ '':'' @ to_string i = ''unknown host''"
  then have "CHR '':'' \<in> set ''unknown host''" by (metis in_set_conv_decomp append_Cons append_Nil)
  then show False by simp
qed

text \<open>Scheduling a newly created event.\<close>

lemma schedule_new_event:
  assumes "timer_inv t" "armed_ok t" "te \<notin> snd ` set (m_pending_events t)"
  shows "snd ` set (m_pending_events (addTimerEvent clock te ((tick t)\<lparr>tm_heap := (tm_heap t)(te := x)\<rparr>))) =
      insert te (snd ` set (m_pending_events t))"
    and "timer_inv (addTimerEvent clock te ((tick t)\<lparr>tm_heap := (tm_heap t)(te := x)\<rparr>))"
    and "armed_ok (addTimerEvent clock te ((tick t)\<lparr>tm_heap := (tm_heap t)(te := x)\<rparr>))"
proof -
  define tm where "tm = (tick t)\<lparr>tm_heap := (tm_heap t)(te := x)\<rparr>"
  have tm: "m_pending_events tm = m_pending_events t" "timer_inv tm" "armed_ok tm"
    using assms by (force simp: tm_def timer_inv_def armed_ok_def)+
  have n: "te \<notin> snd ` set (m_pending_events tm)" using assms(3) tm(1) by simp
  from tq.sound_schedule [OF tm(2) n, of clock] tq.scheduled_schedule [of clock te tm]
  show "snd ` set (m_pending_events (addTimerEvent clock te ((tick t)\<lparr>tm_heap := (tm_heap t)(te := x)\<rparr>))) =
      insert te (snd ` set (m_pending_events t))"
    and "timer_inv (addTimerEvent clock te ((tick t)\<lparr>tm_heap := (tm_heap t)(te := x)\<rparr>))"
    and "armed_ok (addTimerEvent clock te ((tick t)\<lparr>tm_heap := (tm_heap t)(te := x)\<rparr>))"
    using tm(1) armed_ok_add [OF tm(2,3) n, of clock] by (simp_all add: tm_def)
qed

text \<open>The loop with the timeout of a call scheduled.\<close>

definition with_timeout :: "call_env \<Rightarrow> nat \<Rightarrow> rpc_controller \<Rightarrow> event_loop \<Rightarrow> event_loop" where
  "with_timeout env te c l = l\<lparr>el_timer := addTimerEvent (ce_clock env) te ((tick (el_timer l))\<lparr>tm_heap := (tm_heap (el_timer l))(te :=
     TimerEvent_new (ce_clock env (tm_ticks (el_timer l))) (GetTimeout c) False (Some (ce_timeout_task env)))\<rparr>)\<rparr>"

text \<open>A call whose method the centre knows at \<open>ip:port\<close>, up to the connection.\<close>

lemma choose_given_id: "GetMsgId c \<noteq> [] \<Longrightarrow> choose_msg_id env rt ids c = Some (GetMsgId c, c, ids)"
  by (simp add: choose_msg_id_def)

text \<open>Choosing an id changes nothing else of the controller.\<close>

lemma choose_msg_id_sets: "choose_msg_id env rt ids c = Some (i, c', ids') \<Longrightarrow> c' = SetMsgId i c"
  by (cases c) (auto simp: choose_msg_id_def GetMsgId_def SetMsgId_def split: if_splits Option.bind_splits)

lemma CallMethod_found:
  assumes "ch_is_init ch" "ch_controller ch = Some c" "choose_msg_id (ce_urandom env) rt ids c = Some (i, c', ids')"
    and "atoi (map_index (getServiceCenterMap (ce_globals env)) ''query_port'') = Some q"
    and "CHR '':'' \<notin> set ip" "ip \<noteq> []" "p \<noteq> 0" "ce_net env = net_up (ip @ '':'' @ to_string (uint p))"
    and "reply_ok (ip @ '':'' @ to_string (uint p))"
    and "TcpClient_new (ce_fd_ok env) (ce_tid env) (ce_flag env) (ce_sock env) (Some (IPNetAddr_of_ip_port (ce_inet_addr env) ip p)) l = Some (cl, l1)"
    and "client_connect (ce_fd_ok env) (ce_tid env) (ce_inet_ntoa env) (ce_sockname env) (ce_connect env) (ce_connect_task env)
      cl (with_timeout env te c' l1) = Some (cl, l3, if isLooping l3 then Wait_Loop else Enter_Loop)"
    and "req = TinyPBProtocol_new\<lparr>m_msg_id := i, m_method_name := full_name, m_pb_data := pb\<rparr>"
  shows "CallMethod env full_name (True, True, True) (Some pb) te rt ids ch l =
    Some (ch\<lparr>ch_peer_addr := Some (IPNetAddr_of_ip_port (ce_inet_addr env) ip p), ch_client := Some cl, ch_controller := Some c'\<rparr>, l3, ids',
      if isLooping l3 then Call_Waits req else Call_Loops req)"
proof -
  let ?a = "ip @ '':'' @ to_string (uint p)"
  have d: "serviceDiscovery (ce_net env) full_name = Some (Found_Addr ?a, [full_name])"
    unfolding assms(8) by (rule serviceDiscovery_up) (rule assms(9))
  have f: "FindAddr (ce_inet_addr env) (GetGlobalConfig (ce_globals env)) ?a = Some (Some (IPNetAddr_of_ip_port (ce_inet_addr env) ip p))"
    by (rule FindAddr_ip_port) (rule assms)+
  show ?thesis
    using assms(1-4,10-12) d f text_not_unknown [of ip "uint p"]
    by (simp add: CallMethod_def client_addTimerEvent_def loop_addTimerEvent_def Let_def with_timeout_def)
qed

section \<open>Properties\<close>

text \<open>
  C12. Whatever happens to a call (responses, connection errors and timeouts in any number and order), the
  user's closure runs at most once.  It runs exactly when the first thing to happen is a response or a
  connection error; when it is the timeout the closure never runs, because the controller is marked finished
  before the channel's \<open>callBack\<close> looks at it.
\<close>

theorem closure_runs_at_most_once:
  assumes "call_ready verbose ch" "ch_controller ch = Some c" "\<not> Finished c" "ch_closure ch" "ch_runs ch = 0"
  shows "\<exists>ch'. call_steps verbose evs ch = Some ch' \<and>
    ch_runs ch' = (if evs = [] \<or> hd evs = Ev_Timeout then 0 else 1)"
proof (cases evs)
  case Nil
  then show ?thesis using assms(5) by simp
next
  case (Cons ev evs')
  obtain ch1 c1 where "call_step verbose ev ch = Some ch1" "call_ready verbose ch1" "ch_controller ch1 = Some c1" "Finished c1"
      "ch_runs ch1 = (if ev = Ev_Timeout then 0 else 1)"
    using call_step_first [OF assms(1-4), of ev] assms(5) by auto
  then show ?thesis using call_steps_finished [of verbose ch1 c1 evs'] Cons by auto
qed

definition demo_channel :: rpc_channel where
  "demo_channel = channel_Init (Some RpcController_new) True (Some []) True (RpcChannel_new None)"

lemma demo_channel_simps [simp]:
  "ch_controller demo_channel = Some RpcController_new" "\<not> Finished RpcController_new" "ch_closure demo_channel"
  "ch_runs demo_channel = 0" "ch_is_init demo_channel" "ch_response demo_channel = Some []"
  by (simp_all add: demo_channel_def channel_Init_def RpcChannel_new_def Finished_def RpcController_new_def)

theorem closure_runs_at_most_once_witness:
  "\<exists>ch'. call_steps False [Ev_Timeout, Ev_Response Some TinyPBProtocol_new] demo_channel = Some ch' \<and> ch_runs ch' = 0"
  using closure_runs_at_most_once [of False demo_channel RpcController_new "[Ev_Timeout, Ev_Response Some TinyPBProtocol_new]"]
  by (simp add: call_ready_def log_addrs_def)

text \<open>
  A call on an initialised channel whose method the centre knows at \<open>ip:port\<close> goes to that address: the channel's
  peer is the parsed address, the request carries the controller's message id, the method's full name and the
  serialised argument, the timeout is scheduled in a timer that stays sound, and when the connection takes time the closure
  that finishes it is registered for the socket becoming writable.
\<close>

theorem CallMethod_connects:
  assumes "ch_is_init ch" "ch_controller ch = Some c" "GetMsgId c \<noteq> []"
    and "atoi (map_index (getServiceCenterMap (ce_globals env)) ''query_port'') = Some q"
    and "CHR '':'' \<notin> set ip" "ip \<noteq> []" "p \<noteq> 0" "ce_net env = net_up (ip @ '':'' @ to_string (uint p))"
    and "reply_ok (ip @ '':'' @ to_string (uint p))"
    and "group_inv (el_group l)" "0 \<le> ce_sock env" "int_ok (3 * ce_sock env div 2)" "ce_connect env = Conn_In_Progress"
    and "timer_inv (el_timer l)" "armed_ok (el_timer l)" "te \<notin> snd ` set (m_pending_events (el_timer l))"
  shows "\<exists>ch' l' ids' req e. CallMethod env full_name (True, True, True) (Some pb) te rt ids ch l =
      Some (ch', l', ids', if isLooping l' then Call_Waits req else Call_Loops req) \<and>
    req = TinyPBProtocol_new\<lparr>m_msg_id := GetMsgId c, m_method_name := full_name, m_pb_data := pb\<rparr> \<and>
    ch_peer_addr ch' = Some (IPNetAddr_of_ip_port (ce_inet_addr env) ip p) \<and> ch_runs ch' = ch_runs ch \<and>
    ev_at l' (Group_Event (nat (ce_sock env))) = Some e \<and> wants_out e \<and> handler OUT_EVENT e = Some (Client_Task (ce_connect_task env)) \<and>
    snd ` set (m_pending_events (el_timer l')) = insert te (snd ` set (m_pending_events (el_timer l))) \<and>
    timer_inv (el_timer l') \<and> armed_ok (el_timer l')"
proof -
  let ?peer = "IPNetAddr_of_ip_port (ce_inet_addr env) ip p"
  obtain cl l1 where cl: "TcpClient_new (ce_fd_ok env) (ce_tid env) (ce_flag env) (ce_sock env) (Some ?peer) l = Some (cl, l1)"
      "el_timer l1 = el_timer l" "cli_fd_event cl = nat (ce_sock env)" "ev_at l1 (Group_Event (nat (ce_sock env))) \<noteq> None"
    using TcpClient_new_ok [OF assms(10-12)] by blast
  define l2 where "l2 = with_timeout env te c l1"
  have t: "snd ` set (m_pending_events (el_timer l2)) = insert te (snd ` set (m_pending_events (el_timer l)))"
      "timer_inv (el_timer l2)" "armed_ok (el_timer l2)"
    using schedule_new_event [OF assms(14-16), of "ce_clock env"] cl(2) by (simp_all add: l2_def with_timeout_def)
  have "ev_at l2 (Group_Event (cli_fd_event cl)) \<noteq> None" using cl(3,4) by (auto simp: l2_def with_timeout_def ev_at_def split: if_splits)
  from client_connect_in_progress [OF this, of "ce_fd_ok env" "ce_tid env" "ce_inet_ntoa env" "ce_sockname env" "ce_connect_task env"]
  obtain l3 e where c3: "client_connect (ce_fd_ok env) (ce_tid env) (ce_inet_ntoa env) (ce_sockname env) (ce_connect env)
      (ce_connect_task env) cl l2 = Some (cl, l3, if isLooping l3 then Wait_Loop else Enter_Loop)" "el_timer l3 = el_timer l2"
      "ev_at l3 (Group_Event (cli_fd_event cl)) = Some e" "wants_out e" "handler OUT_EVENT e = Some (Client_Task (ce_connect_task env))"
    using assms(13) by auto
  from CallMethod_found [OF assms(1,2) choose_given_id [OF assms(3)] assms(4-9) cl(1) c3(1) [unfolded l2_def] refl, of full_name pb rt ids] show ?thesis using t c3(2-5) cl(3) by simp
qed

definition demo_call_env :: call_env where
  "demo_call_env = \<lparr>ce_globals = \<lparr>g_config = Some Config_new, service_center_map = [''query_port'' \<mapsto> ''8080'']\<rparr>, ce_net = net_up (''127.0.0.1'' @ '':'' @ to_string (uint (80 :: 16 word))), 
     ce_sock = 9, ce_flag = 0, ce_fd_ok = (\<lambda>_. True), ce_tid = 1, ce_inet_addr = (\<lambda>_. 7), ce_clock = int,
     ce_urandom = \<lparr>ur_open = 3, ur_read = None\<rparr>, ce_timeout_task = Client_Task 1, ce_connect = Conn_In_Progress,
     ce_connect_task = 2, ce_done_write = 3, ce_inet_ntoa = (\<lambda>_. ''127.0.0.1''), ce_sockname = None, ce_verbose = True\<rparr>"

theorem CallMethod_connects_witness:
  "\<exists>ch' l' ids' req. CallMethod demo_call_env ''Order.makeOrder'' (True, True, True) (Some ''x'') 0 RunTime_new msg_id_init
      (demo_channel\<lparr>ch_controller := Some (SetMsgId ''17'' RpcController_new)\<rparr>) demo_loop =
    Some (ch', l', ids', if isLooping l' then Call_Waits req else Call_Loops req) \<and> m_method_name req = ''Order.makeOrder'' \<and>
    ch_peer_addr ch' = Some (IPNetAddr_of_ip_port (ce_inet_addr demo_call_env) ''127.0.0.1'' 80)"
proof -
  let ?ch = "demo_channel\<lparr>ch_controller := Some (SetMsgId ''17'' RpcController_new)\<rparr>"
  let ?req = "TinyPBProtocol_new\<lparr>m_msg_id := GetMsgId (SetMsgId ''17'' RpcController_new), m_method_name := ''Order.makeOrder'', m_pb_data := ''x''\<rparr>"
  have q: "atoi (map_index (getServiceCenterMap (ce_globals demo_call_env)) ''query_port'') = Some 8080"
    by (simp add: demo_call_env_def getServiceCenterMap_def map_index_def talon_eval)
  have r: "reply_ok (''127.0.0.1'' @ '':'' @ to_string (uint (80 :: 16 word)))" by (simp add: reply_ok_def talon_eval)
  have t: "timer_inv (el_timer demo_loop)" "armed_ok (el_timer demo_loop)" "0 \<notin> snd ` set (m_pending_events (el_timer demo_loop))"
    by (simp_all add: timer_inv_def armed_ok_def demo_loop_eval multimap_inv_def)
  have e: "ce_net demo_call_env = net_up (''127.0.0.1'' @ '':'' @ to_string (uint (80 :: 16 word)))"
    "0 \<le> ce_sock demo_call_env" "int_ok (3 * ce_sock demo_call_env div 2)" "group_inv (el_group demo_loop)"
    "ce_connect demo_call_env = Conn_In_Progress"
    by (simp_all add: demo_call_env_def int_ok_def demo_loop_eval group_inv_new)
  have c: "ch_is_init ?ch" "ch_controller ?ch = Some (SetMsgId ''17'' RpcController_new)" "GetMsgId (SetMsgId ''17'' RpcController_new) \<noteq> []"
    by (simp_all add: GetMsgId_def SetMsgId_def)
  have i: "CHR '':'' \<notin> set ''127.0.0.1''" "''127.0.0.1'' \<noteq> []" "(80 :: 16 word) \<noteq> 0" by simp_all
  from CallMethod_connects [OF c q i e(1) r e(4,2,3,5) t, of "''Order.makeOrder''" "''x''" RunTime_new msg_id_init]
  obtain ch' l' ids' where "CallMethod demo_call_env ''Order.makeOrder'' (True, True, True) (Some ''x'') 0 RunTime_new msg_id_init ?ch demo_loop =
      Some (ch', l', ids', if isLooping l' then Call_Waits (?req) else Call_Loops (?req))"
      "ch_peer_addr ch' = Some (IPNetAddr_of_ip_port (ce_inet_addr demo_call_env) ''127.0.0.1'' 80)" by blast
  moreover have "m_method_name ?req = ''Order.makeOrder''" by simp
  ultimately show ?thesis by blast
qed

text \<open>An unknown method ends the call silently: no error is set and the closure is not run.\<close>

lemma CallMethod_unknown_host:
  assumes "atoi (map_index (getServiceCenterMap (ce_globals env)) ''query_port'') = Some q" "ce_net env = net_up ''unknown host''"
  shows "CallMethod env full_name given data te rt ids ch l = Some (ch, l, ids, Call_Returns)"
  using assms serviceDiscovery_up [of "''unknown host''" full_name] by (simp add: CallMethod_def reply_ok_def)

text \<open>Calling on a channel that was not initialised dereferences its null controller.\<close>

lemma bind_None_right [simp]: "Option.bind x (\<lambda>_. None) = None"
  by (cases x) simp_all

lemma CallMethod_uninitialised:
  assumes "\<not> ch_is_init ch" "ch_controller ch = None" "atoi (map_index (getServiceCenterMap (ce_globals env)) ''query_port'') = Some q"
    and "ce_net env = net_up a" "reply_ok a" "a \<noteq> ''unknown host''"
  shows "CallMethod env full_name given data te rt ids ch l = None"
proof -
  obtain b1 b2 b3 where given: "given = (b1, b2, b3)" by (cases given)
  have e: "channel_SetError code r (ch\<lparr>ch_peer_addr := p, ch_client := cl\<rparr>) = None" for code r p cl
    using assms(2) by (simp add: channel_SetError_def)
  have "serviceDiscovery (ce_net env) full_name = Some (Found_Addr a, [full_name])"
    unfolding assms(4) by (rule serviceDiscovery_up) (rule assms(5))
  then show ?thesis using assms(1-3,6) e
    by (cases b1; cases b2; cases b3) (simp_all add: CallMethod_def given Let_def case_prod_unfold)
qed

text \<open>
  A name that is not an address is looked up in the configuration: after the XML file has been loaded,
  \<open>FindAddr\<close> gives the address of the first \<open>rpc_server\<close> stub of that name, and the null pointer when there is none.
\<close>

theorem FindAddr_configured_stub:
  assumes "SetGlobalConfig api ia (Some (f, Some doc)) g = Some (Inr g')" "g_config g = None"
    and "FirstChildElement api doc ''root'' = Some root" "FirstChildElement api root ''stubs'' = Some st"
    and "CHR '':'' \<notin> set name"
  shows "FindAddr ia (GetGlobalConfig g') name =
    Some (map_option stub_addr (map_of (stubs_of api ia (xml_children api st ''rpc_server'')) name))"
proof -
  obtain cfg where c: "Config_of_xml api ia f (Some doc) = Some (Inr cfg)" "g_config g' = Some cfg"
    using assms(1,2) by (auto simp: SetGlobalConfig_def and_then_Inr bind_eq_Some_conv)
  have "find_first_of CHR '':'' name = None" using assms(5) by simp
  then have "CheckValid name = Some False" by (simp only: CheckValid_def option.case)
  then show ?thesis using Config_of_xml_stubs [OF c(1) assms(3,4)] c(2) by (simp add: FindAddr_def GetGlobalConfig_def)
qed

theorem FindAddr_configured_stub_witness:
  "\<exists>g'. SetGlobalConfig tree_api (\<lambda>_. 7) (Some (''talon.xml'', Some talon_xml)) \<lparr>g_config = None, service_center_map = Map.empty\<rparr> = Some (Inr g') \<and>
     FindAddr (\<lambda>_. 7) (GetGlobalConfig g') ''default'' = Some (Some (IPNetAddr_of_ip_port (\<lambda>_. 7) ''172.16.66.102'' 12345)) \<and>
     FindAddr (\<lambda>_. 7) (GetGlobalConfig g') ''other'' = Some None"
proof -
  let ?g = "\<lparr>g_config = None, service_center_map = Map.empty\<rparr>"
  let ?r = "hd (tree_children talon_xml)" and ?s = "tree_children (hd (tree_children talon_xml)) ! 2"
  obtain g' where g: "SetGlobalConfig tree_api (\<lambda>_. 7) (Some (''talon.xml'', Some talon_xml)) ?g = Some (Inr g')"
    by (simp add: SetGlobalConfig_def talon_xml_loads)
  have x: "FirstChildElement tree_api talon_xml ''root'' = Some ?r" "FirstChildElement tree_api ?r ''stubs'' = Some ?s"
    by (simp_all add: talon_xml_def xml_eval)
  have m: "map_of (stubs_of tree_api (\<lambda>_. 7) (xml_children tree_api ?s ''rpc_server'')) = [''default'' \<mapsto>
      \<lparr>stub_name = ''default'', stub_addr = IPNetAddr_of_ip_port (\<lambda>_. 7) ''172.16.66.102'' 12345, stub_timeout = 1000\<rparr>]"
    by (simp add: talon_xml_def xml_eval read_stub_def talon_eval)
  have "g_config ?g = None" "CHR '':'' \<notin> set ''default''" "CHR '':'' \<notin> set ''other''" by simp_all
  then show ?thesis
    using g m FindAddr_configured_stub [OF g _ x, of "''default''"] FindAddr_configured_stub [OF g _ x, of "''other''"] by simp
qed

text \<open>
  The address given to the macro \<open>CALLRPRC\<close> does not matter: the discovery centre is asked for the method, and its answer
  replaces the address of the channel.  Two calls that differ only in the address do the same.
\<close>

theorem CALLRPRC_ignores_address:
  assumes "FindAddr (ce_inet_addr env) (GetGlobalConfig (ce_globals env)) addr1 \<noteq> None"
    and "FindAddr (ce_inet_addr env) (GetGlobalConfig (ce_globals env)) addr2 \<noteq> None"
  shows "map_option snd (CALLRPRC env addr1 full_name controller request response closure data te rt ids l) =
    map_option snd (CALLRPRC env addr2 full_name controller request response closure data te rt ids l)"
proof -
  obtain p1 p2 where p: "FindAddr (ce_inet_addr env) (GetGlobalConfig (ce_globals env)) addr1 = Some p1"
      "FindAddr (ce_inet_addr env) (GetGlobalConfig (ce_globals env)) addr2 = Some p2" using assms by auto
  have "map_option snd (CallMethod env full_name given data te rt ids (ch\<lparr>ch_peer_addr := p1\<rparr>) l) =
      map_option snd (CallMethod env full_name given data te rt ids (ch\<lparr>ch_peer_addr := p2\<rparr>) l)" for given ch
  proof (cases "serviceDiscovery (ce_net env) full_name")
    case (Some r)
    then obtain found x where r: "serviceDiscovery (ce_net env) full_name = Some (found, x)" by (cases r) auto
    show ?thesis
    proof (cases "atoi (map_index (getServiceCenterMap (ce_globals env)) ''query_port'')")
      case (Some n)
      show ?thesis
      proof (cases "\<exists>a. found = Found_Addr a \<and> a \<noteq> ''unknown host''")
        case True
        then have "CallMethod env full_name given data te rt ids (ch\<lparr>ch_peer_addr := p1\<rparr>) l =
            CallMethod env full_name given data te rt ids (ch\<lparr>ch_peer_addr := p2\<rparr>) l"
          using r Some by (auto simp: CallMethod_def)
        then show ?thesis by simp
      qed (cases found, use r Some in \<open>simp_all add: CallMethod_def\<close>)
    qed (simp add: CallMethod_def)
  qed (simp add: CallMethod_def)
  from this [of _ "channel_Init controller request response closure (RpcChannel_new None)"] show ?thesis
    by (simp add: CALLRPRC_def p channel_Init_def RpcChannel_new_def)
qed

end
