(* ===== verification/Any_Input.thy ===== *)
theory Any_Input
  imports Tcp_Connection
begin

text \<open>
  What holds for whatever bytes a peer sends: the operations on buffers, the decoder and the reading loop of
  \<^verbatim>\<open>net/tcp/tcp_buffer.cc\<close>, \<^verbatim>\<open>net/coder/tinypb_coder.cc\<close> and \<^verbatim>\<open>net/tcp/tcp_connection.cc\<close> keep the indices of a buffer in
  order and within its vector whenever they return.  No premise restricts the bytes.
\<close>

section \<open>Buffers\<close>

lemma resizeBuffer_keeps [talon_inv]:
  "buf_inv b \<Longrightarrow> n \<le> INT_MAX \<Longrightarrow> resizeBuffer b n = Some b' \<Longrightarrow> buf_inv b'"
  by (auto simp: resizeBuffer_def buf_inv_def readAble_def bind_eq_Some_conv Let_def min_def nat_le_iff split: if_splits
      dest!: mem_write_length)

lemma adjustBuffer_keeps [talon_inv]: "buf_inv b \<Longrightarrow> adjustBuffer b = Some b' \<Longrightarrow> buf_inv b'"
  by (auto simp: adjustBuffer_def buf_inv_def readAble_def bind_eq_Some_conv Let_def split: if_splits dest!: mem_write_length)

lemma writeToBuffer_keeps [talon_inv]:
  assumes "buf_inv b" "writeToBuffer b bs = Some b'"
  shows "buf_inv b'"
proof -
  obtain b1 mem where b1: "(if int (length bs) > writeAble b
        then do {
          require (int_ok (int (m_write_index b) + int (length bs)));
          require (int_ok (3 * (int (m_write_index b) + int (length bs)) div 2));
          resizeBuffer b (3 * (int (m_write_index b) + int (length bs)) div 2) }
        else Some b) = Some b1" and mem: "mem_write (m_buffer b1) (int (m_write_index b1)) bs = Some mem"
      and b': "b' = b1\<lparr>m_buffer := mem, m_write_index := m_write_index b1 + length bs\<rparr>"
    using assms(2) by (auto simp: writeToBuffer_def bind_eq_Some_conv Let_def split: if_splits)
  have i: "buf_inv b1"
    using b1 assms(1) by (auto simp: int_ok_def split: if_splits intro: resizeBuffer_keeps)
  moreover have "m_write_index b1 + length bs \<le> length (m_buffer b1)" using mem by (auto simp: mem_write_def split: if_splits)
  ultimately show ?thesis using mem_write_length [OF mem] b' by (simp add: buf_inv_def)
qed

lemma moveReadIndex_keeps:
  assumes "buf_inv b" "moveReadIndex b n = Some b'" "int (m_read_index b) + n \<le> int (m_write_index b)"
  shows "buf_inv b'"
proof (cases "int (m_read_index b) + n < 0 \<or> int (length (m_buffer b)) \<le> int (m_read_index b) + n")
  case True
  then show ?thesis using assms(1,2) by (auto simp: moveReadIndex_def Let_def split: if_splits)
next
  case False
  then have "adjustBuffer (b\<lparr>m_read_index := nat (int (m_read_index b) + n)\<rparr>) = Some b'"
    using assms(2) by (auto simp: moveReadIndex_def Let_def split: if_splits)
  moreover have "buf_inv (b\<lparr>m_read_index := nat (int (m_read_index b) + n)\<rparr>)"
    using assms(1,3) False by (auto simp: buf_inv_def nat_le_iff)
  ultimately show ?thesis by (metis adjustBuffer_keeps)
qed

lemma moveWriteIndex_keeps:
  assumes "buf_inv b" "moveWriteIndex b n = Some b'" "0 \<le> n"
  shows "buf_inv b'"
proof (cases "int (m_write_index b) + n < 0 \<or> int (length (m_buffer b)) \<le> int (m_write_index b) + n")
  case True
  then show ?thesis using assms(1,2) by (auto simp: moveWriteIndex_def Let_def split: if_splits)
next
  case False
  then have "adjustBuffer (b\<lparr>m_write_index := nat (int (m_write_index b) + n)\<rparr>) = Some b'"
    using assms(2) by (auto simp: moveWriteIndex_def Let_def split: if_splits)
  moreover have "buf_inv (b\<lparr>m_write_index := nat (int (m_write_index b) + n)\<rparr>)"
    using assms(1,3) False by (auto simp: buf_inv_def)
  ultimately show ?thesis by (metis adjustBuffer_keeps)
qed

section \<open>The coder\<close>

lemma encode_keeps [talon_inv]: "buf_inv b \<Longrightarrow> encode ms b = Some (xs, b') \<Longrightarrow> buf_inv b'"
proof (induction ms arbitrary: b xs)
  case (Cons m ms)
  from Cons.prems(2) obtain buf msg b1 ys where s: "encodeTinyPB m = Some (buf, msg)"
      "(if length buf \<noteq> 0 then writeToBuffer b buf else Some b) = Some b1" "encode ms b1 = Some (ys, b')"
    by (auto simp: bind_eq_Some_conv)
  have "buf_inv b1" using s(2) Cons.prems(1) by (auto split: if_splits intro: writeToBuffer_keeps)
  from Cons.IH [OF this s(3)] show ?case .
qed simp

lemma scan_at_bounds: "scan_at tmp w i = Some (Some (e, len)) \<Longrightarrow> e < int w \<and> e = int i + sint len - 1"
  by (auto simp: scan_at_def bind_eq_Some_conv Let_def split: if_splits)

lemma scan_bounds:
  "scan tmp w i = Some (Scan_Found s e len) \<Longrightarrow> i \<le> s \<and> e < int w \<and> e = int s + sint len - 1"
proof (induction tmp w i rule: scan.induct)
  case (1 tmp w i)
  then show ?case
    by (auto simp: scan.simps [of tmp w i] bind_eq_Some_conv split: if_splits option.splits dest!: scan_at_bounds)
qed

lemma decode_step_keeps:
  assumes "buf_inv b" "decode_step b = Some (Decode_Next b' m)"
  shows "buf_inv b'"
proof -
  obtain s e len where "scan (m_buffer b) (writeIndex b) (readIndex b) = Some (Scan_Found s e len)"
      and mv: "moveReadIndex b (e - int s + 1) = Some b'"
    using assms(2) by (cases "scan (m_buffer b) (writeIndex b) (readIndex b)"; cases "the (scan (m_buffer b) (writeIndex b) (readIndex b))")
      (auto simp: decode_step_def Let_def bind_eq_Some_conv)
  from scan_bounds [OF this(1)] have "int (m_read_index b) + (e - int s + 1) \<le> int (m_write_index b)"
    by (simp add: readIndex_def writeIndex_def)
  from moveReadIndex_keeps [OF assms(1) mv this] show ?thesis .
qed

lemma decode_keeps_aux:
  assumes "decode ms b = Some r"
  shows "buf_inv b \<longrightarrow> (\<forall>xs b'. r = Returns (xs, b') \<longrightarrow> buf_inv b')"
  by (rule decode.raw_induct [of "\<lambda>ms b r. buf_inv b \<longrightarrow> (\<forall>xs b'. r = Returns (xs, b') \<longrightarrow> buf_inv b')", OF _ assms])
     (auto split: option.splits decode_result.splits dest: decode_step_keeps)

lemma decode_keeps [talon_inv]: "buf_inv b \<Longrightarrow> decode ms b = Some (Returns (xs, b')) \<Longrightarrow> buf_inv b'"
  using decode_keeps_aux by blast

section \<open>Reading\<close>

lemma onRead_step_keeps:
  assumes "buf_inv b" "onRead_step b s = Some r"
  shows "case r of Read_Break c b' s' \<Rightarrow> buf_inv b' | Read_On b' s' \<Rightarrow> buf_inv b'"
proof -
  obtain b1 where b1: "(if writeAble b = 0 then do {
              require (int_ok (2 * int (length (m_buffer b))));
              resizeBuffer b (2 * int (length (m_buffer b))) }
           else Some b) = Some b1"
    using assms(2) by (auto simp: onRead_step_def bind_eq_Some_conv)
  have i: "buf_inv b1" using b1 assms(1) by (auto simp: int_ok_def split: if_splits intro: resizeBuffer_keeps)
  show ?thesis
  proof (cases "si_chunks s")
    case Nil
    then show ?thesis using assms(2) b1 i by (auto simp: onRead_step_def Let_def split: sock_end.splits)
  next
    case (Cons c cs)
    let ?rt = "min (writeAble b1) (int (length c))"
    show ?thesis
    proof (cases "?rt = 0")
      case True
      then show ?thesis using assms(2) b1 i Cons by (auto simp: onRead_step_def Let_def split: if_splits)
    next
      case False
      then obtain mem b2 where m: "mem_write (m_buffer b1) (int (writeIndex b1)) (take (nat ?rt) c) = Some mem"
          "moveWriteIndex (b1\<lparr>m_buffer := mem\<rparr>) ?rt = Some b2" "0 \<le> ?rt"
          "r = (if ?rt = writeAble b1 then Read_On b2 (s\<lparr>si_chunks := chunk_rest (drop (nat ?rt) c) cs\<rparr>)
             else Read_Break False b2 (s\<lparr>si_chunks := chunk_rest (drop (nat ?rt) c) cs\<rparr>))"
        using assms(2) b1 Cons by (auto simp: onRead_step_def Let_def bind_eq_Some_conv split: if_splits)
      have "buf_inv (b1\<lparr>m_buffer := mem\<rparr>)" using i mem_write_length [OF m(1)] by (simp add: buf_inv_def)
      from moveWriteIndex_keeps [OF this m(2,3)] show ?thesis using m(4) by auto
    qed
  qed
qed

lemma onRead_loop_keeps_aux:
  assumes "onRead_loop b s = Some r"
  shows "buf_inv b \<longrightarrow> (\<forall>c b' s'. r = Returns (c, b', s') \<longrightarrow> buf_inv b')"
  by (rule onRead_loop.raw_induct [of "\<lambda>b s r. buf_inv b \<longrightarrow> (\<forall>c b' s'. r = Returns (c, b', s') \<longrightarrow> buf_inv b')", OF _ assms])
     (auto split: option.splits read_step.splits dest: onRead_step_keeps)

lemma onRead_loop_keeps [talon_inv]: "buf_inv b \<Longrightarrow> onRead_loop b s = Some (Returns (c, b', s')) \<Longrightarrow> buf_inv b'"
  using onRead_loop_keeps_aux by blast

end
