(* ===== verification/Io_Threads.thy ===== *)
theory Io_Threads
  imports Event_Loop
begin

text \<open>
  IO threads and their group, \<^verbatim>\<open>net/iothread.{h,cc}\<close> and \<^verbatim>\<open>net/iothreadgroup.{h,cc}\<close>.  A thread is a state
  machine: its \<open>Main\<close> creates the event loop, posts the init semaphore (the constructor waits for
  it), waits for the start semaphore, and loops.
\<close>

section \<open>IOThread\<close>

datatype io_phase = Waiting_Start | Running_Loop | Ended

record io_thread =
  it_thread_id :: int
  it_loop :: event_loop
  it_init_semaphore :: nat
  it_start_semaphore :: nat
  it_phase :: io_phase

text \<open>
  The constructor returns once \<open>Main\<close> has created the loop and posted; \<open>None\<close> when the loop
  cannot be created (the process exits).
\<close>

definition IOThread_new :: "(int \<Rightarrow> bool) \<Rightarrow> loop_sys \<Rightarrow> fd_event_group \<Rightarrow> io_thread option" where
  "IOThread_new fd_ok sys grp = do {
     l \<leftarrow> Eventloop_new fd_ok False sys grp;
     Some \<lparr>it_thread_id = lsys_tid sys, it_loop = l, it_init_semaphore = 0, it_start_semaphore = 0,
           it_phase = Waiting_Start\<rparr> }"

definition IOThread_start :: "io_thread \<Rightarrow> io_thread" where
  "IOThread_start t = t\<lparr>it_start_semaphore := it_start_semaphore t + 1\<rparr>"

text \<open>
  A step of \<open>Main\<close> after the init post: pass the start semaphore, or one round of the loop (it ends
  when the stop flag is seen).  A step that has to wait leaves the thread as it is.
\<close>

definition IOThread_Main_step :: "loop_env \<Rightarrow> wait_result \<Rightarrow> io_thread \<Rightarrow> io_thread option" where
  "IOThread_Main_step env w t = (case it_phase t of
     Waiting_Start \<Rightarrow>
       if 0 < it_start_semaphore t
       then Some (t\<lparr>it_start_semaphore := it_start_semaphore t - 1, it_phase := Running_Loop,
                    it_loop := (it_loop t)\<lparr>m_is_looping := True\<rparr>\<rparr>)
       else Some t
   | Running_Loop \<Rightarrow>
       if m_stop_flag (it_loop t) then Some (t\<lparr>it_phase := Ended\<rparr>)
       else do { l \<leftarrow> loop_iter env (it_thread_id t) w (it_loop t); Some (t\<lparr>it_loop := l\<rparr>) }
   | Ended \<Rightarrow> Some t)"

fun IOThread_Main :: "loop_env \<Rightarrow> wait_result list \<Rightarrow> io_thread \<Rightarrow> io_thread option" where
  "IOThread_Main env [] t = Some t"
| "IOThread_Main env (w # ws) t = do { t1 \<leftarrow> IOThread_Main_step env w t; IOThread_Main env ws t1 }"

text \<open>The destructor stops the loop before it joins; the join returns when the thread has ended.\<close>

definition IOThread_delete_begin :: "io_thread \<Rightarrow> io_thread" where
  "IOThread_delete_begin t = t\<lparr>it_loop := loop_stop (it_loop t)\<rparr>"

definition joinable_now :: "io_thread \<Rightarrow> bool" where
  "joinable_now t \<longleftrightarrow> it_phase t = Ended"

text \<open>
  The whole destructor, for the results \<open>ws\<close> of \<open>epoll_wait\<close> in the thread while it joins: \<open>Some None\<close> when the join has
  not returned by then, else the descriptors that are still open.
\<close>

definition IOThread_delete :: "loop_env \<Rightarrow> wait_result list \<Rightarrow> io_thread \<Rightarrow> int set \<Rightarrow> int set option option" where
  "IOThread_delete env ws t fds = do {
     t \<leftarrow> IOThread_Main env ws (IOThread_delete_begin t);
     Some (if joinable_now t then Some (Eventloop_delete (it_loop t) fds) else None) }"

definition getEventLoop :: "io_thread \<Rightarrow> event_loop" where
  "getEventLoop t = it_loop t"

section \<open>IOThreadGroup\<close>

record io_thread_group =
  itg_size :: int
  m_io_thread_groups :: "io_thread list"
  m_index :: int

fun new_threads :: "(int \<Rightarrow> bool) \<Rightarrow> fd_event_group \<Rightarrow> loop_sys list \<Rightarrow> io_thread list option" where
  "new_threads fd_ok grp [] = Some []"
| "new_threads fd_ok grp (sys # ss) = do {
     t \<leftarrow> IOThread_new fd_ok sys grp;
     ts \<leftarrow> new_threads fd_ok grp ss;
     Some (t # ts) }"

text \<open>\<open>resize\<close> throws on a negative size.\<close>

definition IOThreadGroup_new ::
    "(int \<Rightarrow> bool) \<Rightarrow> fd_event_group \<Rightarrow> (nat \<Rightarrow> loop_sys) \<Rightarrow> int \<Rightarrow> io_thread_group option" where
  "IOThreadGroup_new fd_ok grp sys sz = do {
     require (0 \<le> sz);
     ts \<leftarrow> new_threads fd_ok grp (map sys [0 ..< nat sz]);
     Some \<lparr>itg_size = sz, m_io_thread_groups = ts, m_index = 0\<rparr> }"

definition IOThreadGroup_start :: "io_thread_group \<Rightarrow> io_thread_group" where
  "IOThreadGroup_start g = g\<lparr>m_io_thread_groups := map IOThread_start (m_io_thread_groups g)\<rparr>"

definition IOThreadGroup_join :: "io_thread_group \<Rightarrow> bool" where
  "IOThreadGroup_join g \<longleftrightarrow> (\<forall>t \<in> set (m_io_thread_groups g). joinable_now t)"

text \<open>The index of the thread handed out; indexing an empty vector is undefined.\<close>

definition getIOThread :: "io_thread_group \<Rightarrow> (nat \<times> io_thread_group) option" where
  "getIOThread g =
     (let i = (if m_index g = int (length (m_io_thread_groups g)) \<or> m_index g = -1 then 0 else m_index g) in
      if 0 \<le> i \<and> i < int (length (m_io_thread_groups g)) then Some (nat i, g\<lparr>m_index := i + 1\<rparr>) else None)"

text \<open>The destructor of the group is empty: the threads keep running.\<close>

definition IOThreadGroup_delete :: "io_thread_group \<Rightarrow> io_thread list" where
  "IOThreadGroup_delete g = m_io_thread_groups g"

definition getIOThread_group :: "io_thread_group \<Rightarrow> io_thread list" where
  "getIOThread_group g = m_io_thread_groups g"

fun get_threads :: "nat \<Rightarrow> io_thread_group \<Rightarrow> (nat list \<times> io_thread_group) option" where
  "get_threads 0 g = Some ([], g)"
| "get_threads (Suc k) g = do {
     (i, g1) \<leftarrow> getIOThread g;
     (is, g2) \<leftarrow> get_threads k g1;
     Some (i # is, g2) }"

section \<open>Lemmas\<close>

lemma new_threads_length:
  "new_threads fd_ok grp ss = Some ts \<Longrightarrow> length ts = length ss \<and> (\<forall>t \<in> set ts. it_phase t = Waiting_Start)"
  by (induction ss arbitrary: ts) (auto simp: IOThread_new_def split: Option.bind_splits)

lemma getIOThread_at:
  assumes "m_index g = int i" "i \<le> n" "length (m_io_thread_groups g) = n" "0 < n"
  shows "getIOThread g = Some (i mod n, g\<lparr>m_index := int (i mod n) + 1\<rparr>)"
  using assms by (cases "i = n") (auto simp: getIOThread_def)

lemma get_threads_at:
  assumes "m_index g = int i" "i \<le> n" "length (m_io_thread_groups g) = n" "0 < n"
  shows "\<exists>g'. get_threads k g = Some (map (\<lambda>j. (i + j) mod n) [0 ..< k], g')"
  using assms
proof (induction k arbitrary: g i)
  case 0
  then show ?case by simp
next
  case (Suc k)
  note g = getIOThread_at [OF Suc.prems]
  let ?g = "g\<lparr>m_index := int (i mod n) + 1\<rparr>"
  have "m_index ?g = int (Suc (i mod n))" "Suc (i mod n) \<le> n" using Suc.prems(4) by (simp_all add: Suc_le_eq)
  then obtain g' where "get_threads k ?g = Some (map (\<lambda>j. (Suc (i mod n) + j) mod n) [0 ..< k], g')"
    using Suc.IH [of ?g "Suc (i mod n)"] Suc.prems(3,4) by auto
  moreover have "(Suc (i mod n) + j) mod n = (i + Suc j) mod n" for j
    by (metis add_Suc add_Suc_right mod_Suc_eq mod_add_left_eq)
  moreover have "[0 ..< Suc k] = 0 # map Suc [0 ..< k]" by (simp add: map_Suc_upt upt_conv_Cons del: upt_Suc)
  ultimately show ?case using g by (simp del: upt_Suc)
qed

section \<open>Properties\<close>

text \<open>
  A group of \<open>n > 0\<close> threads hands them out round robin: the \<open>k\<close>-th of any number of calls after
  construction returns thread \<open>k mod n\<close> and never indexes outside the vector; an empty group
  has no thread to return.
\<close>

theorem getIOThread_round_robin:
  assumes "IOThreadGroup_new fd_ok grp sys sz = Some g"
  shows "if sz = 0 then getIOThread g = None
    else \<exists>g'. get_threads k g = Some (map (\<lambda>j. j mod nat sz) [0 ..< k], g')"
proof -
  from assms have "0 \<le> sz" "m_index g = 0" "length (m_io_thread_groups g) = nat sz"
    by (auto simp: IOThreadGroup_new_def split: if_splits Option.bind_splits dest!: new_threads_length)
  then show ?thesis using get_threads_at [of g 0 "nat sz" k] by (auto simp: getIOThread_def)
qed

theorem getIOThread_round_robin_witness:
  "\<exists>g g'. IOThreadGroup_new (\<lambda>_. True) (FdEventGroup_new 128) (\<lambda>_. demo_sys_loop) 2 = Some g \<and>
     get_threads 3 g = Some (map (\<lambda>j. j mod nat 2) [0 ..< 3], g')"
proof -
  have "\<exists>l. Eventloop_new (\<lambda>_. True) False demo_sys_loop (FdEventGroup_new 128) = Some l"
    by (simp add: Eventloop_new_def demo_sys_loop_def initWakeUpFdEevent_def initTimer_def addEpollEvent_def
        isInLoopThread_def add_to_epoll_def ev_at_def epoll_ctl_def getFd_def Let_def Timer_new_def fd_listen_def
        fd_event.defs Fd_Event_new_def)
  then obtain g where g: "IOThreadGroup_new (\<lambda>_. True) (FdEventGroup_new 128) (\<lambda>_. demo_sys_loop) 2 = Some g"
    by (auto simp: IOThreadGroup_new_def IOThread_new_def numeral_2_eq_2)
  then show ?thesis using getIOThread_round_robin [OF g, of 3] by auto
qed

text \<open>
  Destroying a running thread ends it at its next check of the stop flag and closes the epoll descriptor, but neither
  the wake-up descriptor nor that of the timer; destroying a thread that was never started does not return,
  because the thread stays blocked on the start semaphore whatever epoll reports.
\<close>

theorem IOThread_delete_ends_running_only:
  assumes "it_phase t = Running_Loop \<or> it_phase t = Waiting_Start \<and> it_start_semaphore t = 0" "ws \<noteq> []"
  shows "IOThread_delete env ws t fds =
    Some (if it_phase t = Running_Loop then Some (fds - {el_epoll_fd (it_loop t)}) else None)"
proof -
  let ?t = "IOThread_delete_begin t"
  have p: "it_phase ?t = it_phase t" "it_start_semaphore ?t = it_start_semaphore t" "m_stop_flag (it_loop ?t)"
      "el_epoll_fd (it_loop ?t) = el_epoll_fd (it_loop t)"
    by (simp_all add: IOThread_delete_begin_def loop_stop_def wakeup_def)
  have ended: "IOThread_Main env ws t = Some t" if "it_phase t = Ended" for ws t
    using that by (induction ws) (auto simp: IOThread_Main_step_def)
  have waits: "IOThread_Main env ws ?t = Some ?t" if "it_phase t = Waiting_Start" "it_start_semaphore t = 0" for ws
    using that p by (induction ws) (auto simp: IOThread_Main_step_def)
  obtain w ws' where ws: "ws = w # ws'" using assms(2) by (cases ws) auto
  show ?thesis
  proof (cases "it_phase t = Running_Loop")
    case True
    then have "IOThread_Main env ws ?t = Some (?t\<lparr>it_phase := Ended\<rparr>)"
      using p ended [of "?t\<lparr>it_phase := Ended\<rparr>"] by (simp add: ws IOThread_Main_step_def)
    then show ?thesis using True p(4) by (simp add: IOThread_delete_def joinable_now_def Eventloop_delete_def)
  next
    case False
    then show ?thesis using assms(1) waits [of ws] p(1) by (simp add: IOThread_delete_def joinable_now_def)
  qed
qed

theorem IOThread_delete_ends_running_only_witness:
  "IOThread_delete demo_env [Wait_Events []] \<lparr>it_thread_id = 1, it_loop = demo_loop, it_init_semaphore = 0,
     it_start_semaphore = 0, it_phase = Waiting_Start\<rparr> {3, 4, 5} = Some None"
  by (subst IOThread_delete_ends_running_only) simp_all

end
