(* ===== verification/Tcp_Server.thy ===== *)
theory Tcp_Server
  imports Tcp_Connection Io_Threads Config_File
begin

text \<open>
  The listening side, \<^verbatim>\<open>net/tcp/tcp_acceptor.{h,cc}\<close> and \<^verbatim>\<open>net/tcp/tcp_server.{h,cc}\<close>: the acceptor with its
  start-up checks, the server's initialisation, \<open>onAccept\<close>, and the periodic removal of closed connections.
  Connections are shared objects: \<open>srv_conns\<close> has them by the index of their descriptor event, and \<open>m_client\<close> holds
  pointers to them, with the number of the IO thread that owns each.
\<close>

section \<open>TcpAcceptor\<close>

record acceptor_sys =
  asys_socket :: int
  asys_bind :: int
  asys_listen :: int

record tcp_acceptor =
  acc_local_addr :: ip_net_addr
  acc_family :: nat
  acc_listenfd :: int

text \<open>\<open>None\<close>: the process exits.\<close>

definition TcpAcceptor_new :: "(string \<Rightarrow> 32 word) \<Rightarrow> acceptor_sys \<Rightarrow> ip_net_addr \<Rightarrow> tcp_acceptor option" where
  "TcpAcceptor_new inet_addr sys local_addr =
     (if \<not> checkValid inet_addr local_addr then None
      else if asys_socket sys < 0 then None
      else if asys_bind sys \<noteq> 0 then None
      else if asys_listen sys \<noteq> 0 then None
      else Some \<lparr>acc_local_addr = local_addr, acc_family = getFamily local_addr, acc_listenfd = asys_socket sys\<rparr>)"

definition getListenFd :: "tcp_acceptor \<Rightarrow> int" where
  "getListenFd a = acc_listenfd a"

text \<open>
  \<open>::accept\<close> is told that the address has room for \<open>sizeof(socklen_t)\<close>, that is four, bytes: the family and the
  port are stored, the internet address keeps its zeroes.
\<close>

definition truncated_sockaddr :: "sockaddr_in \<Rightarrow> sockaddr_in" where
  "truncated_sockaddr sa = sa\<lparr>sin_addr := 0\<rparr>"

definition acceptor_accept ::
    "(32 word \<Rightarrow> string) \<Rightarrow> int \<Rightarrow> sockaddr_in \<Rightarrow> tcp_acceptor \<Rightarrow> int \<times> ip_net_addr option" where
  "acceptor_accept inet_ntoa client_fd client_addr a =
     (if acc_family a = AF_INET
      then (client_fd, Some (IPNetAddr_of_sockaddr inet_ntoa (truncated_sockaddr client_addr)))
      else (-1, None))"

section \<open>TcpServer\<close>

record tcp_server =
  srv_acceptor :: tcp_acceptor
  srv_local_addr :: ip_net_addr
  srv_main_loop :: event_loop
  srv_threads :: io_thread_group
  m_client_counts :: int
  m_client :: "(nat \<times> nat) list"
  srv_conns :: "nat \<rightharpoonup> tcp_connection"
  srv_clear_timer :: nat

text \<open>
  \<open>init\<close> for a main loop \<open>main\<close> and a group of threads: the listening event, and a repeated timer event of
  five seconds at address \<open>te\<close> of the timer's heap; \<open>clear_task\<close> names the closure that calls
  \<open>ClearClientTimerFunc\<close>.
\<close>

definition TcpServer_init ::
    "(int \<Rightarrow> bool) \<Rightarrow> (nat \<Rightarrow> int) \<Rightarrow> int \<Rightarrow> tcp_acceptor \<Rightarrow> event_loop \<Rightarrow> io_thread_group \<Rightarrow> nat \<Rightarrow> task \<Rightarrow> tcp_server option" where
  "TcpServer_init fd_ok clock tid acc main threads te clear_task = do {
     let e = fd_listen Listen_Event IN_EVENT (Some On_Accept) None (Fd_Event_new (getListenFd acc));
     main \<leftarrow> addEpollEvent fd_ok tid Listen_Event (main\<lparr>el_listen := Some e\<rparr>);
     let tm = el_timer main;
     let tm = (tick tm)\<lparr>tm_heap := (tm_heap tm)(te := TimerEvent_new (clock (tm_ticks tm)) 5000 True (Some clear_task))\<rparr>;
     let main = loop_addTimerEvent clock te (main\<lparr>el_timer := tm\<rparr>);
     Some \<lparr>srv_acceptor = acc, srv_local_addr = acc_local_addr acc, srv_main_loop = main, srv_threads = threads,
           m_client_counts = 0, m_client = [], srv_conns = Map.empty, srv_clear_timer = te\<rparr> }"

text \<open>
  The constructor, in the thread \<open>tid\<close>, whose loop is \<open>current\<close> if it has one already: the acceptor, the loop, the IO
  threads the configuration asks for, then \<open>init\<close>.  A null global configuration is dereferenced.
\<close>

definition TcpServer_new ::
    "(string \<Rightarrow> 32 word) \<Rightarrow> acceptor_sys \<Rightarrow> (int \<Rightarrow> bool) \<Rightarrow> (nat \<Rightarrow> int) \<Rightarrow> int \<Rightarrow> event_loop option \<Rightarrow> loop_sys \<Rightarrow> (nat \<Rightarrow> loop_sys)
       \<Rightarrow> fd_event_group \<Rightarrow> config option \<Rightarrow> nat \<Rightarrow> task \<Rightarrow> ip_net_addr \<Rightarrow> tcp_server option" where
  "TcpServer_new inet_addr asys fd_ok clock tid current main_sys sys grp cfg te clear_task local_addr = do {
     acc \<leftarrow> TcpAcceptor_new inet_addr asys local_addr;
     main \<leftarrow> GetCurrentEventLoop fd_ok current main_sys grp;
     c \<leftarrow> cfg;
     threads \<leftarrow> IOThreadGroup_new fd_ok grp sys (m_io_threads c);
     TcpServer_init fd_ok clock tid acc main threads te clear_task }"

text \<open>The destructor: the IO threads are left running, the listening socket and the clients' descriptors open.\<close>

definition TcpServer_delete :: "tcp_server \<Rightarrow> int set \<Rightarrow> io_thread list \<times> int set" where
  "TcpServer_delete s fds = (IOThreadGroup_delete (srv_threads s), Eventloop_delete (srv_main_loop s) fds)"

definition update_thread_loop :: "nat \<Rightarrow> event_loop \<Rightarrow> io_thread_group \<Rightarrow> io_thread_group" where
  "update_thread_loop i l g =
     g\<lparr>m_io_thread_groups := (m_io_thread_groups g)[i := (m_io_thread_groups g ! i)\<lparr>it_loop := l\<rparr>]\<rparr>"

definition onAccept ::
    "(int \<Rightarrow> bool) \<Rightarrow> (32 word \<Rightarrow> string) \<Rightarrow> int \<Rightarrow> int32 \<Rightarrow> int \<Rightarrow> sockaddr_in \<Rightarrow> tcp_server \<Rightarrow> tcp_server option" where
  "onAccept fd_ok inet_ntoa tid flag accepted client_addr s = do {
     let (client_fd, peer_addr) = acceptor_accept inet_ntoa accepted client_addr (srv_acceptor s);
     let s = s\<lparr>m_client_counts := m_client_counts s + 1\<rparr>;
     (i, g) \<leftarrow> getIOThread (srv_threads s);
     (c, l) \<leftarrow> TcpConnection_new fd_ok tid flag client_fd 128 peer_addr (Some (srv_local_addr s))
       TcpConnectionByServer (getEventLoop (m_io_thread_groups g ! i));
     let c = setState Connected c;
     Some (s\<lparr>srv_threads := update_thread_loop i l g, m_client := m_client s @ [(i, conn_fd_event c)],
             srv_conns := (srv_conns s)(conn_fd_event c \<mapsto> c)\<rparr>) }"

definition TcpServer_start :: "loop_env \<Rightarrow> int \<Rightarrow> wait_result list \<Rightarrow> tcp_server \<Rightarrow> tcp_server option" where
  "TcpServer_start env tid ws s = do {
     let s = s\<lparr>srv_threads := IOThreadGroup_start (srv_threads s)\<rparr>;
     l \<leftarrow> loop env tid ws (srv_main_loop s);
     Some (s\<lparr>srv_main_loop := l\<rparr>) }"

text \<open>A connection that leaves the set of clients is destroyed: the set holds the last pointer to it.\<close>

definition client_closed :: "tcp_server \<Rightarrow> nat \<times> nat \<Rightarrow> bool" where
  "client_closed s it = (case srv_conns s (snd it) of None \<Rightarrow> False | Some c \<Rightarrow> getState c = Closed)"

definition ClearClientTimerFunc :: "tcp_server \<Rightarrow> tcp_server" where
  "ClearClientTimerFunc s =
     s\<lparr>m_client := filter (\<lambda>it. \<not> client_closed s it) (m_client s),
       srv_conns := (srv_conns s) |` (- snd ` set (filter (client_closed s) (m_client s)))\<rparr>"

section \<open>Lemmas\<close>

text \<open>A new server connection created by a thread other than the one that owns the loop.\<close>

lemma TcpConnection_new_cross_thread:
  assumes "group_inv (el_group l)" "0 \<le> fd" "int_ok (3 * fd div 2)" "\<not> isInLoopThread tid l"
  shows "\<exists>c l'. TcpConnection_new fd_ok tid flag fd 128 peer loc TcpConnectionByServer l = Some (c, l') \<and>
    conn_fd c = fd \<and> conn_fd_event c = nat fd \<and> conn_state c = NotConnected \<and> conn_peer_addr c = peer \<and> conn_type c = TcpConnectionByServer \<and>
    buf_inv (m_in_buffer c) \<and> contents (m_in_buffer c) = [] \<and> buf_inv (m_out_buffer c) \<and> contents (m_out_buffer c) = [] \<and>
    m_pending_tasks l' = m_pending_tasks l @ [Some (Add_To_Epoll (Group_Event (nat fd)))] \<and> 0 < el_eventfd l' \<and>
    (\<exists>e. ev_at l' (Group_Event (nat fd)) = Some e \<and> wants_in e \<and> fde_fd e = fd)"
proof -
  obtain g e where g: "getFdEvent fd (el_group l) = Some (nat fd, g)" "m_fd_group g ! nat fd = Some e" "fde_fd e = fd"
      "group_inv g" "nat fd < length (m_fd_group g)"
    using getFdEvent_entry [OF assms(1-3)] by blast
  let ?l = "l\<lparr>el_group := g\<rparr>" and ?p = "Group_Event (nat fd)"
  have e: "ev_at ?l ?p = Some e" using g by (simp add: ev_at_def)
  let ?f = "fd_listen ?p IN_EVENT (Some (On_Read (nat fd))) None"
  obtain l1 where l1: "update_event (nat fd) ?f ?l = Some l1" "ev_at l1 ?p = Some (?f e)"
      "el_thread_id l1 = el_thread_id ?l" "m_pending_tasks l1 = m_pending_tasks ?l"
    using update_event_ok [OF e, of ?f] by blast
  have t: "\<not> isInLoopThread tid l1" using assms(4) l1(3) by (simp add: isInLoopThread_def)
  let ?l' = "addTask (Some (Add_To_Epoll ?p)) True l1"
  have "addEpollEvent fd_ok tid ?p l1 = Some ?l'" using t by (simp add: addEpollEvent_def)
  moreover have "buf_inv (the (TcpBuffer_new 128))" "contents (the (TcpBuffer_new 128)) = []"
      "TcpBuffer_new 128 = Some (the (TcpBuffer_new 128))"
    by (simp_all add: TcpBuffer_new_def buf_inv_def contents_def)
  ultimately show ?thesis using g(1,3) l1
    by (simp add: TcpConnection_new_def listenRead_def) (simp add: TcpBuffer_new_def)
qed

section \<open>Properties\<close>

text \<open>The thread the next connection goes to, and its loop.\<close>

definition next_thread :: "tcp_server \<Rightarrow> nat" where
  "next_thread s = nat (m_index (srv_threads s)) mod length (m_io_thread_groups (srv_threads s))"

definition next_loop :: "tcp_server \<Rightarrow> event_loop" where
  "next_loop s = it_loop (m_io_thread_groups (srv_threads s) ! next_thread s)"

definition server_ok :: "int \<Rightarrow> tcp_server \<Rightarrow> bool" where
  "server_ok tid s \<longleftrightarrow> acc_family (srv_acceptor s) = AF_INET \<and> m_io_thread_groups (srv_threads s) \<noteq> [] \<and>
     0 \<le> m_index (srv_threads s) \<and> m_index (srv_threads s) \<le> int (length (m_io_thread_groups (srv_threads s))) \<and>
     group_inv (el_group (next_loop s)) \<and> \<not> isInLoopThread tid (next_loop s)"

text \<open>
  C14. An accepted connection is handed to the IO threads in turn: it is added to the clients as connected, with
  empty buffers, and its registration for reading is queued in the loop of that thread, which is
  woken up.  The peer's internet address is always recorded as zero, because \<open>accept\<close> is given
  room for four bytes of it; a failed \<open>accept\<close> is an access outside the event table.
\<close>

theorem onAccept_hands_to_io_thread:
  assumes "server_ok tid s" "int_ok (3 * fd div 2)"
  shows "if fd < 0 then onAccept fd_ok inet_ntoa tid flag fd sa s = None
    else \<exists>c s'. onAccept fd_ok inet_ntoa tid flag fd sa s = Some s' \<and>
      m_client s' = m_client s @ [(next_thread s, nat fd)] \<and> srv_conns s' = (srv_conns s)(nat fd \<mapsto> c) \<and> m_client_counts s' = m_client_counts s + 1 \<and>
      m_index (srv_threads s') = int (next_thread s) + 1 \<and>
      conn_state c = Connected \<and> conn_fd c = fd \<and> contents (m_in_buffer c) = [] \<and> contents (m_out_buffer c) = [] \<and>
      map_option getIp (conn_peer_addr c) = Some (inet_ntoa 0) \<and>
      (let l = it_loop (m_io_thread_groups (srv_threads s') ! next_thread s) in
         m_pending_tasks l = m_pending_tasks (next_loop s) @ [Some (Add_To_Epoll (Group_Event (nat fd)))] \<and> 0 < el_eventfd l)"
proof -
  let ?g = "srv_threads s" and ?k = "next_thread s"
  let ?n = "length (m_io_thread_groups ?g)"
  let ?peer = "Some (IPNetAddr_of_sockaddr inet_ntoa (truncated_sockaddr sa))"
  have n: "0 < ?n" "m_index ?g = int (nat (m_index ?g))" "nat (m_index ?g) \<le> ?n"
    using assms(1) by (auto simp: server_ok_def)
  have g: "getIOThread ?g = Some (?k, ?g\<lparr>m_index := int ?k + 1\<rparr>)"
    using getIOThread_at [OF n(2,3) refl n(1)] by (simp add: next_thread_def)
  have a: "acceptor_accept inet_ntoa fd sa (srv_acceptor s) = (fd, ?peer)"
    using assms(1) by (simp add: acceptor_accept_def server_ok_def)
  have k: "?k < ?n" using n(1) by (simp add: next_thread_def)
  show ?thesis
  proof (cases "fd < 0")
    case True
    then have "TcpConnection_new fd_ok tid flag fd 128 ?peer (Some (srv_local_addr s)) TcpConnectionByServer (next_loop s) = None"
      by (simp add: TcpConnection_new_def getFdEvent_def TcpBuffer_new_def)
    then show ?thesis using True a g by (simp add: onAccept_def getEventLoop_def next_loop_def)
  next
    case False
    obtain c l where c: "TcpConnection_new fd_ok tid flag fd 128 ?peer (Some (srv_local_addr s)) TcpConnectionByServer (next_loop s) = Some (c, l)"
        "conn_fd c = fd" "conn_fd_event c = nat fd" "conn_peer_addr c = ?peer" "contents (m_in_buffer c) = []" "contents (m_out_buffer c) = []"
        "m_pending_tasks l = m_pending_tasks (next_loop s) @ [Some (Add_To_Epoll (Group_Event (nat fd)))]" "0 < el_eventfd l"
      using TcpConnection_new_cross_thread [of "next_loop s" fd tid fd_ok flag ?peer "Some (srv_local_addr s)"]
        assms False by (auto simp: server_ok_def)
    let ?c = "setState Connected c"
    have "onAccept fd_ok inet_ntoa tid flag fd sa s = Some (s\<lparr>m_client_counts := m_client_counts s + 1,
        srv_threads := update_thread_loop ?k l (?g\<lparr>m_index := int ?k + 1\<rparr>), m_client := m_client s @ [(?k, nat fd)],
        srv_conns := (srv_conns s)(nat fd \<mapsto> ?c)\<rparr>)"
      using a g c by (simp add: onAccept_def getEventLoop_def Let_def next_loop_def [symmetric] setState_def)
    moreover have "map_option getIp ?peer = Some (inet_ntoa 0)"
      by (simp add: getIp_def IPNetAddr_of_sockaddr_def truncated_sockaddr_def)
    ultimately show ?thesis using False c k
      by (simp, intro exI [of _ ?c]) (simp add: setState_def update_thread_loop_def Let_def)
  qed
qed

definition demo_server :: tcp_server where
  "demo_server = \<lparr>srv_acceptor = \<lparr>acc_local_addr = \<lparr>m_ip = ''127.0.0.1'', m_port = 80, m_addr = None\<rparr>, acc_family = 2, acc_listenfd = 7\<rparr>,
     srv_local_addr = \<lparr>m_ip = ''127.0.0.1'', m_port = 80, m_addr = None\<rparr>, srv_main_loop = demo_loop,
     srv_threads = \<lparr>itg_size = 1, m_io_thread_groups = [\<lparr>it_thread_id = 1, it_loop = demo_loop, it_init_semaphore = 0,
       it_start_semaphore = 0, it_phase = Waiting_Start\<rparr>], m_index = 1\<rparr>,
     m_client_counts = 0, m_client = [], srv_conns = Map.empty, srv_clear_timer = 0\<rparr>"

theorem onAccept_hands_to_io_thread_witness:
  "\<exists>c s'. onAccept (\<lambda>_. True) (\<lambda>_. ''0.0.0.0'') 2 0 9 \<lparr>sin_family = 2, sin_addr = 5, sin_port = 6\<rparr> demo_server = Some s' \<and>
     m_client s' = [(0, 9)] \<and> srv_conns s' 9 = Some c \<and> conn_state c = Connected"
proof -
  have "server_ok 2 demo_server"
    by (simp add: server_ok_def demo_server_def next_loop_def next_thread_def demo_loop_eval group_inv_new isInLoopThread_def)
  from onAccept_hands_to_io_thread [OF this, of 9 "\<lambda>_. True" "\<lambda>_. ''0.0.0.0''" 0 "\<lparr>sin_family = 2, sin_addr = 5, sin_port = 6\<rparr>"]
  show ?thesis by (auto simp: int_ok_def demo_server_def next_thread_def)
qed

text \<open>
  The periodic clean-up drops exactly the connections in state \<open>Closed\<close> and keeps the others in place;
  running it again changes nothing.
\<close>

theorem ClearClientTimerFunc_drops_closed:
  "set (m_client (ClearClientTimerFunc s)) = {it \<in> set (m_client s). \<not> client_closed s it} \<and>
   (\<forall>i c. srv_conns (ClearClientTimerFunc s) i = Some c \<longrightarrow> srv_conns s i = Some c) \<and>
   ClearClientTimerFunc (ClearClientTimerFunc s) = ClearClientTimerFunc s"
proof -
  let ?s = "ClearClientTimerFunc s"
  have n: "\<not> client_closed ?s it" if "it \<in> set (m_client ?s)" for it
    using that by (auto simp: ClearClientTimerFunc_def client_closed_def restrict_map_def split: option.splits)
  then have f: "filter (\<lambda>it. \<not> client_closed ?s it) (m_client ?s) = m_client ?s" "filter (client_closed ?s) (m_client ?s) = []"
    by (auto simp: filter_id_conv filter_empty_conv)
  have "ClearClientTimerFunc ?s = ?s\<lparr>m_client := filter (\<lambda>it. \<not> client_closed ?s it) (m_client ?s),
      srv_conns := (srv_conns ?s) |` (- snd ` set (filter (client_closed ?s) (m_client ?s)))\<rparr>"
    by (subst ClearClientTimerFunc_def) simp
  also have "\<dots> = ?s" unfolding f by (rule tcp_server.equality) (simp_all add: restrict_map_def)
  finally show ?thesis by (auto simp: ClearClientTimerFunc_def restrict_map_def split: if_splits)
qed

end
