(* ===== verification/Server_Loop.thy ===== *)
theory Server_Loop
  imports Rpc_Dispatcher Any_Input Tcp_Server
begin

text \<open>
  The loop of an IO thread with the connections it serves: the tasks queued in \<^verbatim>\<open>net/eventloop.cc\<close> are the read and
  write callbacks of \<^verbatim>\<open>net/tcp/tcp_connection.cc\<close>, and what \<open>epoll_wait\<close> reports follows from what is registered and from
  the state of the sockets.  Then the whole server as a step relation: its main thread accepts connections and cleans
  up, its IO threads run their loops, and bytes arrive.
\<close>

section \<open>One IO thread\<close>

text \<open>
  \<open>nd_conns\<close>: the connections, by the index of their event; \<open>nd_socks\<close>: what their sockets will deliver;
  \<open>nd_sent\<close>: what was written to them, in order.
\<close>

record io_node =
  nd_loop :: event_loop
  nd_conns :: "nat \<rightharpoonup> tcp_connection"
  nd_rt :: run_time
  nd_socks :: "nat \<Rightarrow> sock_in"
  nd_sent :: "(nat \<times> byte list) list"

record node_env =
  ne_fd_ok :: "int \<Rightarrow> bool"
  ne_clock :: "nat \<Rightarrow> int"
  ne_timer_reads :: "fd_read list"
  ne_timer_ready :: bool
  ne_writes :: "nat \<Rightarrow> sock_write list"
  ne_writable :: "int \<Rightarrow> bool"
  ne_error :: "int \<Rightarrow> bool"
  ne_order :: "int list"

definition loop_env_of :: "node_env \<Rightarrow> loop_env" where
  "loop_env_of env = \<lparr>env_fd_ok = ne_fd_ok env, env_clock = ne_clock env, env_timer_reads = ne_timer_reads env,
     env_client = (\<lambda>_ _. None)\<rparr>"

definition lift_outcome :: "'a option \<Rightarrow> 'a outcome option" where
  "lift_outcome x = (case x of None \<Rightarrow> Some Undefined | Some a \<Rightarrow> Some (Returns a))"

fun then_outcome :: "'a outcome option \<Rightarrow> ('a \<Rightarrow> 'b outcome option) \<Rightarrow> 'b outcome option" where
  "then_outcome None f = None"
| "then_outcome (Some Undefined) f = Some Undefined"
| "then_outcome (Some (Returns a)) f = f a"

text \<open>What a socket still has to deliver after the reading loop.\<close>

definition sock_rest :: "tcp_connection \<Rightarrow> sock_in \<Rightarrow> sock_in" where
  "sock_rest c s = (if conn_state c \<noteq> Connected then s
     else case onRead_loop (m_in_buffer c) s of Some (Returns (_, _, s')) \<Rightarrow> s' | _ \<Rightarrow> s)"

text \<open>A callback of a connection that no longer exists is a call through a dangling pointer.\<close>

definition node_task :: "node_env \<Rightarrow> ('req, 'rsp) service_map \<Rightarrow> task \<Rightarrow> io_node \<Rightarrow> io_node outcome option" where
  "node_task env smap t nd =
     (let l = nd_loop nd; tid = el_thread_id l in
      case t of
        On_Read i \<Rightarrow> (case nd_conns nd i of
            None \<Rightarrow> Some Undefined
          | Some c \<Rightarrow> then_outcome (onRead (ne_fd_ok env) tid smap (nd_rt nd) (nd_socks nd i) c l)
              (\<lambda>(c', l', rt, _). Some (Returns (nd\<lparr>nd_loop := l', nd_conns := (nd_conns nd)(i \<mapsto> c'), nd_rt := rt,
                 nd_socks := (nd_socks nd)(i := sock_rest c (nd_socks nd i))\<rparr>))))
      | On_Write i \<Rightarrow> (case nd_conns nd i of
            None \<Rightarrow> Some Undefined
          | Some c \<Rightarrow> then_outcome (lift_outcome (onWrite (ne_fd_ok env) tid (ne_writes env i) c l))
              (\<lambda>(c', l', bytes, _). Some (Returns (nd\<lparr>nd_loop := l', nd_conns := (nd_conns nd)(i \<mapsto> c'),
                 nd_sent := nd_sent nd @ (if bytes = [] then [] else [(i, bytes)])\<rparr>))))
      | _ \<Rightarrow> then_outcome (lift_outcome (run_task (loop_env_of env) t l)) (\<lambda>l'. Some (Returns (nd\<lparr>nd_loop := l'\<rparr>))))"

fun node_tasks :: "node_env \<Rightarrow> ('req, 'rsp) service_map \<Rightarrow> task option list \<Rightarrow> io_node \<Rightarrow> io_node outcome option" where
  "node_tasks env smap [] nd = Some (Returns nd)"
| "node_tasks env smap (None # ts) nd = node_tasks env smap ts nd"
| "node_tasks env smap (Some t # ts) nd = then_outcome (node_task env smap t nd) (node_tasks env smap ts)"

text \<open>
  \<open>epoll_wait\<close> is level-triggered: for the descriptors of the interest list, in the order \<open>ne_order\<close>, the registered
  conditions that hold, and errors always.
\<close>

definition sock_readable :: "sock_in \<Rightarrow> bool" where
  "sock_readable s \<longleftrightarrow> si_chunks s \<noteq> [] \<or> si_end s \<noteq> At_Again"

definition fd_readable :: "node_env \<Rightarrow> io_node \<Rightarrow> int \<Rightarrow> bool" where
  "fd_readable env nd fd =
     (if fd = el_wakeup_fd (nd_loop nd) then 0 < el_eventfd (nd_loop nd)
      else if fd = fde_fd (el_timer (nd_loop nd)) then ne_timer_ready env
      else sock_readable (nd_socks nd (nat fd)))"

definition fd_report :: "node_env \<Rightarrow> io_node \<Rightarrow> int \<Rightarrow> epoll_event list" where
  "fd_report env nd fd = (case el_kernel (nd_loop nd) fd of
     None \<Rightarrow> []
   | Some (m, d) \<Rightarrow>
       let r = (if fd_readable env nd fd then m AND EPOLLIN else 0) OR (if ne_writable env fd then m AND EPOLLOUT else 0)
         OR (if ne_error env fd then EPOLLERR else 0)
       in if r = 0 then [] else [(r, d)])"

definition epoll_wait :: "node_env \<Rightarrow> io_node \<Rightarrow> epoll_event list" where
  "epoll_wait env nd = take g_epoll_max_events (concat (map (fd_report env nd) (ne_order env)))"

text \<open>One pass of \<open>Eventloop::loop\<close>.\<close>

definition node_round :: "node_env \<Rightarrow> ('req, 'rsp) service_map \<Rightarrow> io_node \<Rightarrow> io_node outcome option" where
  "node_round env smap nd =
     then_outcome (node_tasks env smap (m_pending_tasks (nd_loop nd)) (nd\<lparr>nd_loop := (nd_loop nd)\<lparr>m_pending_tasks := []\<rparr>\<rparr>))
       (\<lambda>nd. then_outcome (lift_outcome (dispatch_all (loop_env_of env) (el_thread_id (nd_loop nd)) (epoll_wait env nd) (nd_loop nd)))
         (\<lambda>l. Some (Returns (nd\<lparr>nd_loop := l\<rparr>))))"

fun node_rounds :: "node_env list \<Rightarrow> ('req, 'rsp) service_map \<Rightarrow> io_node \<Rightarrow> io_node outcome option" where
  "node_rounds [] smap nd = Some (Returns nd)"
| "node_rounds (env # envs) smap nd =
     (if m_stop_flag (nd_loop nd) then Some (Returns nd) else then_outcome (node_round env smap nd) (node_rounds envs smap))"

section \<open>What the operations of a connection do to its loop\<close>

text \<open>The callbacks and the data of an event are its own.\<close>

definition ev_typed :: "ev_ptr \<Rightarrow> fd_event \<Rightarrow> bool" where
  "ev_typed p e \<longleftrightarrow> m_error_callback e = None \<and> fde_data e \<in> {None, Some p} \<and>
     (case p of
        Wakeup_Event \<Rightarrow> m_read_callback e = Some Read_Wakeup_Fd \<and> m_write_callback e = None
      | Timer_Event \<Rightarrow> m_read_callback e = Some On_Timer \<and> m_write_callback e = None
      | Listen_Event \<Rightarrow> False
      | Group_Event i \<Rightarrow> fde_fd e = int i \<and> m_read_callback e \<in> {None, Some (On_Read i)} \<and>
          m_write_callback e \<in> {None, Some (On_Write i)})"

definition events_typed :: "event_loop \<Rightarrow> bool" where
  "events_typed l \<longleftrightarrow> (\<forall>p e. ev_at l p = Some e \<longrightarrow> ev_typed p e)"

text \<open>
  Work on the event of descriptor \<open>i\<close>: the rest of the loop stays as it is, and the only registration that may be
  new is that of \<open>i\<close>.
\<close>

definition loop_keeps :: "nat \<Rightarrow> event_loop \<Rightarrow> event_loop \<Rightarrow> bool" where
  "loop_keeps i l l' \<longleftrightarrow>
     el_thread_id l' = el_thread_id l \<and> m_pending_tasks l' = m_pending_tasks l \<and> el_timer l' = el_timer l \<and>
     el_wakeup l' = el_wakeup l \<and> el_wakeup_fd l' = el_wakeup_fd l \<and> el_eventfd l' = el_eventfd l \<and> m_stop_flag l' = m_stop_flag l \<and>
     (\<forall>p. p \<noteq> Group_Event i \<longrightarrow> ev_at l' p = ev_at l p) \<and> events_typed l' \<and>
     (dom (el_kernel l) \<subseteq> m_listen_fds l \<longrightarrow> dom (el_kernel l') \<subseteq> m_listen_fds l') \<and>
     (\<forall>fd. fd \<noteq> int i \<longrightarrow> el_kernel l' fd = el_kernel l fd) \<and>
     (el_kernel l' (int i) \<in> {None, el_kernel l (int i)} \<or>
      (\<exists>m d. el_kernel l' (int i) = Some (m, d) \<and> d \<in> {None, Some (Group_Event i)}))"

lemma loop_keeps_refl: "events_typed l \<Longrightarrow> loop_keeps i l l"
  by (simp add: loop_keeps_def)

lemma loop_keeps_trans:
  assumes "loop_keeps i l l1" "loop_keeps i l1 l2"
  shows "loop_keeps i l l2"
proof -
  let ?new = "\<lambda>l l' :: event_loop. el_kernel l' (int i) \<in> {None, el_kernel l (int i)} \<or>
    (\<exists>m d. el_kernel l' (int i) = Some (m, d) \<and> d \<in> {None, Some (Group_Event i)})"
  have "?new l l1" "?new l1 l2" using assms by (simp_all only: loop_keeps_def)
  then have "?new l l2" by (elim disjE insertE emptyE) simp_all
  then show ?thesis using assms unfolding loop_keeps_def by simp
qed

lemma loop_keeps_typed: "loop_keeps i l l' \<Longrightarrow> events_typed l'"
  by (simp add: loop_keeps_def)

lemma loop_keeps_thread: "loop_keeps i l l' \<Longrightarrow> el_thread_id l' = el_thread_id l"
  by (simp add: loop_keeps_def)

lemma ev_at_update_event:
  "update_event i f l = Some l' \<Longrightarrow> ev_at l' p = (if p = Group_Event i then map_option f (ev_at l p) else ev_at l p)"
  by (cases p) (auto simp: update_event_def ev_at_def bind_eq_Some_conv split: if_splits)

lemma update_event_keeps:
  assumes "events_typed l" "update_event i f l = Some l'"
    and "\<And>e. ev_typed (Group_Event i) e \<Longrightarrow> ev_typed (Group_Event i) (f e)"
  shows "loop_keeps i l l'"
proof -
  have s: "el_thread_id l' = el_thread_id l" "m_pending_tasks l' = m_pending_tasks l" "el_timer l' = el_timer l" "el_wakeup l' = el_wakeup l"
      "el_wakeup_fd l' = el_wakeup_fd l" "el_eventfd l' = el_eventfd l" "m_stop_flag l' = m_stop_flag l" "el_kernel l' = el_kernel l"
      "m_listen_fds l' = m_listen_fds l"
    using assms(2) by (auto simp: update_event_def bind_eq_Some_conv)
  note a = ev_at_update_event [OF assms(2)]
  have "events_typed l'" using assms(1,3) by (auto simp: events_typed_def a split: if_splits)
  then show ?thesis by (simp add: loop_keeps_def s a)
qed

lemma listen_keeps:
  assumes "events_typed l" "update_event i (fd_listen (Group_Event i) IN_EVENT (Some (On_Read i)) None) l = Some l' \<or>
    update_event i (fd_listen (Group_Event i) OUT_EVENT (Some (On_Write i)) None) l = Some l'"
  shows "loop_keeps i l l'"
  using assms by (elim disjE) (erule (1) update_event_keeps, simp add: ev_typed_def fd_listen_def Let_def)+

lemma cancle_keeps:
  assumes "events_typed l" "update_event i (cancle ev) l = Some l'"
  shows "loop_keeps i l l'"
  using assms by (rule update_event_keeps) (auto simp: ev_typed_def cancle_def)

lemma events_typed_at: "events_typed l \<Longrightarrow> ev_at l p = Some e \<Longrightarrow> ev_typed p e"
  by (simp add: events_typed_def)

lemma events_typed_fd: "events_typed l \<Longrightarrow> ev_at l (Group_Event i) = Some e \<Longrightarrow> fde_fd e = int i"
  using events_typed_at by (fastforce simp: ev_typed_def)

lemma events_typed_data: "events_typed l \<Longrightarrow> ev_at l p = Some e \<Longrightarrow> fde_data e \<in> {None, Some p}"
  using events_typed_at by (fastforce simp: ev_typed_def)

lemma addEpollEvent_in_loop:
  assumes "addEpollEvent fd_ok (el_thread_id l) p l = Some l'" "ev_at l p = Some e"
  shows "l' = l\<lparr>el_kernel := (if (if fde_fd e \<in> m_listen_fds l then el_kernel l (fde_fd e) \<noteq> None
      else fd_ok (fde_fd e) \<and> el_kernel l (fde_fd e) = None) then (el_kernel l)(fde_fd e \<mapsto> (fde_events e, fde_data e)) else el_kernel l),
    m_listen_fds := insert (fde_fd e) (m_listen_fds l)\<rparr>"
  using assms
  by (cases "fde_fd e \<in> m_listen_fds l"; cases "el_kernel l (fde_fd e)"; cases "fd_ok (fde_fd e)")
     (simp_all add: addEpollEvent_def isInLoopThread_def add_to_epoll_def getFd_def getEpollEvent_def epoll_ctl_def Let_def split: if_splits)

lemma deleteEpollEvent_in_loop:
  assumes "deleteEpollEvent fd_ok (el_thread_id l) p l = Some l'"
  shows "\<exists>e. ev_at l p = Some e \<and> l' = l\<lparr>el_kernel := (if fde_fd e \<in> m_listen_fds l then (el_kernel l)(fde_fd e := None) else el_kernel l),
    m_listen_fds := m_listen_fds l - {fde_fd e}\<rparr>"
proof -
  obtain e where e: "ev_at l p = Some e"
    using assms by (auto simp: deleteEpollEvent_def isInLoopThread_def delete_from_epoll_def bind_eq_Some_conv)
  let ?k = "if fde_fd e \<in> m_listen_fds l then (el_kernel l)(fde_fd e := None) else el_kernel l"
  have "snd (epoll_ctl fd_ok EPOLL_CTL_DEL (fde_fd e) (0, None) (el_kernel l)) = (el_kernel l)(fde_fd e := None)"
    by (cases "el_kernel l (fde_fd e)") (simp_all add: epoll_ctl_def fun_upd_idem)
  then have "l' = l\<lparr>el_kernel := ?k, m_listen_fds := m_listen_fds l - {fde_fd e}\<rparr>"
    using assms e
    by (simp add: deleteEpollEvent_def isInLoopThread_def delete_from_epoll_def getFd_def case_prod_beta split: if_splits)
  then show ?thesis using e by blast
qed

lemma addEpollEvent_keeps:
  assumes "events_typed l" "addEpollEvent fd_ok (el_thread_id l) (Group_Event i) l = Some l'"
  shows "loop_keeps i l l'"
proof -
  obtain e where e: "ev_at l (Group_Event i) = Some e"
    using assms(2) by (auto simp: addEpollEvent_def isInLoopThread_def add_to_epoll_def bind_eq_Some_conv)
  note fd = events_typed_fd [OF assms(1) e] and d = events_typed_data [OF assms(1) e]
  note l' = addEpollEvent_in_loop [OF assms(2) e, unfolded fd]
  have "ev_at l' = ev_at l" by (simp add: l')
  moreover have "el_kernel l' (int i) = el_kernel l (int i) \<or> el_kernel l' (int i) = Some (fde_events e, fde_data e)"
      "dom (el_kernel l) \<subseteq> m_listen_fds l \<longrightarrow> dom (el_kernel l') \<subseteq> m_listen_fds l'"
      "fd \<noteq> int i \<longrightarrow> el_kernel l' fd = el_kernel l fd" for fd
    by (auto simp: l' split: if_splits)
  ultimately show ?thesis using assms(1) d by (auto simp: loop_keeps_def events_typed_def l')
qed

lemma deleteEpollEvent_keeps:
  assumes "events_typed l" "deleteEpollEvent fd_ok (el_thread_id l) (Group_Event i) l = Some l'"
  shows "loop_keeps i l l'" "dom (el_kernel l) \<subseteq> m_listen_fds l \<Longrightarrow> el_kernel l' (int i) = None"
proof -
  obtain e where ev: "ev_at l (Group_Event i) = Some e"
      and "l' = l\<lparr>el_kernel := (if fde_fd e \<in> m_listen_fds l then (el_kernel l)(fde_fd e := None) else el_kernel l),
        m_listen_fds := m_listen_fds l - {fde_fd e}\<rparr>"
    using deleteEpollEvent_in_loop [OF assms(2)] by blast
  note l' = this(2) [unfolded events_typed_fd [OF assms(1) ev]]
  have "ev_at l' = ev_at l" by (simp add: l')
  moreover have "el_kernel l' (int i) \<in> {None, el_kernel l (int i)}"
      "dom (el_kernel l) \<subseteq> m_listen_fds l \<longrightarrow> dom (el_kernel l') \<subseteq> m_listen_fds l'"
      "fd \<noteq> int i \<longrightarrow> el_kernel l' fd = el_kernel l fd" for fd
    by (auto simp: l' split: if_splits)
  ultimately show "loop_keeps i l l'" using assms(1) by (auto simp: loop_keeps_def events_typed_def l')
  show "el_kernel l' (int i) = None" if "dom (el_kernel l) \<subseteq> m_listen_fds l" using that by (auto simp: l')
qed

lemma listenWrite_keeps:
  assumes "events_typed l" "listenWrite fd_ok (el_thread_id l) c l = Some l'"
  shows "loop_keeps (conn_fd_event c) l l'"
proof -
  let ?i = "conn_fd_event c"
  obtain l1 where l1: "update_event ?i (fd_listen (Group_Event ?i) OUT_EVENT (Some (On_Write ?i)) None) l = Some l1"
      "addEpollEvent fd_ok (el_thread_id l) (Group_Event ?i) l1 = Some l'"
    using assms(2) by (auto simp: listenWrite_def bind_eq_Some_conv)
  note k = listen_keeps [OF assms(1) disjI2, OF l1(1)]
  have "addEpollEvent fd_ok (el_thread_id l1) (Group_Event ?i) l1 = Some l'" using l1(2) loop_keeps_thread [OF k] by simp
  from addEpollEvent_keeps [OF loop_keeps_typed [OF k] this] show ?thesis by (rule loop_keeps_trans [OF k])
qed

section \<open>The callbacks of a connection\<close>

definition conn_ok :: "nat \<Rightarrow> tcp_connection \<Rightarrow> bool" where
  "conn_ok i c \<longleftrightarrow> conn_fd_event c = i \<and> conn_type c = TcpConnectionByServer \<and> buf_inv (m_in_buffer c) \<and> buf_inv (m_out_buffer c)"

text \<open>What a callback of connection \<open>i\<close> may do to it and to its loop: it can only close it by taking it off the loop.\<close>

definition call_keeps :: "nat \<Rightarrow> tcp_connection \<Rightarrow> event_loop \<Rightarrow> tcp_connection \<Rightarrow> event_loop \<Rightarrow> bool" where
  "call_keeps i c l c' l' \<longleftrightarrow> conn_ok i c' \<and> loop_keeps i l l' \<and>
     (conn_state c' = conn_state c \<or> conn_state c' = Closed \<and> el_kernel l' (int i) = None)"

lemma call_keeps_trans:
  assumes "call_keeps i c l c1 l1" "call_keeps i c1 l1 c2 l2" "conn_state c1 = conn_state c"
  shows "call_keeps i c l c2 l2"
  using assms loop_keeps_trans by (auto simp: call_keeps_def)

lemma reply_keeps:
  assumes "events_typed l" "conn_ok i c" "reply fd_ok (el_thread_id l) ms c l = Some (c', l')"
  shows "call_keeps i c l c' l'" "conn_state c' = conn_state c"
proof -
  obtain xs out where e: "encode ms (m_out_buffer c) = Some (xs, out)" "c' = c\<lparr>m_out_buffer := out\<rparr>"
      "listenWrite fd_ok (el_thread_id l) c' l = Some l'"
    using assms(3) by (auto simp: reply_def bind_eq_Some_conv Let_def)
  have "buf_inv out" using encode_keeps [OF _ e(1)] assms(2) by (simp add: conn_ok_def)
  then show "call_keeps i c l c' l'" "conn_state c' = conn_state c"
    using listenWrite_keeps [OF assms(1) e(3)] assms(2) e(2) by (auto simp: call_keeps_def conn_ok_def)
qed

lemma rpc_dispatch_keeps:
  assumes "events_typed l" "conn_ok i c" "rpc_dispatch fd_ok (el_thread_id l) smap req rsp rt c l = Some (rsp', c', l', rt')"
  shows "call_keeps i c l c' l'" "conn_state c' = conn_state c"
proof -
  have "(c', l') = (c, l) \<or> (\<exists>ms. reply fd_ok (el_thread_id l) ms c l = Some (c', l'))"
    using assms(3) by (auto simp: rpc_dispatch_def Let_def bind_eq_Some_conv split: option.splits prod.splits if_splits)
  then show "call_keeps i c l c' l'" "conn_state c' = conn_state c"
    using reply_keeps [OF assms(1,2)] loop_keeps_refl [OF assms(1)] assms(2) by (auto simp: call_keeps_def)
qed

lemma excute_all_keeps:
  assumes "events_typed l" "conn_ok i c" "excute_all fd_ok (el_thread_id l) smap ms rt c l = Some (c', l', rt')"
  shows "call_keeps i c l c' l' \<and> conn_state c' = conn_state c"
  using assms
proof (induction ms arbitrary: rt c l)
  case Nil
  then show ?case using loop_keeps_refl by (auto simp: call_keeps_def)
next
  case (Cons m ms)
  then obtain rsp c1 l1 rt1 where s: "rpc_dispatch fd_ok (el_thread_id l) smap m TinyPBProtocol_new rt c l = Some (rsp, c1, l1, rt1)"
      "excute_all fd_ok (el_thread_id l) smap ms rt1 c1 l1 = Some (c', l', rt')"
    by (auto simp: bind_eq_Some_conv)
  note k = rpc_dispatch_keeps [OF Cons.prems(1,2) s(1)]
  have "el_thread_id l1 = el_thread_id l" "events_typed l1" "conn_ok i c1" using k(1) by (auto simp: call_keeps_def loop_keeps_def)
  with Cons.IH [of l1 c1 rt1] s(2) k show ?case using call_keeps_trans by auto
qed


text \<open>Beside its loop, a callback works on the connection it was bound to.\<close>

lemma clear_keeps:
  assumes "events_typed l" "conn_ok i c" "conn_state c \<noteq> Closed" "clear fd_ok (el_thread_id l) c l = Some (c', l')"
    "dom (el_kernel l) \<subseteq> m_listen_fds l"
  shows "call_keeps i c l c' l'"
proof -
  have i: "conn_fd_event c = i" using assms(2) by (simp add: conn_ok_def)
  obtain l1 l2 where s: "update_event i (cancle IN_EVENT) l = Some l1" "update_event i (cancle OUT_EVENT) l1 = Some l2"
      "deleteEpollEvent fd_ok (el_thread_id l) (Group_Event i) l2 = Some l'" "c' = c\<lparr>conn_state := Closed\<rparr>"
    using assms(3,4) i by (auto simp: clear_def bind_eq_Some_conv)
  note k1 = cancle_keeps [OF assms(1) s(1)]
  note k2 = loop_keeps_trans [OF k1 cancle_keeps [OF loop_keeps_typed [OF k1] s(2)]]
  have "deleteEpollEvent fd_ok (el_thread_id l2) (Group_Event i) l2 = Some l'" using s(3) loop_keeps_thread [OF k2] by simp
  note k3 = deleteEpollEvent_keeps [OF loop_keeps_typed [OF k2] this]
  have "dom (el_kernel l2) \<subseteq> m_listen_fds l2" using k2 assms(5) by (simp add: loop_keeps_def)
  then show ?thesis using loop_keeps_trans [OF k2 k3(1)] k3(2) assms(2) s(4) by (simp add: call_keeps_def conn_ok_def)
qed

lemma excute_keeps:
  assumes "events_typed l" "conn_ok i c" "excute fd_ok (el_thread_id l) smap rt c l = Some (Returns (c', l', rt', calls))"
  shows "call_keeps i c l c' l'"
proof -
  obtain ms ib where d1: "decode [] (m_in_buffer c) = Some (Returns (ms, ib))"
    using assms(3) by (cases "decode [] (m_in_buffer c)"; cases "the (decode [] (m_in_buffer c))") (auto simp: excute_def)
  then have d: "decode [] (m_in_buffer c) = Some (Returns (ms, ib))"
      "excute_all fd_ok (el_thread_id l) smap ms rt (c\<lparr>m_in_buffer := ib\<rparr>) l = Some (c', l', rt')"
    using assms(2,3) by (auto simp: excute_def conn_ok_def Let_def split: option.splits)
  have "buf_inv ib" using decode_keeps [OF _ d(1)] assms(2) by (simp add: conn_ok_def)
  then have "conn_ok i (c\<lparr>m_in_buffer := ib\<rparr>)" using assms(2) by (simp add: conn_ok_def)
  from excute_all_keeps [OF assms(1) this d(2)] show ?thesis by (simp add: call_keeps_def)
qed

lemma onRead_keeps:
  assumes "events_typed l" "conn_ok i c" "dom (el_kernel l) \<subseteq> m_listen_fds l"
    and "onRead fd_ok (el_thread_id l) smap rt s c l = Some (Returns (c', l', rt', calls))"
  shows "call_keeps i c l c' l'"
proof (cases "conn_state c = Connected")
  case False
  then show ?thesis using assms loop_keeps_refl by (simp add: onRead_def call_keeps_def)
next
  case True
  let ?r = "onRead_loop (m_in_buffer c) s"
  obtain cl ib s' where r1: "?r = Some (Returns (cl, ib, s'))"
    using assms(4) True by (cases ?r; cases "the ?r") (auto simp: onRead_def)
  then have r: "onRead_loop (m_in_buffer c) s = Some (Returns (cl, ib, s'))"
      "if cl then clear fd_ok (el_thread_id l) (c\<lparr>m_in_buffer := ib\<rparr>) l = Some (c', l')
       else excute fd_ok (el_thread_id l) smap rt (c\<lparr>m_in_buffer := ib\<rparr>) l = Some (Returns (c', l', rt', calls))"
    using assms(4) True by (auto simp: onRead_def Let_def split: option.splits)
  have "buf_inv ib" using onRead_loop_keeps [OF _ r(1)] assms(2) by (simp add: conn_ok_def)
  then have ok: "conn_ok i (c\<lparr>m_in_buffer := ib\<rparr>)" using assms(2) by (simp add: conn_ok_def)
  show ?thesis
  proof (cases cl)
    case True
    then show ?thesis using clear_keeps [OF assms(1) ok _ _ assms(3)] r(2) \<open>conn_state c = Connected\<close> by (simp add: call_keeps_def)
  next
    case False
    then show ?thesis using excute_keeps [OF assms(1) ok] r(2) by (simp add: call_keeps_def)
  qed
qed

lemma onWrite_keeps:
  assumes "events_typed l" "conn_ok i c" "onWrite fd_ok (el_thread_id l) ws c l = Some (c', l', bytes, calls)"
  shows "call_keeps i c l c' l'"
proof (cases "conn_state c = Connected")
  case False
  then show ?thesis using assms loop_keeps_refl by (simp add: onWrite_def call_keeps_def)
next
  case True
  have i: "conn_fd_event c = i" "conn_type c = TcpConnectionByServer" using assms(2) by (auto simp: conn_ok_def)
  obtain all where w: "onWrite_loop (m_out_buffer c) ws = Some (all, bytes)" "c' = c"
      "if all then \<exists>l1. update_event i (cancle OUT_EVENT) l = Some l1 \<and> addEpollEvent fd_ok (el_thread_id l) (Group_Event i) l1 = Some l' else l' = l"
    using assms(3) True i by (auto simp: onWrite_def bind_eq_Some_conv split: if_splits)
  show ?thesis
  proof (cases all)
    case True
    then obtain l1 where l1: "update_event i (cancle OUT_EVENT) l = Some l1" "addEpollEvent fd_ok (el_thread_id l) (Group_Event i) l1 = Some l'"
      using w(3) by auto
    note k = cancle_keeps [OF assms(1) l1(1)]
    have "addEpollEvent fd_ok (el_thread_id l1) (Group_Event i) l1 = Some l'" using l1(2) loop_keeps_thread [OF k] by simp
    from loop_keeps_trans [OF k addEpollEvent_keeps [OF loop_keeps_typed [OF k] this]] show ?thesis
      using assms(2) w(2) by (simp add: call_keeps_def)
  next
    case False
    then show ?thesis using w loop_keeps_refl [OF assms(1)] assms(2) by (simp add: call_keeps_def)
  qed
qed

end
