(* ===== verification/Server_World.thy ===== *)
theory Server_World
  imports Server_Loop
begin

text \<open>
  The server as a transition system: the main thread accepts connections and runs the periodic clean-up, the IO threads
  run passes of their loops, bytes arrive.  A pass is one step, so the clean-up runs between passes only.  Invariant: what a loop
  has registered or queued between two passes belongs to a connection of its own thread that exists and is not closed, so a clean-up
  at such a moment frees no connection that a loop can still call.  In the program the clean-up may also run within a pass of another
  thread, and there this fails: \<open>cleanup_between_callbacks_dangles\<close> in \<^verbatim>\<open>Server_Live\<close>.
\<close>

section \<open>One loop between two passes\<close>

definition live :: "(nat \<rightharpoonup> tcp_connection) \<Rightarrow> nat \<Rightarrow> bool" where
  "live conns i \<longleftrightarrow> (\<exists>c. conns i = Some c \<and> conn_state c \<noteq> Closed)"

text \<open>\<open>A\<close> is the set of connections the thread owns.\<close>

definition reg_ok :: "nat set \<Rightarrow> (nat \<rightharpoonup> tcp_connection) \<Rightarrow> event_loop \<Rightarrow> int \<Rightarrow> ev_ptr option \<Rightarrow> bool" where
  "reg_ok A conns l fd d \<longleftrightarrow> (\<exists>i. d \<in> {None, Some (Group_Event i)} \<and> fd = int i \<and> i \<in> A \<and> live conns i) \<or>
     d = Some Wakeup_Event \<and> fd = el_wakeup_fd l \<or> d = Some Timer_Event \<and> fd = fde_fd (el_timer l)"

definition regs_live :: "nat set \<Rightarrow> (nat \<rightharpoonup> tcp_connection) \<Rightarrow> event_loop \<Rightarrow> bool" where
  "regs_live A conns l \<longleftrightarrow> (\<forall>fd m d. el_kernel l fd = Some (m, d) \<longrightarrow> reg_ok A conns l fd d)"

definition base_inv :: "nat set \<Rightarrow> (nat \<rightharpoonup> tcp_connection) \<Rightarrow> event_loop \<Rightarrow> bool" where
  "base_inv A conns l \<longleftrightarrow> events_typed l \<and> dom (el_kernel l) \<subseteq> m_listen_fds l \<and> regs_live A conns l \<and>
     (\<forall>i \<in> A. \<forall>c. conns i = Some c \<longrightarrow> conn_ok i c)"

text \<open>A task that may still be run within a pass, and a task that is queued between two.\<close>

definition task_ok :: "nat set \<Rightarrow> (nat \<rightharpoonup> tcp_connection) \<Rightarrow> task option list \<Rightarrow> task \<Rightarrow> bool" where
  "task_ok A conns ts t \<longleftrightarrow> (case t of
     On_Read i \<Rightarrow> i \<in> A \<and> conns i \<noteq> None
   | On_Write i \<Rightarrow> i \<in> A \<and> conns i \<noteq> None
   | Add_To_Epoll p \<Rightarrow> \<exists>i. p = Group_Event i \<and> i \<in> A \<and> live conns i \<and> Some (On_Read i) \<notin> set ts \<and> Some (On_Write i) \<notin> set ts
   | Read_Wakeup_Fd \<Rightarrow> True
   | On_Timer \<Rightarrow> True
   | _ \<Rightarrow> False)"

definition task_live :: "nat set \<Rightarrow> (nat \<rightharpoonup> tcp_connection) \<Rightarrow> task option list \<Rightarrow> task \<Rightarrow> bool" where
  "task_live A conns ts t \<longleftrightarrow> task_ok A conns ts t \<and> (\<forall>i. t = On_Read i \<or> t = On_Write i \<longrightarrow> live conns i)"

definition batch_inv :: "nat set \<Rightarrow> io_node \<Rightarrow> task option list \<Rightarrow> bool" where
  "batch_inv A nd ts \<longleftrightarrow> base_inv A (nd_conns nd) (nd_loop nd) \<and> (\<forall>t. Some t \<in> set ts \<longrightarrow> task_ok A (nd_conns nd) ts t)"

definition loop_inv :: "nat set \<Rightarrow> (nat \<rightharpoonup> tcp_connection) \<Rightarrow> event_loop \<Rightarrow> bool" where
  "loop_inv A conns l \<longleftrightarrow> base_inv A conns l \<and>
     (\<forall>t. Some t \<in> set (m_pending_tasks l) \<longrightarrow> task_live A conns (m_pending_tasks l) t)"

text \<open>What a pass leaves alone.\<close>

definition node_frame :: "nat set \<Rightarrow> io_node \<Rightarrow> io_node \<Rightarrow> bool" where
  "node_frame A nd nd' \<longleftrightarrow> el_thread_id (nd_loop nd') = el_thread_id (nd_loop nd) \<and> dom (nd_conns nd') = dom (nd_conns nd) \<and>
     (\<forall>j. j \<notin> A \<longrightarrow> nd_conns nd' j = nd_conns nd j)"

lemma node_frame_refl [simp]: "node_frame A nd nd"
  by (simp add: node_frame_def)

lemma node_frame_trans: "node_frame A nd nd1 \<Longrightarrow> node_frame A nd1 nd2 \<Longrightarrow> node_frame A nd nd2"
  by (simp add: node_frame_def)

lemma task_ok_mono: "task_ok A conns (t0 # ts) t \<Longrightarrow> task_ok A conns ts t"
  by (auto simp: task_ok_def split: task.splits)

lemma then_outcome_Returns:
  "then_outcome x f = Some (Returns b) \<longleftrightarrow> (\<exists>a. x = Some (Returns a) \<and> f a = Some (Returns b))"
  by (cases "(x, f)" rule: then_outcome.cases) auto

lemma lift_outcome_Returns [simp]: "lift_outcome x = Some (Returns a) \<longleftrightarrow> x = Some a"
  by (auto simp: lift_outcome_def split: option.splits)

section \<open>A callback of a connection\<close>

lemma call_base_inv:
  assumes "base_inv A conns l" "conns i = Some c" "i \<in> A" "call_keeps i c l c' l'" "conn_state c \<noteq> Closed"
  shows "base_inv A (conns(i \<mapsto> c')) l'"
proof -
  have k: "loop_keeps i l l'" and ok: "conn_ok i c'" and st: "conn_state c' = conn_state c \<or> conn_state c' = Closed \<and> el_kernel l' (int i) = None"
    using assms(4) by (auto simp: call_keeps_def)
  have s: "el_wakeup_fd l' = el_wakeup_fd l" "el_timer l' = el_timer l" using k by (auto simp: loop_keeps_def)
  have R: "reg_ok A conns l fd d" if "el_kernel l fd = Some (m, d)" for fd m d
    using assms(1) that by (simp add: base_inv_def regs_live_def)
  have "reg_ok A (conns(i \<mapsto> c')) l' fd d" if r: "el_kernel l' fd = Some (m, d)" for fd m d
  proof (cases "fd = int i")
    case True
    then have lv: "live (conns(i \<mapsto> c')) i" using st r assms(5) by (auto simp: live_def)
    have "el_kernel l (int i) = Some (m, d) \<or> d \<in> {None, Some (Group_Event i)}"
      using k r True by (auto simp: loop_keeps_def)
    then show ?thesis using R [of "int i" m d] True lv assms(3) s by (auto simp: reg_ok_def)
  next
    case False
    then have "el_kernel l fd = Some (m, d)" using k r by (simp add: loop_keeps_def)
    from R [OF this] show ?thesis using False s by (auto simp: reg_ok_def live_def)
  qed
  moreover have "events_typed l'" "dom (el_kernel l') \<subseteq> m_listen_fds l'"
    using k assms(1) by (auto simp: loop_keeps_def base_inv_def)
  ultimately show ?thesis using assms(1) ok by (auto simp: base_inv_def regs_live_def)
qed

lemma base_inv_same: "base_inv A conns l \<Longrightarrow> conns i = Some c \<Longrightarrow> base_inv A (conns(i \<mapsto> c)) l"
  by (simp add: fun_upd_idem)

lemma callback_batch_inv:
  assumes "batch_inv A nd (Some t # ts)" "t = On_Read i \<or> t = On_Write i" "nd_conns nd i = Some c"
    and "conn_state c = Closed \<longrightarrow> c' = c \<and> l' = nd_loop nd" "conn_state c \<noteq> Closed \<longrightarrow> call_keeps i c (nd_loop nd) c' l'"
    and "nd_loop nd' = l'" "nd_conns nd' = (nd_conns nd)(i \<mapsto> c')" "el_thread_id l' = el_thread_id (nd_loop nd)"
  shows "batch_inv A nd' ts" "node_frame A nd nd'"
proof -
  let ?conns = "(nd_conns nd)(i \<mapsto> c')"
  have b: "base_inv A (nd_conns nd) (nd_loop nd)" and i: "i \<in> A" using assms(1,2) by (auto simp: batch_inv_def task_ok_def)
  have "base_inv A ?conns l'" using call_base_inv [OF b assms(3) i] base_inv_same [OF b assms(3)] assms(4,5) by auto
  moreover have "task_ok A ?conns ts u" if u: "Some u \<in> set ts" for u
  proof -
    have "task_ok A (nd_conns nd) (Some t # ts) u" using assms(1) u by (simp add: batch_inv_def)
    then show ?thesis using assms(2) by (auto simp: task_ok_def live_def split: task.splits)
  qed
  ultimately show "batch_inv A nd' ts" using assms(6,7) by (simp add: batch_inv_def)
  show "node_frame A nd nd'" using assms(3,6-8) i by (auto simp: node_frame_def)
qed

section \<open>The tasks of a pass\<close>

lemma onTimer_event: "onTimer clock reads t = Some (t', ts) \<Longrightarrow> fd_event.truncate t' = fd_event.truncate t"
proof -
  have r: "fd_event.truncate (timer_resetArriveTime clock t) = fd_event.truncate t" for t
    by (auto simp: timer_resetArriveTime_def fd_event.truncate_def tick_def Let_def split: list.splits)
  have a: "fd_event.truncate (addTimerEvent clock e t) = fd_event.truncate t" for e t
    by (simp add: addTimerEvent_def Let_def r) (simp add: fd_event.truncate_def)
  have e: "fd_event.truncate (repeat_event clock t e) = fd_event.truncate t" for t e
    by (simp add: repeat_event_def Let_def a) (simp add: fd_event.truncate_def tick_def)
  have f: "fd_event.truncate (foldl (repeat_event clock) t es) = fd_event.truncate t" for t es
    by (induction es arbitrary: t) (simp_all add: e)
  show "onTimer clock reads t = Some (t', ts) \<Longrightarrow> fd_event.truncate t' = fd_event.truncate t"
    by (auto simp: onTimer_def bind_eq_Some_conv Let_def r f) (simp add: fd_event.truncate_def tick_def)
qed

lemma base_inv_frame:
  assumes "base_inv A conns l" "ev_at l' = ev_at l" "el_kernel l' = el_kernel l" "m_listen_fds l' = m_listen_fds l"
    "el_wakeup_fd l' = el_wakeup_fd l" "fde_fd (el_timer l') = fde_fd (el_timer l)"
  shows "base_inv A conns l'"
  using assms by (simp add: base_inv_def events_typed_def regs_live_def reg_ok_def)

lemma node_task_inv:
  assumes "batch_inv A nd (Some t # ts)" "node_task env smap t nd = Some (Returns nd')"
  shows "batch_inv A nd' ts \<and> node_frame A nd nd' \<and> m_pending_tasks (nd_loop nd') = m_pending_tasks (nd_loop nd)"
proof -
  let ?l = "nd_loop nd" and ?conns = "nd_conns nd"
  have b: "base_inv A ?conns ?l" and t: "task_ok A ?conns (Some t # ts) t" using assms(1) by (auto simp: batch_inv_def)
  have typed: "events_typed ?l" "dom (el_kernel ?l) \<subseteq> m_listen_fds ?l" using b by (auto simp: base_inv_def)
  have quiet: "batch_inv A nd' ts \<and> node_frame A nd nd'"
    if "base_inv A ?conns l'" "nd' = nd\<lparr>nd_loop := l'\<rparr>" "el_thread_id l' = el_thread_id ?l" for l'
    using assms(1) that by (auto simp: batch_inv_def node_frame_def intro: task_ok_mono)
  consider (read) i where "t = On_Read i" | (wr) i where "t = On_Write i" | (wake) "t = Read_Wakeup_Fd" | (timer) "t = On_Timer"
    | (add) i where "t = Add_To_Epoll (Group_Event i)" "i \<in> A" "live ?conns i"
    using t by (auto simp: task_ok_def split: task.splits)
  then show ?thesis
  proof cases
    case read
    then obtain c where c: "?conns i = Some c" "i \<in> A" "conn_ok i c" using t b by (auto simp: task_ok_def base_inv_def)
    then obtain c' l' rt calls where r: "onRead (ne_fd_ok env) (el_thread_id ?l) smap (nd_rt nd) (nd_socks nd i) c ?l = Some (Returns (c', l', rt, calls))"
        "nd_loop nd' = l'" "nd_conns nd' = ?conns(i \<mapsto> c')"
      using assms(2) read by (auto simp: node_task_def Let_def then_outcome_Returns)
    note k = onRead_keeps [OF typed(1) c(3) typed(2) r(1)]
    have cl: "conn_state c = Closed \<longrightarrow> c' = c \<and> l' = ?l" using r(1) by (auto simp: onRead_def)
    have "el_thread_id l' = el_thread_id ?l" "m_pending_tasks l' = m_pending_tasks ?l" using k by (auto simp: call_keeps_def loop_keeps_def)
    then show ?thesis using callback_batch_inv [OF assms(1) _ c(1) cl _ r(2,3)] read k r(2) by simp
  next
    case wr
    then obtain c where c: "?conns i = Some c" "i \<in> A" "conn_ok i c" using t b by (auto simp: task_ok_def base_inv_def)
    then obtain c' l' bytes calls where r: "onWrite (ne_fd_ok env) (el_thread_id ?l) (ne_writes env i) c ?l = Some (c', l', bytes, calls)"
        "nd_loop nd' = l'" "nd_conns nd' = ?conns(i \<mapsto> c')"
      using assms(2) wr by (auto simp: node_task_def Let_def then_outcome_Returns)
    note k = onWrite_keeps [OF typed(1) c(3) r(1)]
    have cl: "conn_state c = Closed \<longrightarrow> c' = c \<and> l' = ?l" using r(1) by (auto simp: onWrite_def)
    have "el_thread_id l' = el_thread_id ?l" "m_pending_tasks l' = m_pending_tasks ?l" using k by (auto simp: call_keeps_def loop_keeps_def)
    then show ?thesis using callback_batch_inv [OF assms(1) _ c(1) cl _ r(2,3)] wr k r(2) by simp
  next
    case wake
    then have n: "nd' = nd\<lparr>nd_loop := ?l\<lparr>el_eventfd := 0\<rparr>\<rparr>"
      using assms(2) by (auto simp: node_task_def Let_def then_outcome_Returns run_task_def)
    have "base_inv A ?conns (?l\<lparr>el_eventfd := 0\<rparr>)" by (rule base_inv_frame [OF b]) simp_all
    then show ?thesis using quiet [OF _ n] n by simp
  next
    case timer
    then obtain l' where l': "run_task (loop_env_of env) On_Timer ?l = Some l'" and n: "nd' = nd\<lparr>nd_loop := l'\<rparr>"
      using assms(2) by (auto simp: node_task_def Let_def then_outcome_Returns)
    obtain tm tks where tm: "onTimer (ne_clock env) (ne_timer_reads env) (el_timer ?l) = Some (tm, tks)"
        "run_all (\<lambda>_ _. None) tks (?l\<lparr>el_timer := tm\<rparr>) = Some l'"
      using l' by (auto simp: run_task_def loop_env_of_def bind_eq_Some_conv)
    have e: "l' = ?l\<lparr>el_timer := tm\<rparr>" using tm(2) by (cases tks) auto
    have "ev_at l' = ev_at ?l" using onTimer_event [OF tm(1)] by (auto simp: e ev_at_def fun_eq_iff split: ev_ptr.split)
    moreover have "fde_fd tm = fde_fd (el_timer ?l)"
      using arg_cong [OF onTimer_event [OF tm(1)], of fde_fd] by (simp add: fd_event.truncate_def)
    ultimately have "base_inv A ?conns l'" by (intro base_inv_frame [OF b]) (simp_all add: e)
    then show ?thesis using quiet [OF _ n] n e by simp
  next
    case add
    then obtain l' where l': "add_to_epoll (ne_fd_ok env) (Group_Event i) ?l = Some l'" and n: "nd' = nd\<lparr>nd_loop := l'\<rparr>"
      using assms(2) by (auto simp: node_task_def Let_def then_outcome_Returns run_task_def loop_env_of_def)
    have k: "loop_keeps i ?l l'"
      using addEpollEvent_keeps [OF typed(1)] l' by (simp add: addEpollEvent_def isInLoopThread_def)
    obtain c where c: "?conns i = Some c" "conn_state c \<noteq> Closed" using add(3) by (auto simp: live_def)
    have "conn_ok i c" using b add(2) c(1) by (simp add: base_inv_def)
    then have "call_keeps i c ?l c l'" using k by (simp add: call_keeps_def)
    from call_base_inv [OF b c(1) add(2) this c(2)] have "base_inv A ?conns l'" using c(1) by (simp add: fun_upd_idem)
    then show ?thesis using quiet [OF _ n] n k by (simp add: loop_keeps_def)
  qed
qed

lemma node_tasks_inv:
  assumes "batch_inv A nd ts" "node_tasks env smap ts nd = Some (Returns nd')"
  shows "base_inv A (nd_conns nd') (nd_loop nd') \<and> node_frame A nd nd' \<and> m_pending_tasks (nd_loop nd') = m_pending_tasks (nd_loop nd)"
  using assms
proof (induction env smap ts nd rule: node_tasks.induct)
  case (1 env smap nd)
  then show ?case by (simp add: batch_inv_def)
next
  case (2 env smap ts nd)
  then have "batch_inv A nd ts" by (auto simp: batch_inv_def intro: task_ok_mono)
  then show ?case using 2 by simp
next
  case (3 env smap t ts nd)
  then obtain nd1 where s: "node_task env smap t nd = Some (Returns nd1)" "node_tasks env smap ts nd1 = Some (Returns nd')"
    by (auto simp: then_outcome_Returns)
  note k = node_task_inv [OF 3(2) s(1)]
  then show ?case using 3(1) [of nd1] s(2) node_frame_trans [of A nd nd1 nd'] by auto
qed

section \<open>Dispatching\<close>

definition queueable :: "nat set \<Rightarrow> (nat \<rightharpoonup> tcp_connection) \<Rightarrow> task option \<Rightarrow> bool" where
  "queueable A conns t \<longleftrightarrow> t = None \<or> t = Some Read_Wakeup_Fd \<or> t = Some On_Timer \<or>
     (\<exists>i. (t = Some (On_Read i) \<or> t = Some (On_Write i)) \<and> i \<in> A \<and> live conns i)"

definition queue_inv :: "nat set \<Rightarrow> (nat \<rightharpoonup> tcp_connection) \<Rightarrow> event_loop \<Rightarrow> bool" where
  "queue_inv A conns l \<longleftrightarrow> base_inv A conns l \<and> (\<forall>t \<in> set (m_pending_tasks l). queueable A conns t)"

definition event_live :: "nat set \<Rightarrow> (nat \<rightharpoonup> tcp_connection) \<Rightarrow> epoll_event \<Rightarrow> bool" where
  "event_live A conns ev \<longleftrightarrow> (\<forall>i. snd ev = Some (Group_Event i) \<longrightarrow> i \<in> A \<and> live conns i)"

lemma queue_inv_loop_inv: "queue_inv A conns l \<Longrightarrow> loop_inv A conns l"
  by (fastforce simp: queue_inv_def loop_inv_def queueable_def task_live_def task_ok_def live_def split: task.splits)

lemma addTask_fds: "el_wakeup_fd (addTask t w l) = el_wakeup_fd l" "el_timer (addTask t w l) = el_timer l"
  by (simp_all add: addTask_def wakeup_def Let_def)

lemma addTask_queue_inv: "queue_inv A conns l \<Longrightarrow> queueable A conns t \<Longrightarrow> queue_inv A conns (addTask t False l)"
  by (auto simp: queue_inv_def addTask_fds intro: base_inv_frame)

lemma handler_queueable:
  assumes "ev_typed p e" "event_live A conns (m, Some p)"
  shows "queueable A conns (handler ev e)"
  using assms by (cases p; cases ev) (auto simp: ev_typed_def queueable_def handler_def event_live_def)

lemma deleteEpollEvent_queue_inv:
  assumes "queue_inv A conns l" "deleteEpollEvent fd_ok (el_thread_id l) p l = Some l'"
  shows "queue_inv A conns l' \<and> el_thread_id l' = el_thread_id l"
proof -
  obtain e where "ev_at l p = Some e" and l': "l' = l\<lparr>el_kernel := (if fde_fd e \<in> m_listen_fds l then (el_kernel l)(fde_fd e := None) else el_kernel l),
      m_listen_fds := m_listen_fds l - {fde_fd e}\<rparr>"
    using deleteEpollEvent_in_loop [OF assms(2)] by blast
  have "ev_at l' = ev_at l" by (simp add: l')
  moreover have "el_kernel l' \<subseteq>\<^sub>m el_kernel l" "dom (el_kernel l) \<subseteq> m_listen_fds l \<longrightarrow> dom (el_kernel l') \<subseteq> m_listen_fds l'"
    by (auto simp: l' map_le_def)
  ultimately show ?thesis using assms(1)
    by (auto simp: queue_inv_def base_inv_def events_typed_def regs_live_def reg_ok_def l' map_le_def)
qed

lemma dispatch_queue_inv:
  assumes "queue_inv A conns l" "event_live A conns ev" "dispatch env (el_thread_id l) ev l = Some l'"
  shows "queue_inv A conns l' \<and> el_thread_id l' = el_thread_id l"
proof (cases "snd ev")
  case None
  then show ?thesis using assms by (simp add: dispatch_def)
next
  case (Some p)
  have live: "event_live A conns (m, Some p)" for m using assms(2) Some by (simp add: event_live_def)
  obtain e where e: "ev_at l p = Some e" using assms(3) Some by (auto simp: dispatch_def bind_eq_Some_conv)
  have "ev_typed p e" using assms(1) events_typed_at [OF _ e] by (simp add: queue_inv_def base_inv_def)
  note q = handler_queueable [OF this live]
  define l1 where "l1 = (if fst ev AND EPOLLIN \<noteq> 0 then addTask (handler IN_EVENT e) False l else l)"
  define l2 where "l2 = (if fst ev AND EPOLLOUT \<noteq> 0 then addTask (handler OUT_EVENT e) False l1 else l1)"
  have l2: "queue_inv A conns l2" "el_thread_id l2 = el_thread_id l"
    using assms(1) addTask_queue_inv q by (simp_all add: l1_def l2_def)
  have d: "(if fst ev AND EPOLLERR \<noteq> 0 then do {
        s \<leftarrow> deleteEpollEvent (env_fd_ok env) (el_thread_id l2) p l2;
        if handler ERROR_EVENT e \<noteq> None then Some (addTask (handler OUT_EVENT e) False s) else Some s }
      else Some l2) = Some l'"
    unfolding l2(2) unfolding l2_def l1_def using assms(3) Some e by (simp add: dispatch_def Let_def split del: if_split)
  show ?thesis
  proof (cases "fst ev AND EPOLLERR \<noteq> 0")
    case True
    then obtain s where s: "deleteEpollEvent (env_fd_ok env) (el_thread_id l2) p l2 = Some s"
        "l' = (if handler ERROR_EVENT e \<noteq> None then addTask (handler OUT_EVENT e) False s else s)"
      using d by (auto simp: bind_eq_Some_conv split: if_splits)
    then show ?thesis using deleteEpollEvent_queue_inv [OF l2(1) s(1)] addTask_queue_inv q l2(2) by simp
  next
    case False
    then show ?thesis using d l2 by simp
  qed
qed

lemma dispatch_all_queue_inv:
  assumes "queue_inv A conns l" "\<forall>ev \<in> set evs. event_live A conns ev" "dispatch_all env (el_thread_id l) evs l = Some l'"
  shows "queue_inv A conns l' \<and> el_thread_id l' = el_thread_id l"
  using assms
proof (induction evs arbitrary: l)
  case (Cons ev evs)
  then obtain l1 where s: "dispatch env (el_thread_id l) ev l = Some l1" "dispatch_all env (el_thread_id l) evs l1 = Some l'"
    by (auto simp: bind_eq_Some_conv)
  then show ?case using dispatch_queue_inv [OF Cons.prems(1) _ s(1)] Cons.prems(2) Cons.IH [of l1] by auto
qed simp

lemma epoll_wait_live:
  assumes "regs_live A (nd_conns nd) (nd_loop nd)" "ev \<in> set (epoll_wait env nd)"
  shows "event_live A (nd_conns nd) ev"
proof -
  have "ev \<in> set (concat (map (fd_report env nd) (ne_order env)))"
    using assms(2) unfolding epoll_wait_def by (rule in_set_takeD)
  then obtain fd where "ev \<in> set (fd_report env nd fd)" by auto
  then obtain m d where "el_kernel (nd_loop nd) fd = Some (m, d)" "snd ev = d"
    by (cases "el_kernel (nd_loop nd) fd") (auto simp: fd_report_def Let_def split: if_splits)
  then show ?thesis using assms(1) by (fastforce simp: regs_live_def reg_ok_def event_live_def)
qed

lemma loop_inv_batch:
  assumes "loop_inv A (nd_conns nd) (nd_loop nd)"
  shows "batch_inv A (nd\<lparr>nd_loop := (nd_loop nd)\<lparr>m_pending_tasks := []\<rparr>\<rparr>) (m_pending_tasks (nd_loop nd))"
proof -
  have "base_inv A (nd_conns nd) ((nd_loop nd)\<lparr>m_pending_tasks := []\<rparr>)"
    using assms base_inv_frame [of A "nd_conns nd" "nd_loop nd"] by (simp add: loop_inv_def)
  then show ?thesis using assms by (simp add: batch_inv_def loop_inv_def task_live_def)
qed

lemma node_round_inv:
  assumes "loop_inv A (nd_conns nd) (nd_loop nd)" "node_round env smap nd = Some (Returns nd')"
  shows "loop_inv A (nd_conns nd') (nd_loop nd') \<and> node_frame A nd nd'"
proof -
  let ?nd = "nd\<lparr>nd_loop := (nd_loop nd)\<lparr>m_pending_tasks := []\<rparr>\<rparr>"
  obtain nd1 l where r: "node_tasks env smap (m_pending_tasks (nd_loop nd)) ?nd = Some (Returns nd1)"
      "dispatch_all (loop_env_of env) (el_thread_id (nd_loop nd1)) (epoll_wait env nd1) (nd_loop nd1) = Some l"
      "nd' = nd1\<lparr>nd_loop := l\<rparr>"
    using assms(2) by (auto simp: node_round_def then_outcome_Returns)
  note k = node_tasks_inv [OF loop_inv_batch [OF assms(1)] r(1)]
  then have q: "queue_inv A (nd_conns nd1) (nd_loop nd1)" "regs_live A (nd_conns nd1) (nd_loop nd1)"
    by (auto simp: queue_inv_def base_inv_def)
  from dispatch_all_queue_inv [OF q(1) _ r(2)] epoll_wait_live [OF q(2)] k show ?thesis
    using r(3) queue_inv_loop_inv by (auto simp: node_frame_def)
qed

section \<open>A new loop and a new connection\<close>

lemma events_typed_group:
  assumes "events_typed l" "getFdEvent fd (el_group l) = Some (i, g)"
  shows "events_typed (l\<lparr>el_group := g\<rparr>)" "i = nat fd"
proof -
  have g: "g = el_group l \<or> (\<exists>n. g = (el_group l)\<lparr>m_fd_group := m_fd_group (el_group l) @
      map (\<lambda>i. Some (Fd_Event_new (int i))) [length (m_fd_group (el_group l)) ..< n]\<rparr>)" and i: "i = nat fd"
    using assms(2) by (auto simp: getFdEvent_def Let_def bind_eq_Some_conv split: if_splits)
  have new: "ev_typed (Group_Event j) (Fd_Event_new (int j))" for j by (simp add: ev_typed_def Fd_Event_new_def)
  have "ev_typed p e" if e: "ev_at (l\<lparr>el_group := g\<rparr>) p = Some e" for p e
  proof (cases p)
    case (Group_Event j)
    then have "ev_at l p = Some e \<or> e = Fd_Event_new (int j)"
      using g e by (auto simp: ev_at_def nth_append split: if_splits)
    then show ?thesis using events_typed_at [OF assms(1)] new Group_Event by auto
  qed (use e events_typed_at [OF assms(1), of p e] in \<open>simp_all add: ev_at_def\<close>)
  then show "events_typed (l\<lparr>el_group := g\<rparr>)" by (simp add: events_typed_def)
  show "i = nat fd" by (rule i)
qed

lemma TcpConnection_new_typed:
  assumes "events_typed l" "\<not> isInLoopThread tid l"
    and "TcpConnection_new fd_ok tid flag (int fd) 128 peer loc TcpConnectionByServer l = Some (c, l')"
  shows "conn_ok fd c" "events_typed l'" "el_thread_id l' = el_thread_id l" "el_kernel l' = el_kernel l"
    "m_listen_fds l' = m_listen_fds l" "m_pending_tasks l' = m_pending_tasks l @ [Some (Add_To_Epoll (Group_Event fd))]"
    "el_wakeup_fd l' = el_wakeup_fd l" "el_timer l' = el_timer l"
proof -
  obtain b where b: "TcpBuffer_new 128 = Some b" "buf_inv b" by (simp add: TcpBuffer_new_def buf_inv_def)
  obtain i g where g: "getFdEvent (int fd) (el_group l) = Some (i, g)"
    using assms(3) by (auto simp: TcpConnection_new_def bind_eq_Some_conv)
  have i: "i = fd" using events_typed_group(2) [OF assms(1) g] by simp
  have c: "conn_fd_event c = fd" "conn_type c = TcpConnectionByServer" "m_in_buffer c = b" "m_out_buffer c = b"
    and r: "listenRead fd_ok tid c (l\<lparr>el_group := g\<rparr>) = Some l'"
    using assms(3) b g i by (auto simp: TcpConnection_new_def bind_eq_Some_conv Let_def listenRead_def)
  show "conn_ok fd c" using c b by (simp add: conn_ok_def)
  obtain l1 where l1: "update_event fd (fd_listen (Group_Event fd) IN_EVENT (Some (On_Read fd)) None) (l\<lparr>el_group := g\<rparr>) = Some l1"
      "addEpollEvent fd_ok tid (Group_Event fd) l1 = Some l'"
    using r c(1) by (auto simp: listenRead_def bind_eq_Some_conv)
  note k = listen_keeps [OF events_typed_group(1) [OF assms(1) g] disjI1, OF l1(1)]
  have s: "el_kernel l1 = el_kernel l" "m_listen_fds l1 = m_listen_fds l"
    using l1(1) by (auto simp: update_event_def bind_eq_Some_conv)
  have "\<not> isInLoopThread tid l1" using assms(2) k by (simp add: isInLoopThread_def loop_keeps_def)
  then have l': "l' = addTask (Some (Add_To_Epoll (Group_Event fd))) True l1" using l1(2) by (simp add: addEpollEvent_def)
  show "events_typed l'" using loop_keeps_typed [OF k] by (simp add: l' events_typed_def)
  show "el_thread_id l' = el_thread_id l" "el_kernel l' = el_kernel l" "m_listen_fds l' = m_listen_fds l"
      "m_pending_tasks l' = m_pending_tasks l @ [Some (Add_To_Epoll (Group_Event fd))]"
      "el_wakeup_fd l' = el_wakeup_fd l" "el_timer l' = el_timer l"
    using k by (simp_all add: l' s addTask_fds loop_keeps_def)
qed

lemma ev_at_timer:
  "ev_at (l\<lparr>el_timer := tm\<rparr>) p = (if p = Timer_Event then Some (fd_event.truncate tm) else ev_at l p)"
  by (cases p) (simp_all add: ev_at_def)

lemma Eventloop_new_inv:
  assumes "Eventloop_new fd_ok created sys (FdEventGroup_new n) = Some l"
  shows "loop_inv {} Map.empty l" "el_thread_id l = lsys_tid sys"
proof -
  have add: "ev_at l' = ev_at l \<and> el_thread_id l' = el_thread_id l \<and> m_pending_tasks l' = m_pending_tasks l \<and>
      el_wakeup_fd l' = el_wakeup_fd l \<and> el_timer l' = el_timer l \<and> dom (el_kernel l') \<subseteq> m_listen_fds l' \<and>
      (\<forall>fd m d. el_kernel l' fd = Some (m, d) \<longrightarrow> el_kernel l fd = Some (m, d) \<or> fd = fde_fd e \<and> d = Some p)"
    if "addEpollEvent fd_ok (el_thread_id l) p l = Some l'" "ev_at l p = Some e" "fde_data e = Some p"
      "dom (el_kernel l) \<subseteq> m_listen_fds l" for l l' p e
    using that(3,4) by (auto simp: addEpollEvent_in_loop [OF that(1,2)] split: if_splits)
  let ?e = "fd_listen Wakeup_Event IN_EVENT (Some Read_Wakeup_Fd) None (Fd_Event_new (lsys_eventfd sys))"
  let ?l0 = "\<lparr>el_thread_id = lsys_tid sys, el_epoll_fd = lsys_epoll_create sys, el_wakeup_fd = lsys_eventfd sys,
           el_wakeup = ?e, el_timer = Timer_new 0, el_listen = None, el_group = FdEventGroup_new n, m_listen_fds = {},
           m_pending_tasks = [], m_stop_flag = False, m_is_looping = False, el_kernel = Map.empty, el_eventfd = 0\<rparr>"
  obtain l1 where l1: "addEpollEvent fd_ok (lsys_tid sys) Wakeup_Event ?l0 = Some l1"
      "addEpollEvent fd_ok (lsys_tid sys) Timer_Event (l1\<lparr>el_timer := Timer_new (lsys_timerfd sys)\<rparr>) = Some l"
    using assms by (auto simp: Eventloop_new_def initWakeUpFdEevent_def initTimer_def bind_eq_Some_conv split: if_splits)
  have d: "fde_data (fd_listen p t cb ec e) = Some p" for p t cb ec and e :: fd_event by (simp add: fd_listen_def Let_def)
  have a1: "ev_at l1 = ev_at ?l0 \<and> el_thread_id l1 = lsys_tid sys \<and> m_pending_tasks l1 = [] \<and> dom (el_kernel l1) \<subseteq> m_listen_fds l1 \<and>
      el_wakeup_fd l1 = lsys_eventfd sys \<and> (\<forall>fd m d. el_kernel l1 fd = Some (m, d) \<longrightarrow> fd = lsys_eventfd sys \<and> d = Some Wakeup_Event)"
    using add [of ?l0 Wakeup_Event l1 ?e] l1(1) by (simp add: ev_at_def d Fd_Event_new_def)
  let ?l2 = "l1\<lparr>el_timer := Timer_new (lsys_timerfd sys)\<rparr>"
  have a2: "ev_at l = ev_at ?l2 \<and> el_thread_id l = lsys_tid sys \<and> m_pending_tasks l = [] \<and> dom (el_kernel l) \<subseteq> m_listen_fds l \<and>
      (\<forall>fd m d. el_kernel l fd = Some (m, d) \<longrightarrow> d = Some Wakeup_Event \<and> fd = el_wakeup_fd l \<or> d = Some Timer_Event \<and> fd = fde_fd (el_timer l))"
  proof -
    let ?tm = "Timer_new (lsys_timerfd sys)"
    have td: "fde_data (fd_event.truncate ?tm) = Some Timer_Event" "fde_fd (fd_event.truncate ?tm) = fde_fd ?tm"
      by (simp_all add: Timer_new_def fd_listen_def Let_def fd_event.defs)
    have "ev_at ?l2 Timer_Event = Some (fd_event.truncate ?tm)" by (simp add: ev_at_def)
    from add [OF _ this td(1)] l1(2) a1 td(2) show ?thesis by fastforce
  qed
  have "ev_at ?l2 p = (if p = Timer_Event then Some (fd_event.truncate (Timer_new (lsys_timerfd sys))) else ev_at ?l0 p)" for p
    using a1 by (simp add: ev_at_timer)
  then have at: "ev_at l p = (if p = Timer_Event then Some (fd_event.truncate (Timer_new (lsys_timerfd sys))) else ev_at ?l0 p)" for p
    using a2 by simp
  have "ev_typed p e" if "ev_at l p = Some e" for p e
    using that unfolding at
    by (cases p) (auto simp: ev_at_def ev_typed_def Timer_new_def fd_listen_def Fd_Event_new_def FdEventGroup_new_def Let_def fd_event.defs
      split: if_splits)
  then have "events_typed l" by (simp add: events_typed_def)
  then show "loop_inv {} Map.empty l" "el_thread_id l = lsys_tid sys"
    using a2 by (auto simp: loop_inv_def base_inv_def regs_live_def reg_ok_def)
qed

section \<open>The server\<close>

text \<open>
  \<open>sw_fds\<close>: the descriptors the process has got from the kernel.  The server never closes one, so \<open>accept\<close> never
  returns one of them again.
\<close>

record server_world =
  sw_server :: tcp_server
  sw_rts :: "nat \<Rightarrow> run_time"
  sw_socks :: "nat \<Rightarrow> sock_in"
  sw_sent :: "(nat \<times> byte list) list"
  sw_fds :: "nat set"

definition thread_loop :: "tcp_server \<Rightarrow> nat \<Rightarrow> event_loop" where
  "thread_loop s k = getEventLoop (m_io_thread_groups (srv_threads s) ! k)"

definition thread_count :: "tcp_server \<Rightarrow> nat" where
  "thread_count s = length (m_io_thread_groups (srv_threads s))"

definition node_of :: "server_world \<Rightarrow> nat \<Rightarrow> io_node" where
  "node_of w k = \<lparr>nd_loop = thread_loop (sw_server w) k, nd_conns = srv_conns (sw_server w), nd_rt = sw_rts w k,
     nd_socks = sw_socks w, nd_sent = sw_sent w\<rparr>"

definition put_node :: "nat \<Rightarrow> io_node \<Rightarrow> server_world \<Rightarrow> server_world" where
  "put_node k nd w = w\<lparr>sw_server := (sw_server w)\<lparr>srv_threads := update_thread_loop k (nd_loop nd) (srv_threads (sw_server w)),
     srv_conns := nd_conns nd\<rparr>, sw_rts := (sw_rts w)(k := nd_rt nd), sw_socks := nd_socks nd, sw_sent := nd_sent nd\<rparr>"

text \<open>
  The steps.  \<open>onAccept\<close> and \<open>ClearClientTimerFunc\<close> run in the main thread, the latter from its timer; a pass runs in the
  IO thread \<open>k\<close>, as one step: no clean-up happens between the callbacks of a pass.  What the sockets deliver changes at any time.
\<close>

inductive server_step :: "('req, 'rsp) service_map \<Rightarrow> int \<Rightarrow> server_world \<Rightarrow> server_world \<Rightarrow> bool" for smap main_tid where
  Accepts: "fd \<notin> sw_fds w \<Longrightarrow> onAccept fd_ok inet_ntoa main_tid flag (int fd) sa (sw_server w) = Some s \<Longrightarrow>
    server_step smap main_tid w (w\<lparr>sw_server := s, sw_fds := insert fd (sw_fds w)\<rparr>)"
| Passes: "k < thread_count (sw_server w) \<Longrightarrow> node_round env smap (node_of w k) = Some (Returns nd) \<Longrightarrow>
    server_step smap main_tid w (put_node k nd w)"
| Cleans: "server_step smap main_tid w (w\<lparr>sw_server := ClearClientTimerFunc (sw_server w)\<rparr>)"
| Arrives: "server_step smap main_tid w (w\<lparr>sw_socks := socks\<rparr>)"

inductive server_runs :: "('req, 'rsp) service_map \<Rightarrow> int \<Rightarrow> server_world \<Rightarrow> server_world \<Rightarrow> bool" for smap main_tid w where
  Starts: "server_runs smap main_tid w w"
| Steps: "server_runs smap main_tid w w1 \<Longrightarrow> server_step smap main_tid w1 w2 \<Longrightarrow> server_runs smap main_tid w w2"

text \<open>A server whose threads have just been created by a thread that is none of them, before its first client.\<close>

definition fresh_server :: "int \<Rightarrow> tcp_server \<Rightarrow> bool" where
  "fresh_server main_tid s \<longleftrightarrow> m_client s = [] \<and>
     (\<exists>fd_ok n sys sz g. IOThreadGroup_new fd_ok (FdEventGroup_new n) sys sz = Some g \<and>
        m_io_thread_groups (srv_threads s) = m_io_thread_groups g \<and> (\<forall>i. lsys_tid (sys i) \<noteq> main_tid))"

lemma TcpServer_new_fresh:
  assumes "TcpServer_new inet_addr asys fd_ok clock tid current main_sys sys (FdEventGroup_new n) cfg te clear_task addr = Some s"
    and "\<And>i. lsys_tid (sys i) \<noteq> tid"
  shows "fresh_server tid s"
proof -
  obtain c :: config and acc main threads where "IOThreadGroup_new fd_ok (FdEventGroup_new n) sys (m_io_threads c) = Some threads"
      "TcpServer_init fd_ok clock tid acc main threads te clear_task = Some s"
    using assms(1) by (auto simp: TcpServer_new_def bind_eq_Some_conv)
  moreover from this have "m_client s = []" "srv_threads s = threads"
    by (auto simp: TcpServer_init_def bind_eq_Some_conv Let_def)
  ultimately show ?thesis using assms(2) unfolding fresh_server_def by blast
qed

definition owned :: "tcp_server \<Rightarrow> nat \<Rightarrow> nat set" where
  "owned s k = {i. (k, i) \<in> set (m_client s)}"

definition server_inv :: "int \<Rightarrow> server_world \<Rightarrow> bool" where
  "server_inv main_tid w \<longleftrightarrow> (let s = sw_server w in
     (\<forall>k < thread_count s. el_thread_id (thread_loop s k) \<noteq> main_tid \<and> loop_inv (owned s k) (srv_conns s) (thread_loop s k)) \<and>
     distinct (map snd (m_client s)) \<and> snd ` set (m_client s) \<subseteq> sw_fds w)"

lemma new_threads_loops:
  "new_threads fd_ok grp ss = Some ts \<Longrightarrow> list_all2 (\<lambda>sys t. Eventloop_new fd_ok False sys grp = Some (it_loop t)) ss ts"
  by (induction ss arbitrary: ts) (auto simp: bind_eq_Some_conv IOThread_new_def)

lemma loop_inv_no_conns:
  assumes "loop_inv {} Map.empty l"
  shows "loop_inv {} conns l"
proof -
  have "base_inv {} conns l" using assms by (auto simp: loop_inv_def base_inv_def regs_live_def reg_ok_def)
  moreover have "task_live {} conns ts t" if "task_live {} Map.empty ts t" for ts t
    using that by (auto simp: task_live_def task_ok_def split: task.splits)
  ultimately show ?thesis using assms by (simp add: loop_inv_def)
qed

lemma fresh_server_inv:
  assumes "fresh_server main_tid (sw_server w)"
  shows "server_inv main_tid w"
proof -
  let ?s = "sw_server w"
  obtain fd_ok n sys sz g where g: "IOThreadGroup_new fd_ok (FdEventGroup_new n) sys sz = Some g"
      "m_io_thread_groups (srv_threads ?s) = m_io_thread_groups g" "\<And>i. lsys_tid (sys i) \<noteq> main_tid" and e: "m_client ?s = []"
    using assms by (auto simp: fresh_server_def)
  have all: "list_all2 (\<lambda>sys t. Eventloop_new fd_ok False sys (FdEventGroup_new n) = Some (it_loop t)) (map sys [0 ..< nat sz]) (m_io_thread_groups g)"
    using g(1) new_threads_loops by (auto simp: IOThreadGroup_new_def bind_eq_Some_conv split: if_splits)
  have "el_thread_id (thread_loop ?s k) \<noteq> main_tid \<and> loop_inv (owned ?s k) (srv_conns ?s) (thread_loop ?s k)" if "k < thread_count ?s" for k
  proof -
    have k: "k < length (m_io_thread_groups g)" using that g(2) by (simp add: thread_count_def)
    then have "Eventloop_new fd_ok False (sys k) (FdEventGroup_new n) = Some (thread_loop ?s k)"
      using list_all2_nthD2 [OF all k] list_all2_lengthD [OF all] g(2) by (simp add: thread_loop_def getEventLoop_def)
    from Eventloop_new_inv [OF this] show ?thesis using g(3) loop_inv_no_conns e by (simp add: owned_def)
  qed
  then show ?thesis using e by (simp add: server_inv_def)
qed

lemma loop_inv_change:
  assumes "loop_inv A conns l" "\<And>i. i \<in> A \<Longrightarrow> live conns i \<Longrightarrow> i \<in> A' \<and> conns' i = conns i"
    and "\<And>i c. i \<in> A' \<Longrightarrow> conns' i = Some c \<Longrightarrow> conn_ok i c"
  shows "loop_inv A' conns' l"
proof -
  have b: "i \<in> A' \<and> live conns' i \<and> conns' i \<noteq> None" if "i \<in> A" "live conns i" for i
    using assms(2) [OF that] that(2) by (auto simp: live_def)
  have "task_live A' conns' ts t" if "task_live A conns ts t" for ts t
    using that b by (auto simp: task_live_def task_ok_def split: task.splits)
  moreover have "reg_ok A' conns' l fd d" if "reg_ok A conns l fd d" for fd d
    using that b by (auto simp: reg_ok_def)
  ultimately show ?thesis using assms(1,3) by (auto simp: loop_inv_def base_inv_def regs_live_def)
qed

lemma loop_inv_conn_ok: "loop_inv A conns l \<Longrightarrow> i \<in> A \<Longrightarrow> conns i = Some c \<Longrightarrow> conn_ok i c"
  by (simp add: loop_inv_def base_inv_def)

text \<open>Queueing the registration of a connection that the loop does not know yet.\<close>

lemma loop_inv_adopt:
  assumes "loop_inv A conns l" "fd \<notin> A" "conn_ok fd c" "conn_state c \<noteq> Closed"
    and "events_typed l'" "el_kernel l' = el_kernel l" "m_listen_fds l' = m_listen_fds l"
    and "m_pending_tasks l' = m_pending_tasks l @ [Some (Add_To_Epoll (Group_Event fd))]" "el_wakeup_fd l' = el_wakeup_fd l" "el_timer l' = el_timer l"
  shows "loop_inv (insert fd A) (conns(fd \<mapsto> c)) l'"
proof -
  let ?A = "insert fd A" and ?conns = "conns(fd \<mapsto> c)" and ?ts = "m_pending_tasks l"
  have "loop_inv ?A ?conns l"
    by (rule loop_inv_change [OF assms(1)]) (use assms(2,3) loop_inv_conn_ok [OF assms(1)] in \<open>auto split: if_splits\<close>)
  then have b: "base_inv ?A ?conns l" "\<And>t. Some t \<in> set ?ts \<Longrightarrow> task_live ?A ?conns ?ts t" by (auto simp: loop_inv_def)
  have o: "\<And>t. Some t \<in> set ?ts \<Longrightarrow> task_live A conns ?ts t" using assms(1) by (simp add: loop_inv_def)
  have n: "Some (On_Read fd) \<notin> set ?ts" "Some (On_Write fd) \<notin> set ?ts"
    using o [of "On_Read fd"] o [of "On_Write fd"] assms(2) by (auto simp: task_live_def task_ok_def)
  have "task_live ?A ?conns (?ts @ [Some (Add_To_Epoll (Group_Event fd))]) t" if "Some t \<in> set ?ts" for t
    using b(2) [OF that] by (auto simp: task_live_def task_ok_def split: task.splits)
  moreover have "task_live ?A ?conns (?ts @ [Some (Add_To_Epoll (Group_Event fd))]) (Add_To_Epoll (Group_Event fd))"
    using n assms(4) by (simp add: task_live_def task_ok_def live_def)
  moreover have "base_inv ?A ?conns l'" using b(1) assms(5-7,9,10) by (simp add: base_inv_def regs_live_def reg_ok_def)
  ultimately show ?thesis using assms(8) by (auto simp: loop_inv_def)
qed

lemma thread_loop_update [simp]:
  "thread_loop (s\<lparr>srv_threads := update_thread_loop k l g\<rparr>) j =
     (if j = k \<and> k < length (m_io_thread_groups g) then l else getEventLoop (m_io_thread_groups g ! j))"
  "length (m_io_thread_groups (update_thread_loop k l g)) = length (m_io_thread_groups g)"
  by (auto simp: thread_loop_def update_thread_loop_def getEventLoop_def nth_list_update list_update_beyond)

lemma getIOThread_threads:
  "getIOThread g = Some (i, g') \<Longrightarrow> i < length (m_io_thread_groups g) \<and> m_io_thread_groups g' = m_io_thread_groups g"
  by (auto simp: getIOThread_def Let_def split: if_splits)

text \<open>What \<open>onAccept\<close> does, for the thread \<open>k\<close> it chooses.\<close>

lemma onAccept_step:
  assumes "onAccept fd_ok inet_ntoa tid flag (int fd) sa s = Some s'"
  shows "\<exists>k g c l. getIOThread (srv_threads s) = Some (k, g) \<and>
    TcpConnection_new fd_ok tid flag (int fd) 128 (snd (acceptor_accept inet_ntoa (int fd) sa (srv_acceptor s)))
      (Some (srv_local_addr s)) TcpConnectionByServer (thread_loop s k) = Some (c, l) \<and>
    s' = s\<lparr>m_client_counts := m_client_counts s + 1, srv_threads := update_thread_loop k l g,
           m_client := m_client s @ [(k, conn_fd_event c)], srv_conns := (srv_conns s)(conn_fd_event c \<mapsto> setState Connected c)\<rparr>"
proof -
  obtain k g where g: "getIOThread (srv_threads s) = Some (k, g)" using assms by (auto simp: onAccept_def bind_eq_Some_conv Let_def split: prod.splits)
  have neg: "TcpConnection_new fd_ok tid flag (-1) 128 p q ty l = None" for p q ty l
    by (simp add: TcpConnection_new_def getFdEvent_def TcpBuffer_new_def)
  have a: "fst (acceptor_accept inet_ntoa (int fd) sa (srv_acceptor s)) = int fd"
    using assms g neg by (cases "acc_family (srv_acceptor s) = AF_INET") (auto simp: onAccept_def acceptor_accept_def)
  show ?thesis using assms g a getIOThread_threads [OF g]
    by (cases "acceptor_accept inet_ntoa (int fd) sa (srv_acceptor s)")
       (auto simp: onAccept_def bind_eq_Some_conv Let_def thread_loop_def setState_def)
qed

lemma accept_inv:
  assumes "server_inv main_tid w" "fd \<notin> sw_fds w" "onAccept fd_ok inet_ntoa main_tid flag (int fd) sa (sw_server w) = Some s"
  shows "server_inv main_tid (w\<lparr>sw_server := s, sw_fds := insert fd (sw_fds w)\<rparr>)"
proof -
  let ?s = "sw_server w"
  obtain k g c l peer where a: "getIOThread (srv_threads ?s) = Some (k, g)"
      "TcpConnection_new fd_ok main_tid flag (int fd) 128 peer (Some (srv_local_addr ?s)) TcpConnectionByServer (thread_loop ?s k) = Some (c, l)"
      "s = ?s\<lparr>m_client_counts := m_client_counts ?s + 1, srv_threads := update_thread_loop k l g,
           m_client := m_client ?s @ [(k, conn_fd_event c)], srv_conns := (srv_conns ?s)(conn_fd_event c \<mapsto> setState Connected c)\<rparr>"
    using onAccept_step [OF assms(3)] by blast
  note g = getIOThread_threads [OF a(1)]
  have inv: "el_thread_id (thread_loop ?s j) \<noteq> main_tid \<and> loop_inv (owned ?s j) (srv_conns ?s) (thread_loop ?s j)" if "j < thread_count ?s" for j
    using assms(1) that by (simp add: server_inv_def Let_def)
  have k: "k < thread_count ?s" "events_typed (thread_loop ?s k)" "\<not> isInLoopThread main_tid (thread_loop ?s k)"
    using g inv [of k] by (auto simp: thread_count_def loop_inv_def base_inv_def isInLoopThread_def)
  note n = TcpConnection_new_typed [OF k(2,3) a(2)]
  have fd: "conn_fd_event c = fd" "fd \<notin> owned ?s j" for j
    using n(1) assms(1,2) by (auto simp: conn_ok_def server_inv_def Let_def owned_def)
  have own: "owned s j = (if j = k then insert fd (owned ?s j) else owned ?s j)" for j
    by (auto simp: a(3) owned_def fd(1))
  have lp: "thread_loop s j = (if j = k then l else thread_loop ?s j)" "thread_count s = thread_count ?s" for j
    using g by (auto simp: a(3) thread_count_def) (auto simp: thread_loop_def update_thread_loop_def getEventLoop_def)
  have "el_thread_id (thread_loop s j) \<noteq> main_tid \<and> loop_inv (owned s j) (srv_conns s) (thread_loop s j)" if j: "j < thread_count s" for j
  proof (cases "j = k")
    case True
    have "conn_ok fd (setState Connected c)" "conn_state (setState Connected c) \<noteq> Closed" using n(1) by (simp_all add: setState_def conn_ok_def)
    from loop_inv_adopt [OF _ fd(2) this n(2) n(4-8)] show ?thesis
      using inv [OF k(1)] True n(3) by (simp add: lp own) (simp add: a(3) fd(1))
  next
    case False
    have b: "loop_inv (owned ?s j) (srv_conns ?s) (thread_loop ?s j)" using inv j by (simp add: lp(2))
    have "loop_inv (owned ?s j) (srv_conns s) (thread_loop ?s j)"
      by (rule loop_inv_change [OF b]) (use fd loop_inv_conn_ok [OF b] in \<open>auto simp: a(3) split: if_splits\<close>)
    then show ?thesis using False inv j by (simp add: lp own)
  qed
  moreover have "distinct (map snd (m_client s))" "snd ` set (m_client s) \<subseteq> insert fd (sw_fds w)"
    using assms(1,2) by (auto simp: a(3) fd(1) server_inv_def Let_def)
  ultimately show ?thesis by (simp add: server_inv_def)
qed

lemma pass_inv:
  assumes "server_inv main_tid w" "k < thread_count (sw_server w)" "node_round env smap (node_of w k) = Some (Returns nd)"
  shows "server_inv main_tid (put_node k nd w)"
proof -
  let ?s = "sw_server w" and ?s' = "sw_server (put_node k nd w)"
  have inv: "el_thread_id (thread_loop ?s j) \<noteq> main_tid \<and> loop_inv (owned ?s j) (srv_conns ?s) (thread_loop ?s j)" if "j < thread_count ?s" for j
    using assms(1) that by (simp add: server_inv_def Let_def)
  have "loop_inv (owned ?s k) (nd_conns (node_of w k)) (nd_loop (node_of w k))" using inv [OF assms(2)] by (simp add: node_of_def)
  from node_round_inv [OF this assms(3)]
  have r: "loop_inv (owned ?s k) (nd_conns nd) (nd_loop nd)" "el_thread_id (nd_loop nd) = el_thread_id (thread_loop ?s k)"
      "\<And>i. i \<notin> owned ?s k \<Longrightarrow> nd_conns nd i = srv_conns ?s i"
    by (auto simp: node_frame_def node_of_def)
  have s': "thread_loop ?s' j = (if j = k then nd_loop nd else thread_loop ?s j)" "thread_count ?s' = thread_count ?s"
      "owned ?s' j = owned ?s j" "srv_conns ?s' = nd_conns nd" "m_client ?s' = m_client ?s" for j
    using assms(2) by (auto simp: put_node_def thread_count_def owned_def) (auto simp: thread_loop_def update_thread_loop_def getEventLoop_def)
  have "el_thread_id (thread_loop ?s' j) \<noteq> main_tid \<and> loop_inv (owned ?s' j) (srv_conns ?s') (thread_loop ?s' j)" if j: "j < thread_count ?s" for j
  proof (cases "j = k")
    case False
    have "i \<notin> owned ?s k" if "i \<in> owned ?s j" for i
    proof
      assume "i \<in> owned ?s k"
      with that have "(j, i) = (k, i)"
        using assms(1) by (intro inj_onD [of snd "set (m_client ?s)"]) (auto simp: owned_def server_inv_def Let_def distinct_map)
      then show False using False by simp
    qed
    then have same: "nd_conns nd i = srv_conns ?s i" if "i \<in> owned ?s j" for i using that r(3) by blast
    have b: "loop_inv (owned ?s j) (srv_conns ?s) (thread_loop ?s j)" using inv j by blast
    have "loop_inv (owned ?s j) (nd_conns nd) (thread_loop ?s j)"
      by (rule loop_inv_change [OF b]) (use same loop_inv_conn_ok [OF b] in simp_all)
    then show ?thesis using False inv j by (simp add: s')
  qed (use inv r assms(2) in \<open>simp add: s'\<close>)
  then show ?thesis using assms(1) by (simp add: server_inv_def s' Let_def) (simp add: put_node_def)
qed

lemma clean_inv:
  assumes "server_inv main_tid w"
  shows "server_inv main_tid (w\<lparr>sw_server := ClearClientTimerFunc (sw_server w)\<rparr>)"
proof -
  let ?s = "sw_server w" and ?s' = "ClearClientTimerFunc (sw_server w)"
  have s': "thread_loop ?s' j = thread_loop ?s j" "thread_count ?s' = thread_count ?s" for j
    by (simp_all add: ClearClientTimerFunc_def thread_loop_def thread_count_def)
  have "loop_inv (owned ?s' j) (srv_conns ?s') (thread_loop ?s j)" if "j < thread_count ?s" for j
  proof (rule loop_inv_change)
    show "loop_inv (owned ?s j) (srv_conns ?s) (thread_loop ?s j)" using assms that by (simp add: server_inv_def Let_def)
    then show "conn_ok i c" if "i \<in> owned ?s' j" "srv_conns ?s' i = Some c" for i c
      using that loop_inv_conn_ok by (fastforce simp: ClearClientTimerFunc_def owned_def restrict_map_def split: if_splits)
    show "i \<in> owned ?s' j \<and> srv_conns ?s' i = srv_conns ?s i" if "i \<in> owned ?s j" "live (srv_conns ?s) i" for i
      using that by (auto simp: ClearClientTimerFunc_def owned_def live_def client_closed_def restrict_map_def getState_def split: option.splits)
  qed
  moreover have "distinct (map snd (m_client ?s'))" "snd ` set (m_client ?s') \<subseteq> sw_fds w"
    using assms by (auto simp: ClearClientTimerFunc_def server_inv_def Let_def distinct_map inj_on_def)
  ultimately show ?thesis using assms by (simp add: server_inv_def Let_def s')
qed

lemma server_step_inv:
  assumes "server_step smap main_tid w w'" "server_inv main_tid w"
  shows "server_inv main_tid w'"
  using assms
proof (induction rule: server_step.induct)
  case (Arrives w socks)
  then show ?case by (simp add: server_inv_def)
qed (blast intro: accept_inv pass_inv clean_inv)+

lemma server_runs_inv:
  "server_runs smap main_tid w w' \<Longrightarrow> server_inv main_tid w \<Longrightarrow> server_inv main_tid w'"
  by (induction rule: server_runs.induct) (blast intro: server_step_inv)+

section \<open>Properties\<close>

text \<open>
  C4. In every state the server can reach by accepting, whole passes of its IO threads and clean-ups between the passes, a read or
  write callback that is queued, a registration that is queued and a registration in the kernel always belong to a connection
  of the same thread that exists and is not closed; so a clean-up that runs while no IO thread is within a pass destroys
  no connection that a loop can still call.  It says nothing of a clean-up within a pass, which can destroy one
  (\<open>cleanup_between_callbacks_dangles\<close>).
\<close>

theorem loops_call_live_connections:
  assumes "fresh_server main_tid (sw_server w0)" "server_runs smap main_tid w0 w" "k < thread_count (sw_server w)"
    and "tasks = set (m_pending_tasks (thread_loop (sw_server w) k))"
    and "Some (On_Read i) \<in> tasks \<or> Some (On_Write i) \<in> tasks \<or> Some (Add_To_Epoll (Group_Event i)) \<in> tasks \<or>
      (\<exists>fd m. el_kernel (thread_loop (sw_server w) k) fd = Some (m, Some (Group_Event i)))"
  shows "\<exists>c. srv_conns (sw_server w) i = Some c \<and> conn_state c \<noteq> Closed \<and> (k, i) \<in> set (m_client (sw_server w)) \<and>
    srv_conns (ClearClientTimerFunc (sw_server w)) i = Some c \<and> (k, i) \<in> set (m_client (ClearClientTimerFunc (sw_server w)))"
proof -
  let ?s = "sw_server w"
  have l: "loop_inv (owned ?s k) (srv_conns ?s) (thread_loop ?s k)"
    using server_runs_inv [OF assms(2) fresh_server_inv [OF assms(1)]] assms(3) by (simp add: server_inv_def Let_def)
  have t: "task_live (owned ?s k) (srv_conns ?s) (m_pending_tasks (thread_loop ?s k)) t" if "Some t \<in> tasks" for t
    using l that assms(4) by (simp add: loop_inv_def)
  have "i \<in> owned ?s k \<and> live (srv_conns ?s) i"
    using assms(5) t [of "On_Read i"] t [of "On_Write i"] t [of "Add_To_Epoll (Group_Event i)"] l
    by (fastforce simp: task_live_def task_ok_def loop_inv_def base_inv_def regs_live_def reg_ok_def)
  then obtain c where "srv_conns ?s i = Some c" "conn_state c \<noteq> Closed" "(k, i) \<in> set (m_client ?s)" by (auto simp: live_def owned_def)
  then show ?thesis by (auto simp: ClearClientTimerFunc_def client_closed_def getState_def restrict_map_def split: option.splits)
qed

text \<open>The first connection of a new server.\<close>

lemma demo_server_fresh: "fresh_server 2 demo_server"
proof -
  have "IOThreadGroup_new (\<lambda>fd. 0 \<le> fd) (FdEventGroup_new 128) (\<lambda>_. demo_sys_loop) 1 = Some (srv_threads demo_server\<lparr>m_index := 0\<rparr>)"
    using demo_loop_new by (simp add: IOThreadGroup_new_def IOThread_new_def demo_server_def) (simp add: demo_sys_loop_def)
  then show ?thesis unfolding fresh_server_def
    by (intro conjI exI) (assumption | simp add: demo_server_def demo_sys_loop_def)+
qed

definition demo_world :: "tcp_server \<Rightarrow> server_world" where
  "demo_world s = \<lparr>sw_server = s, sw_rts = (\<lambda>_. RunTime_new), sw_socks = (\<lambda>_. \<lparr>si_chunks = [], si_end = At_Again\<rparr>), sw_sent = [], sw_fds = {}\<rparr>"

definition demo_node_env :: node_env where
  "demo_node_env = \<lparr>ne_fd_ok = (\<lambda>_. True), ne_clock = int, ne_timer_reads = [], ne_timer_ready = False,
     ne_writes = (\<lambda>_. [Wrote 100]), ne_writable = (\<lambda>_. True), ne_error = (\<lambda>_. False), ne_order = [10, 9]\<rparr>"

lemma demo_accept:
  "\<exists>s. onAccept (\<lambda>_. True) (\<lambda>_. ''0.0.0.0'') 2 0 (int 9) \<lparr>sin_family = 2, sin_addr = 5, sin_port = 6\<rparr> demo_server = Some s \<and>
     server_runs [(''Order'', demo_service)] 2 (demo_world demo_server) ((demo_world s)\<lparr>sw_fds := {9}\<rparr>) \<and> thread_count s = 1 \<and>
     Some (Add_To_Epoll (Group_Event 9)) \<in> set (m_pending_tasks (thread_loop s 0)) \<and> m_client s = [(0, 9)] \<and> srv_conns s 9 \<noteq> None"
proof -
  let ?sa = "\<lparr>sin_family = 2, sin_addr = 5, sin_port = 6\<rparr>"
  let ?peer = "snd (acceptor_accept (\<lambda>_. ''0.0.0.0'') (int 9) ?sa (srv_acceptor demo_server))"
  have g: "getIOThread (srv_threads demo_server) = Some (0, (srv_threads demo_server)\<lparr>m_index := 1\<rparr>)"
    by (simp add: getIOThread_def demo_server_def)
  have t: "thread_loop demo_server 0 = demo_loop" by (simp add: thread_loop_def getEventLoop_def demo_server_def)
  obtain c l where c: "TcpConnection_new (\<lambda>_. True) 2 0 9 128 ?peer (Some (srv_local_addr demo_server)) TcpConnectionByServer demo_loop = Some (c, l)"
      "conn_fd_event c = 9" "m_pending_tasks l = m_pending_tasks demo_loop @ [Some (Add_To_Epoll (Group_Event 9))]"
    using TcpConnection_new_cross_thread [of demo_loop 9 2 "\<lambda>_. True" 0 ?peer "Some (srv_local_addr demo_server)"]
    by (auto simp: demo_loop_eval group_inv_new int_ok_def isInLoopThread_def)
  obtain s where s: "onAccept (\<lambda>_. True) (\<lambda>_. ''0.0.0.0'') 2 0 (int 9) ?sa demo_server = Some s"
      "thread_count s = 1" "thread_loop s 0 = l" "m_client s = [(0, 9)]" "srv_conns s 9 \<noteq> None"
    using c(1,2) g t
    by (auto simp: onAccept_def acceptor_accept_def demo_server_def thread_loop_def getEventLoop_def thread_count_def update_thread_loop_def setState_def)
  have "server_step [(''Order'', demo_service)] 2 (demo_world demo_server) ((demo_world s)\<lparr>sw_fds := {9}\<rparr>)"
    using Accepts [of 9 "demo_world demo_server" "\<lambda>_. True" "\<lambda>_. ''0.0.0.0''" 2 0 ?sa s "[(''Order'', demo_service)]"] s(1)
    by (simp add: demo_world_def)
  then have "server_runs [(''Order'', demo_service)] 2 (demo_world demo_server) ((demo_world s)\<lparr>sw_fds := {9}\<rparr>)"
    by (rule Steps [OF Starts])
  then show ?thesis using s c(3) by auto
qed

theorem loops_call_live_connections_witness:
  "\<exists>s c. onAccept (\<lambda>_. True) (\<lambda>_. ''0.0.0.0'') 2 0 (int 9) \<lparr>sin_family = 2, sin_addr = 5, sin_port = 6\<rparr> demo_server = Some s \<and>
     Some (Add_To_Epoll (Group_Event 9)) \<in> set (m_pending_tasks (thread_loop s 0)) \<and>
     srv_conns s 9 = Some c \<and> conn_state c \<noteq> Closed \<and> srv_conns (ClearClientTimerFunc s) 9 = Some c"
proof -
  obtain s where s: "onAccept (\<lambda>_. True) (\<lambda>_. ''0.0.0.0'') 2 0 (int 9) \<lparr>sin_family = 2, sin_addr = 5, sin_port = 6\<rparr> demo_server = Some s"
      "server_runs [(''Order'', demo_service)] 2 (demo_world demo_server) ((demo_world s)\<lparr>sw_fds := {9}\<rparr>)" "thread_count s = 1"
      "Some (Add_To_Epoll (Group_Event 9)) \<in> set (m_pending_tasks (thread_loop s 0))"
    using demo_accept by blast
  have f: "fresh_server 2 (sw_server (demo_world demo_server))" using demo_server_fresh by (simp add: demo_world_def)
  from loops_call_live_connections [OF f s(2), of 0 _ 9] s show ?thesis by (auto simp: demo_world_def)
qed

text \<open>
  C15. Whatever bytes arrive, in every reachable state each connection a thread owns is well formed: it is the server
  connection of its own descriptor event, and the indices of both buffers are in order and within their vectors.
\<close>

theorem connections_stay_well_formed:
  assumes "fresh_server main_tid (sw_server w0)" "server_runs smap main_tid w0 w" "k < thread_count (sw_server w)"
    and "(k, i) \<in> set (m_client (sw_server w))" "srv_conns (sw_server w) i = Some c"
  shows "conn_fd_event c = i \<and> conn_type c = TcpConnectionByServer \<and> buf_inv (m_in_buffer c) \<and> buf_inv (m_out_buffer c)"
proof -
  have "loop_inv (owned (sw_server w) k) (srv_conns (sw_server w)) (thread_loop (sw_server w) k)"
    using server_runs_inv [OF assms(2) fresh_server_inv [OF assms(1)]] assms(3) by (simp add: server_inv_def Let_def)
  from loop_inv_conn_ok [OF this _ assms(5)] assms(4) show ?thesis by (simp add: owned_def conn_ok_def)
qed

theorem connections_stay_well_formed_witness:
  "\<exists>s c. onAccept (\<lambda>_. True) (\<lambda>_. ''0.0.0.0'') 2 0 (int 9) \<lparr>sin_family = 2, sin_addr = 5, sin_port = 6\<rparr> demo_server = Some s \<and>
     srv_conns s 9 = Some c \<and> conn_fd_event c = 9 \<and> buf_inv (m_in_buffer c) \<and> buf_inv (m_out_buffer c)"
proof -
  obtain s where s: "onAccept (\<lambda>_. True) (\<lambda>_. ''0.0.0.0'') 2 0 (int 9) \<lparr>sin_family = 2, sin_addr = 5, sin_port = 6\<rparr> demo_server = Some s"
      "server_runs [(''Order'', demo_service)] 2 (demo_world demo_server) ((demo_world s)\<lparr>sw_fds := {9}\<rparr>)" "thread_count s = 1"
      "m_client s = [(0, 9)]" "srv_conns s 9 \<noteq> None"
    using demo_accept by blast
  have f: "fresh_server 2 (sw_server (demo_world demo_server))" using demo_server_fresh by (simp add: demo_world_def)
  obtain c where "srv_conns s 9 = Some c" using s(5) by blast
  then show ?thesis using connections_stay_well_formed [OF f s(2), of 0 9 c] s by (auto simp: demo_world_def)
qed

end
