(* ===== verification/Server_Live.thy ===== *)
theory Server_Live
  imports Server_World
begin

text \<open>
  Requests are answered: a complete request that waits on a connection of an IO thread is read, executed and answered
  within three passes of the thread's loop, for as many connections as one \<open>epoll_wait\<close> can report.
\<close>

section \<open>Independent callbacks\<close>

text \<open>What a connection \<open>j\<close> sees of the thread's state.\<close>

definition agree :: "nat \<Rightarrow> io_node \<Rightarrow> io_node \<Rightarrow> bool" where
  "agree j nd nd' \<longleftrightarrow> nd_conns nd' j = nd_conns nd j \<and> nd_socks nd' j = nd_socks nd j \<and>
     ev_at (nd_loop nd') (Group_Event j) = ev_at (nd_loop nd) (Group_Event j) \<and>
     el_kernel (nd_loop nd') (int j) = el_kernel (nd_loop nd) (int j)"

definition same_loop :: "io_node \<Rightarrow> io_node \<Rightarrow> bool" where
  "same_loop nd nd' \<longleftrightarrow> el_thread_id (nd_loop nd') = el_thread_id (nd_loop nd) \<and>
     m_pending_tasks (nd_loop nd') = m_pending_tasks (nd_loop nd) \<and> el_timer (nd_loop nd') = el_timer (nd_loop nd) \<and>
     el_wakeup_fd (nd_loop nd') = el_wakeup_fd (nd_loop nd) \<and> m_stop_flag (nd_loop nd') = m_stop_flag (nd_loop nd)"

definition loop_ok :: "io_node \<Rightarrow> bool" where
  "loop_ok nd \<longleftrightarrow> events_typed (nd_loop nd) \<and> dom (el_kernel (nd_loop nd)) \<subseteq> m_listen_fds (nd_loop nd)"

lemma agree_trans: "agree j nd nd1 \<Longrightarrow> agree j nd1 nd2 \<Longrightarrow> agree j nd nd2"
  by (simp add: agree_def)

lemma same_loop_trans: "same_loop nd nd1 \<Longrightarrow> same_loop nd1 nd2 \<Longrightarrow> same_loop nd nd2"
  by (simp add: same_loop_def)

text \<open>
  A family of callbacks, one per connection, each of which takes its connection from \<open>pre\<close> to \<open>post\<close> and sends
  \<open>out\<close>.  Running one per connection takes all of them there.
\<close>

locale independent_callbacks =
  fixes env :: node_env
    and smap :: "('req, 'rsp) service_map"
    and callback :: "nat \<Rightarrow> task"
    and pre post :: "nat \<Rightarrow> io_node \<Rightarrow> bool"
    and out :: "nat \<Rightarrow> (nat \<times> byte list) list"
  assumes runs: "loop_ok nd \<Longrightarrow> pre i nd \<Longrightarrow> \<exists>nd'. node_task env smap (callback i) nd = Some (Returns nd') \<and> loop_ok nd' \<and> post i nd' \<and>
      (\<forall>j. j \<noteq> i \<longrightarrow> agree j nd nd') \<and> same_loop nd nd' \<and> nd_sent nd' = nd_sent nd @ out i"
    and pre_agree: "agree i nd nd' \<Longrightarrow> pre i nd \<Longrightarrow> pre i nd'"
    and post_agree: "agree i nd nd' \<Longrightarrow> post i nd \<Longrightarrow> post i nd'"
begin

lemma node_tasks_each:
  assumes "distinct is" "loop_ok nd" "\<forall>i \<in> set is. pre i nd"
  shows "\<exists>nd'. node_tasks env smap (map (\<lambda>i. Some (callback i)) is) nd = Some (Returns nd') \<and> loop_ok nd' \<and> (\<forall>i \<in> set is. post i nd') \<and>
    (\<forall>j. j \<notin> set is \<longrightarrow> agree j nd nd') \<and> same_loop nd nd' \<and> nd_sent nd' = nd_sent nd @ concat (map out is)"
  using assms
proof (induction "is" arbitrary: nd)
  case Nil
  then show ?case by (simp add: agree_def same_loop_def)
next
  case (Cons i "is")
  obtain nd1 where n1: "node_task env smap (callback i) nd = Some (Returns nd1)" "loop_ok nd1" "post i nd1" "\<And>j. j \<noteq> i \<Longrightarrow> agree j nd nd1"
      "same_loop nd nd1" "nd_sent nd1 = nd_sent nd @ out i"
    using runs [of nd i] Cons.prems by auto
  have "\<forall>j \<in> set is. pre j nd1" using Cons.prems n1(4) pre_agree by (metis distinct.simps(2) list.set_intros(2))
  with Cons.IH [of nd1] Cons.prems(1) n1(2) obtain nd2 where n2: "node_tasks env smap (map (\<lambda>i. Some (callback i)) is) nd1 = Some (Returns nd2)" "loop_ok nd2"
      "\<forall>i \<in> set is. post i nd2" "\<And>j. j \<notin> set is \<Longrightarrow> agree j nd1 nd2" "same_loop nd1 nd2"
      "nd_sent nd2 = nd_sent nd1 @ concat (map out is)"
    by auto
  have "post i nd2" using n2(4) post_agree n1(3) Cons.prems(1) by auto
  moreover have "agree j nd nd2" if "j \<notin> set (i # is)" for j using agree_trans [OF n1(4) n2(4)] that by simp
  ultimately show ?case using n1 n2 same_loop_trans [OF n1(5) n2(5)] by auto
qed

end

section \<open>The stages of a connection\<close>

text \<open>The event of connection \<open>i\<close> is registered with mask \<open>m\<close>: 1 for reading, 5 for reading and writing.\<close>

definition registered :: "int32 \<Rightarrow> nat \<Rightarrow> event_loop \<Rightarrow> bool" where
  "registered m i l \<longleftrightarrow> (\<exists>e. ev_at l (Group_Event i) = Some e \<and> fde_events e = m \<and> fde_data e = Some (Group_Event i) \<and>
     m_read_callback e = Some (On_Read i) \<and> (m = 5 \<longrightarrow> m_write_callback e = Some (On_Write i)) \<and>
     el_kernel l (int i) = Some (m, Some (Group_Event i)))"

abbreviation idle_sock :: sock_in where "idle_sock \<equiv> \<lparr>si_chunks = [], si_end = At_Again\<rparr>"

text \<open>A request has arrived that its service answers with \<open>data\<close>, and nothing else is under way.\<close>

definition asks :: "('req, 'rsp) service_map \<Rightarrow> tiny_pb \<Rightarrow> string \<Rightarrow> nat \<Rightarrow> io_node \<Rightarrow> bool" where
  "asks smap req data i nd \<longleftrightarrow> (\<exists>c. nd_conns nd i = Some c \<and> conn_ok i c \<and> conn_state c = Connected \<and>
       contents (m_in_buffer c) = [] \<and> contents (m_out_buffer c) = [] \<and> call_result smap req c = Some data \<and>
       frame_size req < length (m_buffer (m_in_buffer c)) - m_write_index (m_in_buffer c) \<and>
       buf_room (m_out_buffer c) (frame_size (response_of req data))) \<and>
     wire_ok req \<and> wire_ok (response_of req data) \<and> registered 1 i (nd_loop nd) \<and>
     nd_socks nd i = \<lparr>si_chunks = [frame_bytes req], si_end = At_Again\<rparr>"

text \<open>The response waits in the output buffer.\<close>

definition answers :: "byte list \<Rightarrow> nat \<Rightarrow> io_node \<Rightarrow> bool" where
  "answers bytes i nd \<longleftrightarrow> (\<exists>c. nd_conns nd i = Some c \<and> conn_ok i c \<and> conn_state c = Connected \<and> contents (m_out_buffer c) = bytes) \<and>
     registered 5 i (nd_loop nd) \<and> nd_socks nd i = idle_sock"

definition rests :: "nat \<Rightarrow> io_node \<Rightarrow> bool" where
  "rests i nd \<longleftrightarrow> registered 1 i (nd_loop nd) \<and> nd_socks nd i = idle_sock"

lemma stages_agree:
  assumes "agree i nd nd'"
  shows "asks smap req data i nd \<Longrightarrow> asks smap req data i nd'" "answers bytes i nd \<Longrightarrow> answers bytes i nd'" "rests i nd \<Longrightarrow> rests i nd'"
  using assms by (simp_all add: agree_def asks_def answers_def rests_def registered_def)

lemma call_agree:
  assumes "call_keeps i c (nd_loop nd) c' l'" "nd_loop nd' = l'" "nd_conns nd' = (nd_conns nd)(i \<mapsto> c')"
    "\<And>j. j \<noteq> i \<Longrightarrow> nd_socks nd' j = nd_socks nd j" "loop_ok nd"
  shows "loop_ok nd'" "j \<noteq> i \<Longrightarrow> agree j nd nd'" "same_loop nd nd'"
  using assms by (auto simp: call_keeps_def loop_keeps_def agree_def same_loop_def loop_ok_def)

text \<open>Changing the mask of a registered event takes effect in the kernel.\<close>

lemma reregister:
  assumes "loop_ok nd" "l = nd_loop nd" "ev_at l (Group_Event i) = Some e" "el_kernel l (int i) \<noteq> None"
  shows "\<exists>l1 l'. update_event i f l = Some l1 \<and> (fde_fd (f e) = int i \<longrightarrow>
    addEpollEvent fd_ok (el_thread_id l) (Group_Event i) l1 = Some l' \<and> ev_at l' (Group_Event i) = Some (f e) \<and>
    el_kernel l' (int i) = Some (fde_events (f e), fde_data (f e)))"
proof -
  obtain l1 where l1: "update_event i f l = Some l1" "ev_at l1 (Group_Event i) = Some (f e)" "el_kernel l1 = el_kernel l"
      "m_listen_fds l1 = m_listen_fds l" "el_thread_id l1 = el_thread_id l"
    using update_event_ok [OF assms(3)] by blast
  have "int i \<in> m_listen_fds l" using assms(1,2,4) by (auto simp: loop_ok_def)
  then have "\<exists>l'. addEpollEvent fd_ok (el_thread_id l1) (Group_Event i) l1 = Some l' \<and> ev_at l' (Group_Event i) = Some (f e) \<and>
      el_kernel l' (int i) = Some (fde_events (f e), fde_data (f e))" if "fde_fd (f e) = int i"
    using l1(2-4) assms(4) that
    by (auto simp: addEpollEvent_def isInLoopThread_def add_to_epoll_def getFd_def getEpollEvent_def epoll_ctl_def)
  then show ?thesis using l1(1,5) by auto
qed

lemma reply_registers:
  assumes "loop_ok nd" "registered m i (nd_loop nd)" "conn_ok i c" "wire_ok msg" "buf_room (m_out_buffer c) (frame_size msg)"
    and "m = 1 \<or> m = 5"
  shows "\<exists>ob l'. reply fd_ok (el_thread_id (nd_loop nd)) [msg] c (nd_loop nd) = Some (c\<lparr>m_out_buffer := ob\<rparr>, l') \<and>
    contents ob = contents (m_out_buffer c) @ frame_bytes msg \<and> registered 5 i l'"
proof -
  let ?l = "nd_loop nd" and ?f = "fd_listen (Group_Event i) OUT_EVENT (Some (On_Write i)) None :: fd_event \<Rightarrow> fd_event"
  have i: "conn_fd_event c = i" "buf_inv (m_out_buffer c)" using assms(3) by (auto simp: conn_ok_def)
  obtain ob where ob: "encode [msg] (m_out_buffer c) = Some ([sent msg], ob)" "contents ob = contents (m_out_buffer c) @ frame_bytes msg"
    using encode_one [OF assms(4) i(2), of 0] assms(5) by auto
  obtain e where e: "ev_at ?l (Group_Event i) = Some e" "fde_events e = m" "m_read_callback e = Some (On_Read i)" "el_kernel ?l (int i) \<noteq> None"
    using assms(2) by (auto simp: registered_def)
  have fd: "fde_fd (?f e) = int i" using events_typed_fd [OF _ e(1)] assms(1) by (simp add: loop_ok_def)
  obtain l1 l' where l': "update_event i ?f ?l = Some l1" "addEpollEvent fd_ok (el_thread_id ?l) (Group_Event i) l1 = Some l'"
      "ev_at l' (Group_Event i) = Some (?f e)" "el_kernel l' (int i) = Some (fde_events (?f e), fde_data (?f e))"
    using reregister [OF assms(1) refl e(1,4), of ?f fd_ok] fd by blast
  have "m OR EPOLLOUT = 5" using assms(6) by auto
  then have "registered 5 i l'" using l'(3,4) e(2,3) by (simp add: registered_def fd_listen_def Let_def)
  moreover have "reply fd_ok (el_thread_id ?l) [msg] c ?l = Some (c\<lparr>m_out_buffer := ob\<rparr>, l')"
    using ob(1) l'(1,2) i(1) by (simp add: reply_def listenWrite_def)
  ultimately show ?thesis using ob(2) by blast
qed

lemma ask_step:
  assumes "loop_ok nd" "asks smap req data i nd"
  shows "\<exists>nd'. node_task env smap (On_Read i) nd = Some (Returns nd') \<and> loop_ok nd' \<and>
    answers (frame_bytes (response_of req data)) i nd' \<and> (\<forall>j. j \<noteq> i \<longrightarrow> agree j nd nd') \<and> same_loop nd nd' \<and> nd_sent nd' = nd_sent nd @ []"
proof -
  let ?l = "nd_loop nd" and ?fd_ok = "ne_fd_ok env" and ?rsp = "response_of req data"
  let ?sock = "\<lparr>si_chunks = [frame_bytes req], si_end = At_Again\<rparr>"
  obtain c where c: "nd_conns nd i = Some c" "conn_ok i c" "conn_state c = Connected" "contents (m_in_buffer c) = []"
      "contents (m_out_buffer c) = []" "call_result smap req c = Some data"
      "frame_size req < length (m_buffer (m_in_buffer c)) - m_write_index (m_in_buffer c)" "buf_room (m_out_buffer c) (frame_size ?rsp)"
    and r: "wire_ok req" "wire_ok ?rsp" "registered 1 i ?l" "nd_socks nd i = ?sock"
    using assms(2) by (auto simp: asks_def)
  obtain ib ib' where ib: "onRead_loop (m_in_buffer c) ?sock = Some (Returns (False, ib, idle_sock))" "buf_inv ib'"
      "onRead ?fd_ok (el_thread_id ?l) smap (nd_rt nd) ?sock c ?l =
        (case excute_all ?fd_ok (el_thread_id ?l) smap [received req] (nd_rt nd) (c\<lparr>m_in_buffer := ib'\<rparr>) ?l of
           None \<Rightarrow> Some Undefined | Some (c, l, rt) \<Rightarrow> Some (Returns (c, l, rt, [])))"
    using onRead_requests [of c "[req]" ?fd_ok "el_thread_id ?l" smap "nd_rt nd" ?l] c r(1) by (auto simp: conn_ok_def)
  let ?c = "c\<lparr>m_in_buffer := ib'\<rparr>"
  have cr: "call_result smap (received req) ?c = Some data" using c(6) by simp
  obtain rt' where d: "rpc_dispatch ?fd_ok (el_thread_id ?l) smap (received req) TinyPBProtocol_new (nd_rt nd) ?c ?l = do {
      (c', l') \<leftarrow> reply ?fd_ok (el_thread_id ?l) [?rsp] ?c ?l; Some (?rsp, c', l', rt') }"
    using rpc_dispatch_ok [OF cr, of ?fd_ok "el_thread_id ?l" "nd_rt nd" ?l] by (auto simp del: call_result_conn)
  have ok: "conn_ok i ?c" using c(2) ib(2) by (simp add: conn_ok_def)
  obtain ob l' where rep: "reply ?fd_ok (el_thread_id ?l) [?rsp] ?c ?l = Some (?c\<lparr>m_out_buffer := ob\<rparr>, l')"
      "contents ob = frame_bytes ?rsp" "registered 5 i l'"
    using reply_registers [OF assms(1) r(3) ok r(2), of ?fd_ok] c(5,8) by auto
  let ?c' = "?c\<lparr>m_out_buffer := ob\<rparr>"
  have rd: "onRead ?fd_ok (el_thread_id ?l) smap (nd_rt nd) ?sock c ?l = Some (Returns (?c', l', rt', []))"
    using ib(3) d rep(1) by simp
  have k: "call_keeps i c ?l ?c' l'" using onRead_keeps [OF _ c(2) _ rd] assms(1) by (simp add: loop_ok_def)
  define nd' where "nd' = nd\<lparr>nd_loop := l', nd_conns := (nd_conns nd)(i \<mapsto> ?c'), nd_rt := rt', nd_socks := (nd_socks nd)(i := idle_sock)\<rparr>"
  have "sock_rest c ?sock = idle_sock" using ib(1) c(3) by (simp add: sock_rest_def)
  then have "node_task env smap (On_Read i) nd = Some (Returns nd')" using c(1) r(4) rd by (simp add: node_task_def nd'_def)
  moreover have "loop_ok nd'" "\<forall>j. j \<noteq> i \<longrightarrow> agree j nd nd'" "same_loop nd nd'"
    using call_agree [OF k, of nd'] assms(1) by (auto simp: nd'_def)
  moreover have "answers (frame_bytes ?rsp) i nd'"
    using rep(2,3) k c(3) by (simp add: answers_def nd'_def call_keeps_def)
  ultimately show ?thesis by (auto simp: nd'_def)
qed

text \<open>The socket takes all of \<open>bytes\<close> in one write.\<close>

definition takes_all :: "node_env \<Rightarrow> nat \<Rightarrow> byte list \<Rightarrow> bool" where
  "takes_all env i bytes = (case ne_writes env i of Wrote n # _ \<Rightarrow> length bytes \<le> n | _ \<Rightarrow> False)"

lemma answer_step:
  assumes "loop_ok nd" "answers bytes i nd" "bytes \<noteq> []" "takes_all env i bytes"
  shows "\<exists>nd'. node_task env smap (On_Write i) nd = Some (Returns nd') \<and> loop_ok nd' \<and> rests i nd' \<and>
    (\<forall>j. j \<noteq> i \<longrightarrow> agree j nd nd') \<and> same_loop nd nd' \<and> nd_sent nd' = nd_sent nd @ [(i, bytes)]"
proof -
  let ?l = "nd_loop nd" and ?fd_ok = "ne_fd_ok env" and ?f = "cancle OUT_EVENT :: fd_event \<Rightarrow> fd_event"
  obtain c where c: "nd_conns nd i = Some c" "conn_ok i c" "conn_state c = Connected" "contents (m_out_buffer c) = bytes"
    and r: "registered 5 i ?l" "nd_socks nd i = idle_sock"
    using assms(2) by (auto simp: answers_def)
  obtain n ws where w: "ne_writes env i = Wrote n # ws" "length bytes \<le> n"
    using assms(4) by (auto simp: takes_all_def split: list.splits sock_write.splits)
  have i: "conn_fd_event c = i" "conn_type c = TcpConnectionByServer" "buf_inv (m_out_buffer c)" using c(2) by (auto simp: conn_ok_def)
  have wl: "onWrite_loop (m_out_buffer c) (ne_writes env i) = Some (True, bytes)"
    using onWrite_loop_all [OF i(3)] c(4) assms(3) w by simp
  obtain e where e: "ev_at ?l (Group_Event i) = Some e" "fde_events e = 5" "m_read_callback e = Some (On_Read i)"
      "fde_data e = Some (Group_Event i)" "el_kernel ?l (int i) \<noteq> None"
    using r(1) by (auto simp: registered_def)
  have fd: "fde_fd (?f e) = int i" using events_typed_fd [OF _ e(1)] assms(1) by (simp add: loop_ok_def)
  obtain l1 l' where l': "update_event i ?f ?l = Some l1" "addEpollEvent ?fd_ok (el_thread_id ?l) (Group_Event i) l1 = Some l'"
      "ev_at l' (Group_Event i) = Some (?f e)" "el_kernel l' (int i) = Some (fde_events (?f e), fde_data (?f e))"
    using reregister [OF assms(1) refl e(1,5), of ?f ?fd_ok] fd by blast
  have "fde_events (?f e) = 1" using e(2) by (simp add: cancle_def)
  then have reg: "registered 1 i l'" using l'(3,4) e(3,4) by (simp add: registered_def cancle_def)
  have wr: "onWrite ?fd_ok (el_thread_id ?l) (ne_writes env i) c ?l = Some (c, l', bytes, [])"
    using wl l'(1,2) i(1,2) c(3) by (simp add: onWrite_def)
  have k: "call_keeps i c ?l c l'" using onWrite_keeps [OF _ c(2) wr] assms(1) by (simp add: loop_ok_def)
  define nd' where "nd' = nd\<lparr>nd_loop := l', nd_conns := (nd_conns nd)(i \<mapsto> c), nd_sent := nd_sent nd @ [(i, bytes)]\<rparr>"
  have "node_task env smap (On_Write i) nd = Some (Returns nd')"
    using c(1) wr assms(3) by (simp add: node_task_def nd'_def lift_outcome_def)
  moreover have "loop_ok nd'" "\<forall>j. j \<noteq> i \<longrightarrow> agree j nd nd'" "same_loop nd nd'"
    using call_agree [OF k, of nd'] assms(1) by (auto simp: nd'_def)
  ultimately show ?thesis using reg r(2) by (auto simp: nd'_def rests_def)
qed

interpretation reads: independent_callbacks env smap On_Read "\<lambda>i. asks smap (req i) (data i) i"
    "\<lambda>i. answers (frame_bytes (response_of (req i) (data i))) i" "\<lambda>_. []" for env smap req data
  by unfold_locales (use ask_step stages_agree in blast)+

interpretation writes: independent_callbacks env smap On_Write "\<lambda>i nd. answers (bytes i) i nd \<and> bytes i \<noteq> [] \<and> takes_all env i (bytes i)"
    rests "\<lambda>i. [(i, bytes i)]" for env smap bytes
proof unfold_locales
  fix nd i
  assume "loop_ok nd" "answers (bytes i) i nd \<and> bytes i \<noteq> [] \<and> takes_all env i (bytes i)"
  then show "\<exists>nd'. node_task env smap (On_Write i) nd = Some (Returns nd') \<and> loop_ok nd' \<and> rests i nd' \<and>
      (\<forall>j. j \<noteq> i \<longrightarrow> agree j nd nd') \<and> same_loop nd nd' \<and> nd_sent nd' = nd_sent nd @ [(i, bytes i)]"
    by (elim conjE) (rule answer_step)
qed (simp_all add: stages_agree)

section \<open>What epoll reports\<close>

definition watched :: "node_env \<Rightarrow> nat list \<Rightarrow> io_node \<Rightarrow> bool" where
  "watched env is nd \<longleftrightarrow> ne_order env = map int is \<and> distinct is \<and> length is \<le> g_epoll_max_events \<and>
     (\<forall>i \<in> set is. int i \<noteq> el_wakeup_fd (nd_loop nd) \<and> int i \<noteq> fde_fd (el_timer (nd_loop nd)) \<and>
        ne_writable env (int i) \<and> \<not> ne_error env (int i))"

lemma fd_report_stage:
  assumes "watched env is nd" "i \<in> set is"
  shows "asks smap req data i nd \<Longrightarrow> fd_report env nd (int i) = [(1, Some (Group_Event i))]"
    "answers bytes i nd \<Longrightarrow> fd_report env nd (int i) = [(4, Some (Group_Event i))]"
    "rests i nd \<Longrightarrow> fd_report env nd (int i) = []"
  using assms
  by (auto simp: watched_def asks_def answers_def rests_def registered_def fd_report_def fd_readable_def sock_readable_def)

lemma epoll_wait_stage:
  assumes "watched env is nd" "\<And>i. i \<in> set is \<Longrightarrow> fd_report env nd (int i) = f i" "\<And>i. length (f i) \<le> 1"
  shows "epoll_wait env nd = concat (map f is)"
proof -
  have "length (concat (map f is)) \<le> length is" using assms(3)
    by (induction "is") (auto simp: add.commute intro: add_mono order_trans [OF add_mono])
  then have len: "length (concat (map f is)) \<le> g_epoll_max_events" using assms(1) by (simp add: watched_def)
  have m: "map (fd_report env nd) (map int is) = map f is" using assms(2) by simp
  have o: "ne_order env = map int is" using assms(1) by (simp add: watched_def)
  show ?thesis unfolding epoll_wait_def o m using len by simp
qed

lemma dispatch_all_callbacks:
  assumes "\<And>i. i \<in> set is \<Longrightarrow> \<exists>e. ev_at l (Group_Event i) = Some e \<and>
      (m = 1 \<and> m_read_callback e = Some (t i) \<or> m = 4 \<and> m_write_callback e = Some (t i))"
  shows "dispatch_all env tid (map (\<lambda>i. (m, Some (Group_Event i))) is) l =
    Some (l\<lparr>m_pending_tasks := m_pending_tasks l @ map (\<lambda>i. Some (t i)) is\<rparr>)"
  using assms
proof (induction "is" arbitrary: l)
  case (Cons i "is")
  obtain e where e: "ev_at l (Group_Event i) = Some e"
      "m = 1 \<and> m_read_callback e = Some (t i) \<or> m = 4 \<and> m_write_callback e = Some (t i)"
    using Cons.prems [of i] by auto
  have "dispatch env tid (m, Some (Group_Event i)) l = Some (l\<lparr>m_pending_tasks := m_pending_tasks l @ [Some (t i)]\<rparr>)"
    using e by (auto simp: dispatch_def handler_def addTask_def Let_def)
  moreover have "dispatch_all env tid (map (\<lambda>i. (m, Some (Group_Event i))) is) (l\<lparr>m_pending_tasks := m_pending_tasks l @ [Some (t i)]\<rparr>) =
      Some (l\<lparr>m_pending_tasks := (m_pending_tasks l @ [Some (t i)]) @ map (\<lambda>i. Some (t i)) is\<rparr>)"
    using Cons.IH [of "l\<lparr>m_pending_tasks := m_pending_tasks l @ [Some (t i)]\<rparr>"] Cons.prems by simp
  ultimately show ?case by simp
qed simp

section \<open>Three passes\<close>

abbreviation with_tasks :: "task option list \<Rightarrow> io_node \<Rightarrow> io_node" where
  "with_tasks ts nd \<equiv> nd\<lparr>nd_loop := (nd_loop nd)\<lparr>m_pending_tasks := ts\<rparr>\<rparr>"

lemma with_tasks_agree [simp]: "agree i nd (with_tasks ts nd)" "loop_ok (with_tasks ts nd) \<longleftrightarrow> loop_ok nd"
  "watched env is (with_tasks ts nd) \<longleftrightarrow> watched env is nd"
  by (simp_all add: agree_def loop_ok_def events_typed_def watched_def)

lemma watched_same_loop: "same_loop nd nd' \<Longrightarrow> watched env is nd \<Longrightarrow> watched env is nd'"
  by (simp add: watched_def same_loop_def)

lemma node_round_callbacks:
  assumes "node_tasks env smap (m_pending_tasks (nd_loop nd)) (with_tasks [] nd) = Some (Returns nd1)" "same_loop (with_tasks [] nd) nd1"
    and "epoll_wait env nd1 = map (\<lambda>i. (m, Some (Group_Event i))) is"
    and "\<And>i. i \<in> set is \<Longrightarrow> \<exists>e. ev_at (nd_loop nd1) (Group_Event i) = Some e \<and>
      (m = 1 \<and> m_read_callback e = Some (t i) \<or> m = 4 \<and> m_write_callback e = Some (t i))"
  shows "node_round env smap nd = Some (Returns (with_tasks (map (\<lambda>i. Some (t i)) is) nd1))"
proof -
  have "m_pending_tasks (nd_loop nd1) = []" using assms(2) by (simp add: same_loop_def)
  moreover have "dispatch_all (loop_env_of env) (el_thread_id (nd_loop nd1)) (epoll_wait env nd1) (nd_loop nd1) =
      Some ((nd_loop nd1)\<lparr>m_pending_tasks := m_pending_tasks (nd_loop nd1) @ map (\<lambda>i. Some (t i)) is\<rparr>)"
    unfolding assms(3) by (rule dispatch_all_callbacks) (rule assms(4))
  ultimately show ?thesis using assms(1) by (simp add: node_round_def lift_outcome_def)
qed

text \<open>The three passes: the requests are reported; they are read and executed; the responses are written.\<close>

lemma pass_reports:
  assumes "watched env is nd" "m_pending_tasks (nd_loop nd) = []" "\<forall>i \<in> set is. asks smap (req i) (data i) i nd"
  shows "node_round env smap nd = Some (Returns (with_tasks (map (\<lambda>i. Some (On_Read i)) is) (with_tasks [] nd)))"
proof (rule node_round_callbacks)
  let ?nd = "with_tasks [] nd"
  have a: "asks smap (req i) (data i) i ?nd" if "i \<in> set is" for i using that assms(3) by (blast intro: stages_agree with_tasks_agree)
  have w: "watched env is ?nd" using assms(1) by simp
  have "epoll_wait env ?nd = concat (map (\<lambda>i. [(1, Some (Group_Event i))]) is)"
    by (rule epoll_wait_stage [OF w]) (rule fd_report_stage(1) [OF w _ a], simp_all)
  then show "epoll_wait env ?nd = map (\<lambda>i. (1, Some (Group_Event i))) is" by simp
  show "\<exists>e. ev_at (nd_loop ?nd) (Group_Event i) = Some e \<and>
      ((1 :: int32) = 1 \<and> m_read_callback e = Some (On_Read i) \<or> (1 :: int32) = 4 \<and> m_write_callback e = Some (On_Read i))" if "i \<in> set is" for i
    using a [OF that] by (auto simp: asks_def registered_def)
qed (simp_all add: assms(2) same_loop_def)

lemma pass_executes:
  assumes "watched env is nd" "loop_ok nd" "m_pending_tasks (nd_loop nd) = map (\<lambda>i. Some (On_Read i)) is"
    and "\<forall>i \<in> set is. asks smap (req i) (data i) i nd"
  shows "\<exists>nd'. node_round env smap nd = Some (Returns (with_tasks (map (\<lambda>i. Some (On_Write i)) is) nd')) \<and> loop_ok nd' \<and>
    (\<forall>i \<in> set is. answers (frame_bytes (response_of (req i) (data i))) i nd') \<and> same_loop (with_tasks [] nd) nd' \<and> nd_sent nd' = nd_sent nd"
proof -
  let ?nd = "with_tasks [] nd"
  have a: "\<forall>i \<in> set is. asks smap (req i) (data i) i ?nd" using assms(4) by (blast intro: stages_agree with_tasks_agree)
  obtain nd1 where n: "node_tasks env smap (map (\<lambda>i. Some (On_Read i)) is) ?nd = Some (Returns nd1)" "loop_ok nd1"
      "\<forall>i \<in> set is. answers (frame_bytes (response_of (req i) (data i))) i nd1" "same_loop ?nd nd1" "nd_sent nd1 = nd_sent nd"
    using reads.node_tasks_each [of "is" ?nd smap req data env] assms(1,2) a by (auto simp: watched_def)
  have w: "watched env is nd1" using watched_same_loop [OF n(4)] assms(1) by simp
  have "epoll_wait env nd1 = concat (map (\<lambda>i. [(4, Some (Group_Event i))]) is)"
    by (rule epoll_wait_stage [OF w]) (rule fd_report_stage(2) [OF w _ bspec [OF n(3)]], simp_all)
  then have "epoll_wait env nd1 = map (\<lambda>i. (4, Some (Group_Event i))) is" by simp
  from node_round_callbacks [OF _ n(4) this, of smap On_Write] n(1,3) assms(3)
  have "node_round env smap nd = Some (Returns (with_tasks (map (\<lambda>i. Some (On_Write i)) is) nd1))"
    by (fastforce simp: answers_def registered_def)
  then show ?thesis using n by blast
qed

lemma pass_sends:
  assumes "watched env is nd" "loop_ok nd" "m_pending_tasks (nd_loop nd) = map (\<lambda>i. Some (On_Write i)) is"
    and "\<forall>i \<in> set is. answers (bytes i) i nd \<and> bytes i \<noteq> [] \<and> takes_all env i (bytes i)"
  shows "\<exists>nd'. node_round env smap nd = Some (Returns nd') \<and> (\<forall>i \<in> set is. rests i nd') \<and>
    m_pending_tasks (nd_loop nd') = [] \<and> nd_sent nd' = nd_sent nd @ map (\<lambda>i. (i, bytes i)) is"
proof -
  let ?nd = "with_tasks [] nd"
  have a: "\<forall>i \<in> set is. answers (bytes i) i ?nd \<and> bytes i \<noteq> [] \<and> takes_all env i (bytes i)"
    using assms(4) by (blast intro: stages_agree with_tasks_agree)
  obtain nd1 where n: "node_tasks env smap (map (\<lambda>i. Some (On_Write i)) is) ?nd = Some (Returns nd1)"
      "\<forall>i \<in> set is. rests i nd1" "same_loop ?nd nd1" "nd_sent nd1 = nd_sent nd @ concat (map (\<lambda>i. [(i, bytes i)]) is)"
    using writes.node_tasks_each [of "is" ?nd bytes env smap] assms(1,2) a by (auto simp: watched_def)
  have w: "watched env is nd1" using watched_same_loop [OF n(3)] assms(1) by simp
  have "epoll_wait env nd1 = concat (map (\<lambda>i. []) is)"
    by (rule epoll_wait_stage [OF w]) (rule fd_report_stage(3) [OF w _ bspec [OF n(2)]], simp_all)
  then have "epoll_wait env nd1 = map (\<lambda>i. (1, Some (Group_Event i))) []" by simp
  from node_round_callbacks [OF _ n(3) this, of smap On_Write] n(1) assms(3)
  have "node_round env smap nd = Some (Returns (with_tasks [] nd1))" by simp
  moreover have "rests i (with_tasks [] nd1)" if "i \<in> set is" for i using that n(2) by (blast intro: stages_agree with_tasks_agree)
  ultimately show ?thesis using n(4) by simp
qed

lemma three_passes_answer:
  assumes "watched env is nd" "loop_ok nd" "m_pending_tasks (nd_loop nd) = []" "\<not> m_stop_flag (nd_loop nd)"
    and "\<forall>i \<in> set is. asks smap (req i) (data i) i nd \<and> takes_all env i (frame_bytes (response_of (req i) (data i)))"
  shows "\<exists>nd'. node_rounds [env, env, env] smap nd = Some (Returns nd') \<and>
    nd_sent nd' = nd_sent nd @ map (\<lambda>i. (i, frame_bytes (response_of (req i) (data i)))) is \<and>
    m_pending_tasks (nd_loop nd') = [] \<and> (\<forall>i \<in> set is. rests i nd')"
proof -
  let ?bytes = "\<lambda>i. frame_bytes (response_of (req i) (data i))"
  define nd1 where "nd1 = with_tasks (map (\<lambda>i. Some (On_Read i)) is) (with_tasks [] nd)"
  have a: "\<forall>i \<in> set is. asks smap (req i) (data i) i nd" using assms(5) by blast
  have p1: "node_round env smap nd = Some (Returns nd1)" unfolding nd1_def by (rule pass_reports [OF assms(1,3) a])
  have n1: "watched env is nd1" "loop_ok nd1" "m_pending_tasks (nd_loop nd1) = map (\<lambda>i. Some (On_Read i)) is"
      "\<forall>i \<in> set is. asks smap (req i) (data i) i nd1" "nd_sent nd1 = nd_sent nd" "\<not> m_stop_flag (nd_loop nd1)"
    unfolding nd1_def using assms(1,2,4) a by (auto intro: stages_agree with_tasks_agree)
  obtain nd2 where p2: "node_round env smap nd1 = Some (Returns (with_tasks (map (\<lambda>i. Some (On_Write i)) is) nd2))" "loop_ok nd2"
      "\<forall>i \<in> set is. answers (?bytes i) i nd2" "same_loop (with_tasks [] nd1) nd2" "nd_sent nd2 = nd_sent nd1"
    using pass_executes [OF n1(1-4)] by blast
  let ?nd2 = "with_tasks (map (\<lambda>i. Some (On_Write i)) is) nd2"
  have n2: "watched env is ?nd2" "\<not> m_stop_flag (nd_loop ?nd2)"
    using watched_same_loop [OF p2(4)] n1(1,6) p2(4) by (simp_all add: same_loop_def)
  have a2: "\<forall>i \<in> set is. answers (?bytes i) i ?nd2 \<and> ?bytes i \<noteq> [] \<and> takes_all env i (?bytes i)"
    using p2(3) assms(5) by (auto intro: stages_agree with_tasks_agree)
  obtain nd3 where p3: "node_round env smap ?nd2 = Some (Returns nd3)" "\<forall>i \<in> set is. rests i nd3" "m_pending_tasks (nd_loop nd3) = []"
      "nd_sent nd3 = nd_sent nd2 @ map (\<lambda>i. (i, ?bytes i)) is"
    using pass_sends [OF n2(1) _ _ a2, of smap] p2(2) by auto
  then show ?thesis using p1 p2 n1(5,6) n2(2) assms(4) by simp
qed

section \<open>Properties\<close>

text \<open>
  C3. Every request is answered: when up to ten connections of an IO thread each have one complete request waiting that
  its service answers, three passes of the loop send each of them its own response frame, once and in the order in
  which \<open>epoll_wait\<close> reports the connections; afterwards nothing is pending and all of them wait for input again.
\<close>

theorem waiting_requests_are_answered:
  assumes "watched env is nd" "loop_ok nd" "m_pending_tasks (nd_loop nd) = []" "\<not> m_stop_flag (nd_loop nd)"
    and "\<forall>i \<in> set is. asks smap (req i) (data i) i nd \<and> takes_all env i (frame_bytes (response_of (req i) (data i)))"
  shows "\<exists>nd'. node_rounds [env, env, env] smap nd = Some (Returns nd') \<and>
    nd_sent nd' = nd_sent nd @ map (\<lambda>i. (i, frame_bytes (response_of (req i) (data i)))) is \<and>
    m_pending_tasks (nd_loop nd') = [] \<and> (\<forall>i \<in> set is. rests i nd')"
  by (rule three_passes_answer) (fact assms)+

definition listening :: "nat \<Rightarrow> fd_event" where
  "listening i = fd_listen (Group_Event i) IN_EVENT (Some (On_Read i)) None (Fd_Event_new (int i))"

text \<open>Two connections with the descriptors 9 and 10, a request on each.\<close>

definition demo_served_loop :: event_loop where
  "demo_served_loop = demo_loop\<lparr>el_group := \<lparr>feg_size = 128, m_fd_group = (m_fd_group (FdEventGroup_new 128))[9 := Some (listening 9), 10 := Some (listening 10)]\<rparr>,
     m_listen_fds := {4, 5, 9, 10}, el_kernel := (el_kernel demo_loop)(9 \<mapsto> (1, Some (Group_Event 9)), 10 \<mapsto> (1, Some (Group_Event 10)))\<rparr>"

definition demo_node :: io_node where
  "demo_node = \<lparr>nd_loop = demo_served_loop,
     nd_conns = [9 \<mapsto> demo_conn_1k, 10 \<mapsto> demo_conn_1k\<lparr>conn_fd_event := 10\<rparr>], nd_rt = RunTime_new,
     nd_socks = (\<lambda>_. \<lparr>si_chunks = [frame_bytes demo_msg], si_end = At_Again\<rparr>), nd_sent = []\<rparr>"

lemma demo_served_loop_at:
  "ev_at demo_served_loop (Group_Event i) = (if i = 9 \<or> i = 10 then Some (listening i) else ev_at demo_loop (Group_Event i))"
  by (auto simp: demo_served_loop_def ev_at_def demo_loop_eval FdEventGroup_new_def)

lemma demo_loop_fds: "el_wakeup_fd demo_loop = 4" "fde_fd (el_timer demo_loop) = 5"
  by (simp_all add: demo_loop_def Eventloop_new_def demo_sys_loop_def initWakeUpFdEevent_def initTimer_def
      addEpollEvent_def isInLoopThread_def add_to_epoll_def ev_at_def epoll_ctl_def getFd_def getEpollEvent_def
      fd_listen_def Fd_Event_new_def Timer_new_def fd_event.defs Let_def)

lemma demo_loop_typed: "events_typed demo_loop"
  using Eventloop_new_inv [OF demo_loop_new] by (simp add: loop_inv_def base_inv_def)

lemma demo_served_loop_typed: "events_typed demo_served_loop"
proof -
  have l: "ev_typed (Group_Event i) (listening i)" for i
    by (simp add: listening_def ev_typed_def fd_listen_def Fd_Event_new_def Let_def)
  have "ev_typed p e" if "ev_at demo_served_loop p = Some e" for p e
  proof (cases p)
    case (Group_Event i)
    then show ?thesis using that l events_typed_at [OF demo_loop_typed] by (auto simp: demo_served_loop_at split: if_splits)
  qed (use that events_typed_at [OF demo_loop_typed, of p e] in \<open>simp_all add: demo_served_loop_def ev_at_def\<close>)
  then show ?thesis by (simp add: events_typed_def)
qed

lemma demo_node_ok: "loop_ok demo_node"
  using demo_served_loop_typed demo_loop_eval(3) by (auto simp: loop_ok_def demo_node_def) (auto simp: demo_served_loop_def)

lemma demo_asks:
  assumes "i = 9 \<or> i = 10"
  shows "asks [(''Order'', demo_service)] demo_msg (m_pb_data demo_msg) i demo_node"
proof -
  have r: "registered 1 i demo_served_loop"
    using assms by (auto simp: registered_def demo_served_loop_at) (auto simp: demo_served_loop_def listening_def fd_listen_def Fd_Event_new_def Let_def)
  have c: "call_result [(''Order'', demo_service)] demo_msg (demo_conn_1k\<lparr>conn_fd_event := i\<rparr>) = Some (m_pb_data demo_msg)"
    by (simp add: call_result_def demo_msg_def TinyPBProtocol_new_def parseServiceFullName_def find_first_of_def substr_def demo_service_def)
  have b: "conn_ok i (demo_conn_1k\<lparr>conn_fd_event := i\<rparr>)"
    by (simp add: conn_ok_def demo_conn_1k_def demo_conn_def demo_buffer_def buf_inv_def)
  have e: "demo_conn_1k = demo_conn_1k\<lparr>conn_fd_event := 9\<rparr>" by (simp add: demo_conn_1k_def demo_conn_def)
  have n: "nd_conns demo_node i = Some (demo_conn_1k\<lparr>conn_fd_event := i\<rparr>)" using assms e by (auto simp: demo_node_def)
  show ?thesis unfolding asks_def n using r c b demo_msg_wire_ok demo_response_ok
    by (simp add: demo_node_def frame_size_demo_msg) (simp add: demo_conn_1k_def demo_conn_def demo_buffer_def contents_def buf_room_def)
qed

theorem waiting_requests_are_answered_witness:
  "\<exists>nd'. node_rounds [demo_node_env, demo_node_env, demo_node_env] [(''Order'', demo_service)] demo_node = Some (Returns nd') \<and>
    nd_sent nd' = [(10, frame_bytes (response_of demo_msg (m_pb_data demo_msg))), (9, frame_bytes (response_of demo_msg (m_pb_data demo_msg)))]"
proof -
  have w: "watched demo_node_env [10, 9] demo_node"
    by (simp add: watched_def demo_node_env_def demo_node_def demo_served_loop_def demo_loop_fds)
  have p: "m_pending_tasks (nd_loop demo_node) = []" "\<not> m_stop_flag (nd_loop demo_node)"
    by (simp_all add: demo_node_def demo_served_loop_def demo_loop_eval)
  have "\<forall>i \<in> set [10, 9]. asks [(''Order'', demo_service)] ((\<lambda>_. demo_msg) i) ((\<lambda>_. m_pb_data demo_msg) i) i demo_node \<and>
      takes_all demo_node_env i (frame_bytes (response_of ((\<lambda>_. demo_msg) i) ((\<lambda>_. m_pb_data demo_msg) i)))"
    using demo_asks demo_response_ok(2) by (simp add: takes_all_def demo_node_env_def)
  from waiting_requests_are_answered [OF w demo_node_ok p this] show ?thesis by (auto simp: demo_node_def)
qed

text \<open>
  C35. Within a pass the clean-up is not safe.  When a peer closes its connection while a response waits, one
  \<open>epoll_wait\<close> queues both the read and the write callback.  The read callback closes the connection, after which the write
  callback does nothing; but if the main thread runs the clean-up between the two, the write callback is
  called on a destroyed connection.
\<close>

theorem cleanup_between_callbacks_dangles:
  assumes "loop_ok nd" "nd_conns nd i = Some c" "conn_ok i c" "conn_state c = Connected" "registered 5 i (nd_loop nd)"
    and "nd_socks nd i = \<lparr>si_chunks = [], si_end = At_Eof\<rparr>" "watched env [i] nd" "m_write_index (m_in_buffer c) < length (m_buffer (m_in_buffer c))"
    and "m_pending_tasks (nd_loop nd) = []"
  shows "\<exists>nd1. node_round env smap nd = Some (Returns (with_tasks [Some (On_Read i), Some (On_Write i)] nd)) \<and>
    node_task env smap (On_Read i) (with_tasks [] nd) = Some (Returns nd1) \<and> node_task env smap (On_Write i) nd1 = Some (Returns nd1) \<and>
    (\<forall>s k. srv_conns s = nd_conns nd1 \<longrightarrow> (k, i) \<in> set (m_client s) \<longrightarrow>
       node_task env smap (On_Write i) (nd1\<lparr>nd_conns := srv_conns (ClearClientTimerFunc s)\<rparr>) = Some Undefined)"
proof -
  let ?nd = "with_tasks [] nd" and ?sock = "\<lparr>si_chunks = [], si_end = At_Eof\<rparr>"
  let ?l = "nd_loop ?nd"
  obtain e where e: "ev_at ?l (Group_Event i) = Some e" "m_read_callback e = Some (On_Read i)" "m_write_callback e = Some (On_Write i)"
    using assms(5) by (auto simp: registered_def)
  have "epoll_wait env ?nd = [(5, Some (Group_Event i))]"
    using assms(5-7) by (auto simp: epoll_wait_def watched_def fd_report_def registered_def fd_readable_def sock_readable_def)
  then have round: "node_round env smap nd = Some (Returns (with_tasks [Some (On_Read i), Some (On_Write i)] nd))"
    using e assms(9) by (simp add: node_round_def dispatch_def handler_def addTask_def lift_outcome_def Let_def)
  have i: "conn_fd_event c = i" using assms(3) by (simp add: conn_ok_def)
  have rl: "onRead_loop (m_in_buffer c) ?sock = Some (Returns (True, m_in_buffer c, ?sock))"
    using assms(8) by (simp add: onRead_loop.simps onRead_step_def Let_def writeAble_def)
  obtain l1 where l1: "update_event i (cancle IN_EVENT) ?l = Some l1" "ev_at l1 (Group_Event i) = Some (cancle IN_EVENT e)"
      "el_thread_id l1 = el_thread_id ?l" using update_event_ok [OF e(1)] by blast
  obtain l2 where l2: "update_event i (cancle OUT_EVENT) l1 = Some l2" "ev_at l2 (Group_Event i) = Some (cancle OUT_EVENT (cancle IN_EVENT e))"
      "el_thread_id l2 = el_thread_id l1" using update_event_ok [OF l1(2)] by blast
  note l = l1(1) l2(1)
  have "\<exists>l3. deleteEpollEvent (ne_fd_ok env) (el_thread_id ?l) (Group_Event i) l2 = Some l3"
    using l1(3) l2(2,3) by (simp add: deleteEpollEvent_def delete_from_epoll_def isInLoopThread_def case_prod_beta)
  then obtain l3 where "deleteEpollEvent (ne_fd_ok env) (el_thread_id ?l) (Group_Event i) l2 = Some l3" by blast
  then have "clear (ne_fd_ok env) (el_thread_id ?l) c ?l = Some (c\<lparr>conn_state := Closed\<rparr>, l3)"
    using l i assms(4) by (simp add: clear_def)
  then have rd: "onRead (ne_fd_ok env) (el_thread_id ?l) smap (nd_rt nd) ?sock c ?l = Some (Returns (c\<lparr>conn_state := Closed\<rparr>, l3, nd_rt nd, []))"
    using rl assms(4) by (simp add: onRead_def)
  define nd1 where "nd1 = nd\<lparr>nd_loop := l3, nd_conns := (nd_conns nd)(i \<mapsto> c\<lparr>conn_state := Closed\<rparr>)\<rparr>"
  have "node_task env smap (On_Read i) ?nd = Some (Returns nd1)"
    using rd rl assms(2,4,6) by (simp add: node_task_def nd1_def sock_rest_def fun_upd_idem)
  moreover have "node_task env smap (On_Write i) nd1 = Some (Returns nd1)"
    by (simp add: node_task_def nd1_def onWrite_def lift_outcome_def)
  moreover have "srv_conns (ClearClientTimerFunc s) i = None" if "srv_conns s = nd_conns nd1" "(k, i) \<in> set (m_client s)" for s k
    using that by (force simp: ClearClientTimerFunc_def client_closed_def getState_def nd1_def restrict_map_def)
  ultimately show ?thesis using round by (auto simp: node_task_def)
qed

text \<open>The connection with descriptor 9 after its response was prepared, when the peer has closed.\<close>

definition demo_closing_node :: io_node where
  "demo_closing_node = demo_node\<lparr>
     nd_loop := snd (the (reply (\<lambda>_. True) 1 [response_of demo_msg (m_pb_data demo_msg)] demo_conn_1k demo_served_loop)),
     nd_socks := (\<lambda>_. \<lparr>si_chunks = [], si_end = At_Eof\<rparr>)\<rparr>"

lemma demo_conn_1k_ok: "conn_ok 9 demo_conn_1k" "buf_room (m_out_buffer demo_conn_1k) 45"
  by (simp_all add: conn_ok_def demo_conn_1k_def demo_conn_def demo_buffer_def buf_inv_def buf_room_def)

lemma demo_closing_loop: "registered 5 9 (nd_loop demo_closing_node)" "loop_keeps 9 demo_served_loop (nd_loop demo_closing_node)"
proof -
  have r: "registered 1 9 (nd_loop demo_node)" using demo_asks [of 9] by (simp add: asks_def)
  have t: "el_thread_id demo_served_loop = 1" by (simp add: demo_served_loop_def demo_loop_eval)
  obtain ob l' where l': "reply (\<lambda>_. True) 1 [response_of demo_msg (m_pb_data demo_msg)] demo_conn_1k demo_served_loop =
      Some (demo_conn_1k\<lparr>m_out_buffer := ob\<rparr>, l')" "registered 5 9 l'"
    using reply_registers [OF demo_node_ok r demo_conn_1k_ok(1) demo_response_ok(1), of "\<lambda>_. True"] demo_conn_1k_ok(2) demo_response_ok(2) t
    by (auto simp: demo_node_def)
  then show "registered 5 9 (nd_loop demo_closing_node)" by (simp add: demo_closing_node_def)
  show "loop_keeps 9 demo_served_loop (nd_loop demo_closing_node)"
    using reply_keeps(1) [OF demo_served_loop_typed demo_conn_1k_ok(1)] l'(1) t by (auto simp: demo_closing_node_def call_keeps_def)
qed

theorem cleanup_between_callbacks_dangles_witness:
  "\<exists>nd1. node_task (demo_node_env\<lparr>ne_order := [9]\<rparr>) [(''Order'', demo_service)] (On_Read 9) (with_tasks [] demo_closing_node) = Some (Returns nd1) \<and>
    node_task (demo_node_env\<lparr>ne_order := [9]\<rparr>) [(''Order'', demo_service)] (On_Write 9)
      (nd1\<lparr>nd_conns := srv_conns (ClearClientTimerFunc (demo_server\<lparr>m_client := [(0, 9)], srv_conns := nd_conns nd1\<rparr>))\<rparr>) = Some Undefined"
proof -
  note k = demo_closing_loop
  have "loop_ok demo_closing_node" using k(2) demo_node_ok by (simp add: loop_ok_def loop_keeps_def demo_node_def)
  moreover have "nd_conns demo_closing_node 9 = Some demo_conn_1k" by (simp add: demo_closing_node_def demo_node_def)
  moreover have "conn_state demo_conn_1k = Connected" "m_write_index (m_in_buffer demo_conn_1k) < length (m_buffer (m_in_buffer demo_conn_1k))"
    by (simp_all add: demo_conn_1k_def demo_conn_def demo_buffer_def)
  moreover have "nd_socks demo_closing_node 9 = \<lparr>si_chunks = [], si_end = At_Eof\<rparr>" by (simp add: demo_closing_node_def)
  moreover have "watched (demo_node_env\<lparr>ne_order := [9]\<rparr>) [9] demo_closing_node" "m_pending_tasks (nd_loop demo_closing_node) = []"
    using k(2) by (simp_all add: watched_def demo_node_env_def loop_keeps_def demo_served_loop_def demo_loop_fds demo_loop_eval)
  ultimately obtain nd1 where
    "node_task (demo_node_env\<lparr>ne_order := [9]\<rparr>) [(''Order'', demo_service)] (On_Read 9) (with_tasks [] demo_closing_node) = Some (Returns nd1)"
    "\<And>s k. srv_conns s = nd_conns nd1 \<Longrightarrow> (k, 9) \<in> set (m_client s) \<Longrightarrow>
       node_task (demo_node_env\<lparr>ne_order := [9]\<rparr>) [(''Order'', demo_service)] (On_Write 9) (nd1\<lparr>nd_conns := srv_conns (ClearClientTimerFunc s)\<rparr>) = Some Undefined"
    using cleanup_between_callbacks_dangles [OF _ _ demo_conn_1k_ok(1) _ k(1)] by blast
  then show ?thesis by (intro exI [of _ nd1]) simp
qed

end
