(* ===== verification/Call_Loop.thy ===== *)
theory Call_Loop
  imports Rpc_Channel Server_Live
begin

text \<open>
  A call inside the event loop of its thread: \<open>CallMethod\<close> of \<^verbatim>\<open>net/rpc/rpc_channel.cc\<close> ends in \<open>TcpClient::connect\<close>
  (\<^verbatim>\<open>net/tcp/tcp_client.cc\<close>), which enters \<open>Eventloop::loop\<close> until the user's closure stops it.  The tasks of that loop are the closure that
  finishes the connection, the callbacks of the client's connection with the closures of the channel they call, and the
  timer with the timeout of the call.  A passing loop and what \<open>epoll_wait\<close> reports are those of \<open>Server_Loop\<close>.
\<close>

section \<open>The loop of a call\<close>

text \<open>
  \<open>cn_sock\<close>: what the socket will deliver; \<open>cn_sent\<close>: what was written to it.  The closures of a call carry its
  request; \<open>cc_user\<close> is what the user's closure does to the loop (\<open>channel->getTcpClient()->stop()\<close> in
  \<^verbatim>\<open>test/test_rpc_client.cc\<close>).
\<close>

record call_node =
  cn_channel :: rpc_channel
  cn_loop :: event_loop
  cn_sock :: sock_in
  cn_sent :: "byte list"

record call_closures =
  cc_req :: tiny_pb
  cc_connect :: nat
  cc_timeout :: task
  cc_done_write :: nat
  cc_done_read :: nat
  cc_verbose :: bool
  cc_parse :: "string \<Rightarrow> string option"
  cc_user :: "event_loop \<Rightarrow> event_loop"

record call_loop_env = node_env +
  ne_connect :: connect_result
  ne_new_fd :: int
  ne_sockname :: "sockaddr_in option"
  ne_inet_ntoa :: "32 word \<Rightarrow> string"

text \<open>The connection the channel reaches through its client, and the channel after a callback has changed it.\<close>

definition channel_conn :: "rpc_channel \<Rightarrow> tcp_connection option" where
  "channel_conn ch = Option.bind (ch_client ch) cli_connection"

definition share_conn :: "tcp_connection \<Rightarrow> rpc_channel \<Rightarrow> rpc_channel" where
  "share_conn c ch = ch\<lparr>ch_client := map_option (\<lambda>cl. cl\<lparr>cli_connection := Some c\<rparr>) (ch_client ch)\<rparr>"

text \<open>The user's closure acts on the loop when the step from \<open>ch\<close> to \<open>ch'\<close> has run it.\<close>

definition run_user :: "call_closures \<Rightarrow> rpc_channel \<Rightarrow> rpc_channel \<Rightarrow> event_loop \<Rightarrow> event_loop" where
  "run_user k ch ch' l = (if ch_runs ch < ch_runs ch' then cc_user k l else l)"

fun run_responses :: "call_closures \<Rightarrow> (nat \<times> tiny_pb) list \<Rightarrow> rpc_channel \<Rightarrow> event_loop \<Rightarrow> (rpc_channel \<times> event_loop) option" where
  "run_responses k [] ch l = Some (ch, l)"
| "run_responses k ((d, rsp) # calls) ch l = do {
     require (d = cc_done_read k);
     ch' \<leftarrow> on_response (cc_verbose k) (cc_parse k) rsp ch;
     run_responses k calls ch' (run_user k ch ch' l) }"

fun run_sents ::
    "(int \<Rightarrow> bool) \<Rightarrow> int \<Rightarrow> call_closures \<Rightarrow> (nat \<times> tiny_pb) list \<Rightarrow> rpc_channel \<Rightarrow> event_loop \<Rightarrow> (rpc_channel \<times> event_loop) option" where
  "run_sents fd_ok tid k [] ch l = Some (ch, l)"
| "run_sents fd_ok tid k ((d, m) # calls) ch l = do {
     require (d = cc_done_write k);
     (ch, l) \<leftarrow> on_sent (cc_verbose k) fd_ok tid (cc_req k) (cc_done_read k) ch l;
     run_sents fd_ok tid k calls ch l }"

fun run_timeouts :: "call_closures \<Rightarrow> task list \<Rightarrow> rpc_channel \<Rightarrow> event_loop \<Rightarrow> (rpc_channel \<times> event_loop) option" where
  "run_timeouts k [] ch l = Some (ch, l)"
| "run_timeouts k (t # ts) ch l = do {
     require (t = cc_timeout k);
     ch' \<leftarrow> on_timeout ch;
     run_timeouts k ts ch' (run_user k ch ch' l) }"

text \<open>The closure \<open>connect\<close> has registered, with the \<open>done\<close> it ends in.\<close>

definition connect_done :: "call_loop_env \<Rightarrow> call_closures \<Rightarrow> rpc_channel \<Rightarrow> event_loop \<Rightarrow> (rpc_channel \<times> event_loop) option" where
  "connect_done env k ch l = do {
     cl \<leftarrow> ch_client ch;
     (cl, l) \<leftarrow> connect_writable (ne_fd_ok env) (el_thread_id l) (ne_inet_ntoa env) (ne_sockname env) (ne_connect env) (ne_new_fd env) cl l;
     (ch', l) \<leftarrow> on_connected (cc_verbose k) (ne_fd_ok env) (el_thread_id l) (cc_req k) (cc_done_write k) (ch\<lparr>ch_client := Some cl\<rparr>) l;
     Some (ch', run_user k ch ch' l) }"

definition put_call :: "call_node \<Rightarrow> rpc_channel \<times> event_loop \<Rightarrow> call_node outcome option" where
  "put_call nd r = Some (Returns (nd\<lparr>cn_channel := fst r, cn_loop := snd r\<rparr>))"

text \<open>
  A task of the loop.  Only this call's connection and closures are in the state: a task of an earlier call of the thread
  (a timeout left pending, an event of its descriptor) is \<open>Undefined\<close> here, and the theorems are about passes without one.
\<close>

definition call_task :: "call_loop_env \<Rightarrow> call_closures \<Rightarrow> task \<Rightarrow> call_node \<Rightarrow> call_node outcome option" where
  "call_task env k t nd =
     (let ch = cn_channel nd; l = cn_loop nd; tid = el_thread_id l in
      case t of
        On_Read i \<Rightarrow> (case channel_conn ch of
            None \<Rightarrow> Some Undefined
          | Some c \<Rightarrow> if conn_fd_event c \<noteq> i then Some Undefined
              else then_outcome (onRead (ne_fd_ok env) tid ([] :: (unit, unit) service_map) RunTime_new (cn_sock nd) c l)
                (\<lambda>(c', l, _, calls). then_outcome (lift_outcome (run_responses k calls (share_conn c' ch) l))
                   (put_call (nd\<lparr>cn_sock := sock_rest c (cn_sock nd)\<rparr>))))
      | On_Write i \<Rightarrow> (case channel_conn ch of
            None \<Rightarrow> Some Undefined
          | Some c \<Rightarrow> if conn_fd_event c \<noteq> i then Some Undefined
              else then_outcome (lift_outcome (onWrite (ne_fd_ok env) tid (ne_writes env i) c l))
                (\<lambda>(c', l, bytes, calls). then_outcome (lift_outcome (run_sents (ne_fd_ok env) tid k calls (share_conn c' ch) l))
                   (put_call (nd\<lparr>cn_sent := cn_sent nd @ bytes\<rparr>))))
      | Client_Task n \<Rightarrow> if n \<noteq> cc_connect k then Some Undefined
          else then_outcome (lift_outcome (connect_done env k ch l)) (put_call nd)
      | On_Timer \<Rightarrow> (case onTimer (ne_clock env) (ne_timer_reads env) (el_timer l) of
            None \<Rightarrow> Some Undefined
          | Some (tm, ts) \<Rightarrow> then_outcome (lift_outcome (run_timeouts k ts ch (l\<lparr>el_timer := tm\<rparr>))) (put_call nd))
      | _ \<Rightarrow> then_outcome (lift_outcome (run_task (loop_env_of (node_env.truncate env)) t l)) (\<lambda>l. put_call nd (ch, l)))"

fun call_tasks :: "call_loop_env \<Rightarrow> call_closures \<Rightarrow> task option list \<Rightarrow> call_node \<Rightarrow> call_node outcome option" where
  "call_tasks env k [] nd = Some (Returns nd)"
| "call_tasks env k (None # ts) nd = call_tasks env k ts nd"
| "call_tasks env k (Some t # ts) nd = then_outcome (call_task env k t nd) (call_tasks env k ts)"

definition call_view :: "call_node \<Rightarrow> io_node" where
  "call_view nd = \<lparr>nd_loop = cn_loop nd, nd_conns = Map.empty, nd_rt = RunTime_new, nd_socks = (\<lambda>_. cn_sock nd), nd_sent = []\<rparr>"

definition call_round :: "call_loop_env \<Rightarrow> call_closures \<Rightarrow> call_node \<Rightarrow> call_node outcome option" where
  "call_round env k nd =
     then_outcome (call_tasks env k (m_pending_tasks (cn_loop nd)) (nd\<lparr>cn_loop := (cn_loop nd)\<lparr>m_pending_tasks := []\<rparr>\<rparr>))
       (\<lambda>nd. then_outcome (lift_outcome (dispatch_all (loop_env_of (node_env.truncate env)) (el_thread_id (cn_loop nd))
            (epoll_wait (node_env.truncate env) (call_view nd)) (cn_loop nd)))
         (\<lambda>l. put_call nd (cn_channel nd, l)))"

fun call_rounds :: "call_loop_env list \<Rightarrow> call_closures \<Rightarrow> call_node \<Rightarrow> call_node outcome option" where
  "call_rounds [] k nd = Some (Returns nd)"
| "call_rounds (env # envs) k nd =
     (if m_stop_flag (cn_loop nd) then Some (Returns nd) else then_outcome (call_round env k nd) (call_rounds envs k))"

text \<open>\<open>Eventloop::loop\<close> as \<open>connect\<close> enters it with the channel and the loop \<open>CallMethod\<close> has prepared.\<close>

definition call_loop :: "call_loop_env list \<Rightarrow> call_closures \<Rightarrow> rpc_channel \<Rightarrow> event_loop \<Rightarrow> call_node outcome option" where
  "call_loop envs k ch l = call_rounds envs k
     \<lparr>cn_channel = ch, cn_loop = l\<lparr>m_is_looping := True\<rparr>, cn_sock = idle_sock, cn_sent = []\<rparr>"

section \<open>Registration of the client's event\<close>

text \<open>The event of descriptor \<open>i\<close> is registered with mask \<open>m\<close> and the callbacks \<open>r\<close> and \<open>w\<close>.\<close>

definition watching :: "int32 \<Rightarrow> task option \<Rightarrow> task option \<Rightarrow> nat \<Rightarrow> event_loop \<Rightarrow> bool" where
  "watching m r w i l \<longleftrightarrow> ev_at l (Group_Event i) = Some \<lparr>fde_fd = int i, fde_events = m, fde_data = Some (Group_Event i),
       m_read_callback = r, m_write_callback = w, m_error_callback = None\<rparr> \<and>
     el_kernel l (int i) = Some (m, Some (Group_Event i)) \<and> int i \<in> m_listen_fds l"

text \<open>Every registration belongs to an event that exists, so \<open>loop\<close> may look at it.\<close>

definition regs_exist :: "event_loop \<Rightarrow> bool" where
  "regs_exist l \<longleftrightarrow> (\<forall>fd m p. el_kernel l fd = Some (m, Some p) \<longrightarrow> ev_at l p \<noteq> None)"

text \<open>Work on the event of descriptor \<open>i\<close> leaves the rest of the loop alone.\<close>

definition aside :: "nat \<Rightarrow> event_loop \<Rightarrow> event_loop \<Rightarrow> bool" where
  "aside i l l' \<longleftrightarrow> (\<forall>fd. fd \<noteq> int i \<longrightarrow> el_kernel l' fd = el_kernel l fd \<and> (fd \<in> m_listen_fds l' \<longleftrightarrow> fd \<in> m_listen_fds l)) \<and>
     (\<forall>p. p \<noteq> Group_Event i \<longrightarrow> ev_at l' p = ev_at l p) \<and>
     length (m_fd_group (el_group l')) = length (m_fd_group (el_group l)) \<and> feg_size (el_group l') = feg_size (el_group l)"

definition calm :: "nat \<Rightarrow> event_loop \<Rightarrow> event_loop \<Rightarrow> bool" where
  "calm i l l' \<longleftrightarrow> el_thread_id l' = el_thread_id l \<and> m_pending_tasks l' = m_pending_tasks l \<and> el_timer l' = el_timer l \<and>
     el_wakeup_fd l' = el_wakeup_fd l \<and> m_stop_flag l' = m_stop_flag l \<and> m_is_looping l' = m_is_looping l \<and>
     (regs_exist l \<longrightarrow> regs_exist l') \<and> aside i l l'"

lemma ev_at_registered: "ev_at (l\<lparr>el_kernel := k, m_listen_fds := s\<rparr>) = ev_at l"
  by (rule ext) (simp add: ev_at_def split: ev_ptr.split)

lemma aside_refl [simp]: "aside i l l"
  by (simp add: aside_def)

lemma aside_register: "aside i l (l\<lparr>el_kernel := (el_kernel l)(int i := r), m_listen_fds := insert (int i) (m_listen_fds l)\<rparr>)"
  "aside i l (l\<lparr>el_kernel := (el_kernel l)(int i := r), m_listen_fds := m_listen_fds l - {int i}\<rparr>)"
  by (simp_all add: aside_def ev_at_registered)

lemma aside_update: "update_event i f l = Some l' \<Longrightarrow> aside i l l'"
  using ev_at_update_event [of i f l l'] by (auto simp: aside_def update_event_def bind_eq_Some_conv)

lemma aside_trans: "aside i l l1 \<Longrightarrow> aside i l1 l2 \<Longrightarrow> aside i l l2"
  by (simp add: aside_def)

lemma calm_refl [simp]: "calm i l l"
  by (simp add: calm_def)

lemma calm_trans: "calm i l l1 \<Longrightarrow> calm i l1 l2 \<Longrightarrow> calm i l l2"
  using aside_trans [of i l l1 l2] by (simp add: calm_def)

text \<open>Changing an event and registering it again.\<close>

lemma relisten:
  assumes "ev_at l (Group_Event i) = Some e" "int i \<in> m_listen_fds l \<longleftrightarrow> el_kernel l (int i) \<noteq> None" "fd_ok (int i)"
    and "fde_fd (f e) = int i" "fde_data (f e) = Some (Group_Event i)"
  shows "\<exists>l1 l'. update_event i f l = Some l1 \<and> addEpollEvent fd_ok (el_thread_id l) (Group_Event i) l1 = Some l' \<and>
    ev_at l' (Group_Event i) = Some (f e) \<and> el_kernel l' (int i) = Some (fde_events (f e), Some (Group_Event i)) \<and>
    int i \<in> m_listen_fds l' \<and> calm i l l'"
proof -
  let ?p = "Group_Event i"
  define l1 where "l1 = the (update_event i f l)"
  have l1: "update_event i f l = Some l1" using assms(1) by (simp add: l1_def update_event_def)
  note ev1 = ev_at_update_event [OF l1]
  have s1: "el_kernel l1 = el_kernel l" "m_listen_fds l1 = m_listen_fds l" "el_thread_id l1 = el_thread_id l" "m_pending_tasks l1 = m_pending_tasks l"
      "el_timer l1 = el_timer l" "el_wakeup_fd l1 = el_wakeup_fd l" "m_stop_flag l1 = m_stop_flag l" "m_is_looping l1 = m_is_looping l"
    using l1 by (auto simp: update_event_def bind_eq_Some_conv)
  have e1: "ev_at l1 ?p = Some (f e)" using ev1 assms(1) by simp
  define l2 where "l2 = l1\<lparr>el_kernel := (el_kernel l)(int i \<mapsto> (fde_events (f e), Some ?p)), m_listen_fds := insert (int i) (m_listen_fds l)\<rparr>"
  have "addEpollEvent fd_ok (el_thread_id l) ?p l1 = Some l2"
    using e1 s1 assms(2-5)
    by (cases "int i \<in> m_listen_fds l")
       (auto simp: addEpollEvent_def isInLoopThread_def add_to_epoll_def epoll_ctl_def getFd_def getEpollEvent_def l2_def)
  moreover have "regs_exist l2" if "regs_exist l"
    using that e1 ev1 by (auto simp: regs_exist_def l2_def)
  moreover have "aside i l l2"
    using aside_trans [OF aside_update [OF l1] aside_register(1)] by (simp add: l2_def s1)
  ultimately show ?thesis using l1 e1 s1 by (intro exI [of _ l1] exI [of _ l2]) (simp add: calm_def, simp add: l2_def)
qed

lemma listenWrite_watching:
  assumes "conn_fd_event c = i" "fd_ok (int i)" "int i \<in> m_listen_fds l \<longleftrightarrow> el_kernel l (int i) \<noteq> None"
    and "ev_at l (Group_Event i) = Some \<lparr>fde_fd = int i, fde_events = 4, fde_data = d, m_read_callback = r, m_write_callback = w, m_error_callback = None\<rparr>"
  shows "\<exists>l'. listenWrite fd_ok (el_thread_id l) c l = Some l' \<and> watching 4 r (Some (On_Write i)) i l' \<and> calm i l l'"
  using relisten [OF assms(4,3), of fd_ok "fd_listen (Group_Event i) OUT_EVENT (Some (On_Write i)) None"] assms(1,2)
  by (auto simp: listenWrite_def watching_def fd_listen_def)

lemma listenRead_watching:
  assumes "conn_fd_event c = i" "fd_ok (int i)" "watching 0 r w i l"
  shows "\<exists>l'. listenRead fd_ok (el_thread_id l) c l = Some l' \<and> watching 1 (Some (On_Read i)) w i l' \<and> calm i l l'"
  using relisten [of l i _ fd_ok "fd_listen (Group_Event i) IN_EVENT (Some (On_Read i)) None"] assms
  by (auto simp: listenRead_def watching_def fd_listen_def)

section \<open>The stages of a call\<close>

text \<open>The client of a channel that works on descriptor event \<open>i\<close>, its address known when the log asks for it.\<close>

definition client_of :: "nat \<Rightarrow> rpc_channel \<Rightarrow> tcp_client \<Rightarrow> tcp_connection \<Rightarrow> bool" where
  "client_of i ch cl c \<longleftrightarrow> ch_client ch = Some cl \<and> cli_connection cl = Some c \<and> cli_fd_event cl = i \<and> cli_connect_error_code cl = 0 \<and>
     conn_fd_event c = i \<and> conn_type c = TcpConnectionByClient \<and> buf_inv (m_in_buffer c) \<and> buf_inv (m_out_buffer c) \<and>
     contents (m_in_buffer c) = []"

text \<open>The connection is under way.\<close>

definition connecting :: "call_closures \<Rightarrow> nat \<Rightarrow> call_node \<Rightarrow> bool" where
  "connecting k i nd \<longleftrightarrow> (\<exists>cl c. client_of i (cn_channel nd) cl c \<and> m_write_dones c = [] \<and> m_read_dones c = [] \<and> contents (m_out_buffer c) = [] \<and>
       buf_room (m_out_buffer c) (frame_size (cc_req k))) \<and>
     watching 4 None (Some (Client_Task (cc_connect k))) i (cn_loop nd) \<and> wire_ok (cc_req k)"

text \<open>The request waits to be written.\<close>

definition sending :: "call_closures \<Rightarrow> nat \<Rightarrow> call_node \<Rightarrow> bool" where
  "sending k i nd \<longleftrightarrow> (\<exists>cl c. client_of i (cn_channel nd) cl c \<and> conn_state c = Connected \<and>
       m_write_dones c = [(cc_req k, cc_done_write k)] \<and> m_read_dones c = [] \<and> contents (m_out_buffer c) = [] \<and>
       buf_room (m_out_buffer c) (frame_size (cc_req k)) \<and> (cc_verbose k \<longrightarrow> cli_local_addr cl \<noteq> None)) \<and>
     watching 4 None (Some (On_Write i)) i (cn_loop nd) \<and> wire_ok (cc_req k)"

text \<open>The request has been sent and the response is waited for.\<close>

definition awaiting :: "call_closures \<Rightarrow> nat \<Rightarrow> call_node \<Rightarrow> bool" where
  "awaiting k i nd \<longleftrightarrow> (\<exists>cl c. client_of i (cn_channel nd) cl c \<and> conn_state c = Connected \<and>
       m_read_dones c = [(m_msg_id (cc_req k), cc_done_read k)] \<and> (cc_verbose k \<longrightarrow> cli_local_addr cl \<noteq> None)) \<and>
     watching 1 (Some (On_Read i)) (Some (On_Write i)) i (cn_loop nd)"

text \<open>What the channel keeps while its client works.\<close>

definition same_call :: "call_node \<Rightarrow> call_node \<Rightarrow> bool" where
  "same_call nd nd' \<longleftrightarrow> (\<exists>cl. cn_channel nd' = (cn_channel nd)\<lparr>ch_client := cl\<rparr>) \<and>
     map_option m_in_buffer (channel_conn (cn_channel nd')) = map_option m_in_buffer (channel_conn (cn_channel nd))"

lemma same_call_trans: "same_call nd nd1 \<Longrightarrow> same_call nd1 nd2 \<Longrightarrow> same_call nd nd2"
  by (auto simp: same_call_def)

lemma connect_step:
  assumes "connecting k i nd" "ne_connect env = Conn_Ok \<or> ne_connect env = Conn_Is_Connected" "cc_verbose k \<longrightarrow> ne_sockname env \<noteq> None"
    and "ne_fd_ok env (int i)"
  shows "\<exists>nd'. call_task env k (Client_Task (cc_connect k)) nd = Some (Returns nd') \<and> sending k i nd' \<and> same_call nd nd' \<and>
    calm i (cn_loop nd) (cn_loop nd') \<and> cn_sock nd' = cn_sock nd \<and> cn_sent nd' = cn_sent nd"
proof -
  let ?ch = "cn_channel nd" and ?l = "cn_loop nd" and ?p = "Group_Event i" and ?fd_ok = "ne_fd_ok env"
  obtain cl c where c: "client_of i ?ch cl c" "m_write_dones c = []" "m_read_dones c = []" "contents (m_out_buffer c) = []"
      "buf_room (m_out_buffer c) (frame_size (cc_req k))"
    and w: "watching 4 None (Some (Client_Task (cc_connect k))) i ?l" and r: "wire_ok (cc_req k)"
    using assms(1) by (auto simp: connecting_def)
  let ?cl = "(initLocalAddr (ne_inet_ntoa env) (ne_sockname env) cl)\<lparr>cli_connection := Some (setState Connected c)\<rparr>"
  define l1 where "l1 = ?l\<lparr>el_kernel := (el_kernel ?l)(int i := None), m_listen_fds := m_listen_fds ?l - {int i}\<rparr>"
  have k1: "calm i ?l l1" using aside_register(2) by (auto simp: calm_def l1_def regs_exist_def)
  have e1: "ev_at l1 ?p = Some \<lparr>fde_fd = int i, fde_events = 4, fde_data = Some ?p, m_read_callback = None,
      m_write_callback = Some (Client_Task (cc_connect k)), m_error_callback = None\<rparr>"
    using w by (simp add: watching_def l1_def)
  have "deleteEpollEvent ?fd_ok (el_thread_id ?l) ?p ?l = Some l1"
    using w by (simp add: deleteEpollEvent_def isInLoopThread_def delete_from_epoll_def watching_def getFd_def epoll_ctl_def l1_def)
  then have cw: "connect_writable ?fd_ok (el_thread_id ?l) (ne_inet_ntoa env) (ne_sockname env) (ne_connect env) (ne_new_fd env) cl ?l = Some (?cl, l1)"
    using assms(2) c(1) by (auto simp: connect_writable_def with_connection_def client_of_def initLocalAddr_def split: option.splits)
  let ?c = "pushSendMessage (cc_req k) (cc_done_write k) (setState Connected c)"
  let ?cl' = "?cl\<lparr>cli_connection := Some ?c\<rparr>"
  have "conn_fd_event ?c = i" using c(1) by (simp add: client_of_def pushSendMessage_def setState_def)
  from listenWrite_watching [where fd_ok = ?fd_ok, OF this assms(4) _ e1] obtain l2 where l2: "listenWrite ?fd_ok (el_thread_id l1) ?c l1 = Some l2"
      "watching 4 None (Some (On_Write i)) i l2" "calm i l1 l2" by (auto simp: l1_def)
  have loc: "cc_verbose k \<longrightarrow> cli_local_addr ?cl \<noteq> None" using assms(3) by (auto simp: initLocalAddr_def)
  have ec: "cli_connect_error_code ?cl = 0" "cli_fd_event ?cl = i" using c(1) by (auto simp: client_of_def initLocalAddr_def split: option.splits)
  have "on_connected (cc_verbose k) ?fd_ok (el_thread_id l1) (cc_req k) (cc_done_write k) (?ch\<lparr>ch_client := Some ?cl\<rparr>) l1 =
      Some (?ch\<lparr>ch_client := Some ?cl'\<rparr>, l2)"
    using loc ec l2(1)
    by (auto simp: on_connected_def getConnectErrorCode_def log_addrs_def client_getLocalAddr_def writeMessage_def with_connection_def)
  then have t: "call_task env k (Client_Task (cc_connect k)) nd = Some (Returns (nd\<lparr>cn_channel := ?ch\<lparr>ch_client := Some ?cl'\<rparr>, cn_loop := l2\<rparr>))"
    using cw c(1) by (simp add: call_task_def connect_done_def client_of_def lift_outcome_def put_call_def run_user_def)
  have "client_of i (?ch\<lparr>ch_client := Some ?cl'\<rparr>) ?cl' ?c" "conn_state ?c = Connected" "m_out_buffer ?c = m_out_buffer c"
      "m_write_dones ?c = [(cc_req k, cc_done_write k)]" "m_read_dones ?c = []" "cc_verbose k \<longrightarrow> cli_local_addr ?cl' \<noteq> None"
    using c(1-3) ec loc by (simp_all add: client_of_def pushSendMessage_def setState_def)
  then have "\<exists>cl' c'. client_of i (?ch\<lparr>ch_client := Some ?cl'\<rparr>) cl' c' \<and> conn_state c' = Connected \<and>
      m_write_dones c' = [(cc_req k, cc_done_write k)] \<and> m_read_dones c' = [] \<and> contents (m_out_buffer c') = [] \<and>
      buf_room (m_out_buffer c') (frame_size (cc_req k)) \<and> (cc_verbose k \<longrightarrow> cli_local_addr cl' \<noteq> None)"
    using c(4,5) by (intro exI [of _ ?cl'] exI [of _ ?c]) (simp only: simp_thms)
  then show ?thesis using t l2(2) calm_trans [OF k1 l2(3)] r
    by (intro exI [of _ "nd\<lparr>cn_channel := ?ch\<lparr>ch_client := Some ?cl'\<rparr>, cn_loop := l2\<rparr>"]) (use c(1) in \<open>simp add: sending_def same_call_def channel_conn_def client_of_def pushSendMessage_def setState_def\<close>, blast)
qed

lemma write_step:
  assumes "sending k i nd" "ne_fd_ok env (int i)" "ne_writes env i = Wrote n # ws" "frame_size (cc_req k) \<le> n"
  shows "\<exists>nd'. call_task env k (On_Write i) nd = Some (Returns nd') \<and> awaiting k i nd' \<and> same_call nd nd' \<and>
    calm i (cn_loop nd) (cn_loop nd') \<and> cn_sock nd' = cn_sock nd \<and> cn_sent nd' = cn_sent nd @ frame_bytes (cc_req k)"
proof -
  let ?ch = "cn_channel nd" and ?l = "cn_loop nd" and ?p = "Group_Event i" and ?fd_ok = "ne_fd_ok env"
  let ?tid = "el_thread_id ?l" and ?req = "cc_req k"
  obtain cl c where c: "client_of i ?ch cl c" "conn_state c = Connected" "m_write_dones c = [(?req, cc_done_write k)]"
      "m_read_dones c = []" "contents (m_out_buffer c) = []" "buf_room (m_out_buffer c) (frame_size ?req)" "cc_verbose k \<longrightarrow> cli_local_addr cl \<noteq> None"
    and w: "watching 4 None (Some (On_Write i)) i ?l" and r: "wire_ok ?req"
    using assms(1) by (auto simp: sending_def)
  have i: "conn_fd_event c = i" "conn_type c = TcpConnectionByClient" "buf_inv (m_out_buffer c)" using c(1) by (auto simp: client_of_def)
  obtain ob where ob: "encode [?req] (m_out_buffer c) = Some ([sent ?req], ob)" "buf_inv ob" "contents ob = frame_bytes ?req"
    using encode_frames [of "[?req]", OF _ i(3)] c(5,6) r by auto
  let ?e = "\<lparr>fde_fd = int i, fde_events = 4, fde_data = Some ?p, m_read_callback = None, m_write_callback = Some (On_Write i), m_error_callback = None\<rparr>"
  have e: "ev_at ?l ?p = Some ?e" "int i \<in> m_listen_fds ?l \<longleftrightarrow> el_kernel ?l (int i) \<noteq> None" using w by (auto simp: watching_def)
  obtain l1 l2 where l2: "update_event i (cancle OUT_EVENT) ?l = Some l1" "addEpollEvent ?fd_ok ?tid ?p l1 = Some l2"
      "watching 0 None (Some (On_Write i)) i l2" "calm i ?l l2"
    using relisten [OF e, of ?fd_ok "cancle OUT_EVENT"] assms(2) by (auto simp: cancle_def watching_def)
  have ow: "onWrite_loop ob (ne_writes env i) = Some (True, frame_bytes ?req)"
    using ob(2,3) assms(3,4) by (simp add: onWrite_loop_all)
  let ?c = "c\<lparr>m_out_buffer := ob, m_write_dones := []\<rparr>"
  have wr: "onWrite ?fd_ok ?tid (ne_writes env i) c ?l = Some (?c, l2, frame_bytes ?req, [(cc_done_write k, sent ?req)])"
    using c(2,3) i ob(1) ow l2(1,2) by (simp add: onWrite_def)
  let ?c' = "pushReadMessage (m_msg_id ?req) (cc_done_read k) ?c"
  let ?cl = "cl\<lparr>cli_connection := Some ?c'\<rparr>"
  let ?ch' = "?ch\<lparr>ch_client := Some ?cl\<rparr>"
  have tid: "el_thread_id l2 = ?tid" using l2(4) by (simp add: calm_def)
  have "conn_fd_event ?c' = i" using i(1) by (simp add: pushReadMessage_def)
  from listenRead_watching [where fd_ok = ?fd_ok, OF this assms(2) l2(3)] obtain l3 where l3: "listenRead ?fd_ok ?tid ?c' l2 = Some l3"
      "watching 1 (Some (On_Read i)) (Some (On_Write i)) i l3" "calm i l2 l3" by (auto simp: tid)
  have cl: "ch_client ?ch = Some cl" "cli_connection cl = Some c" using c(1) by (simp_all add: client_of_def)
  have "on_sent (cc_verbose k) ?fd_ok ?tid ?req (cc_done_read k) (share_conn ?c ?ch) l2 = Some (?ch', l3)"
    using cl c(7) l3(1)
    by (auto simp: on_sent_def log_addrs_def client_getLocalAddr_def readMessage_def with_connection_def share_conn_def)
  then have t: "call_task env k (On_Write i) nd =
      Some (Returns (nd\<lparr>cn_channel := ?ch', cn_loop := l3, cn_sent := cn_sent nd @ frame_bytes ?req\<rparr>))"
    using cl i(1) wr by (simp add: call_task_def channel_conn_def lift_outcome_def put_call_def)
  have "client_of i ?ch' ?cl ?c'" "conn_state ?c' = Connected" "m_read_dones ?c' = [(m_msg_id ?req, cc_done_read k)]"
      "cc_verbose k \<longrightarrow> cli_local_addr ?cl \<noteq> None"
    using c ob(2) by (simp_all add: client_of_def pushReadMessage_def map_insert_def)
  then have "\<exists>cl' c'. client_of i ?ch' cl' c' \<and> conn_state c' = Connected \<and> m_read_dones c' = [(m_msg_id ?req, cc_done_read k)] \<and>
      (cc_verbose k \<longrightarrow> cli_local_addr cl' \<noteq> None)" by blast
  then show ?thesis using t l3(2) calm_trans [OF l2(4) l3(3)] cl
    by (intro exI [of _ "nd\<lparr>cn_channel := ?ch', cn_loop := l3, cn_sent := cn_sent nd @ frame_bytes ?req\<rparr>"])
       (simp add: awaiting_def same_call_def channel_conn_def pushReadMessage_def, blast)
qed

lemma client_reads_response:
  assumes "conn_type c = TcpConnectionByClient" "conn_state c = Connected" "buf_inv (m_in_buffer c)" "contents (m_in_buffer c) = []"
    and "wire_ok rsp" "frame_size rsp < free_bytes (m_in_buffer c)" "m_read_dones c = [(m_msg_id rsp, done)]"
  shows "\<exists>c'. onRead fd_ok tid smap rt \<lparr>si_chunks = [frame_bytes rsp], si_end = At_Again\<rparr> c l =
      Some (Returns (c', l, rt, [(done, received rsp)])) \<and> m_read_dones c' = []"
proof -
  have k: "0 < free_bytes (m_in_buffer c)" using assms(6) by simp
  obtain ib where ib: "onRead_loop (m_in_buffer c) \<lparr>si_chunks = [frame_bytes rsp], si_end = At_Again\<rparr> =
      Some (Returns (False, ib, \<lparr>si_chunks = [], si_end = At_Again\<rparr>))" "buf_inv ib" "contents ib = frame_bytes rsp"
      "m_write_index ib < length (m_buffer ib)"
    using onRead_loop_chunk [OF assms(3) free_bytes_def k, of "frame_bytes rsp"] assms(4,6) by auto
  obtain ib' where ib': "decode [] ib = Some (Returns ([received rsp], ib'))"
    using decode_all [of "[rsp]", OF _ ib(2,4), of "[]"] assms(5) ib(3) by auto
  have "deliver [received rsp] [(m_msg_id rsp, done)] = ([(done, received rsp)], [])"
    by (simp add: received_def map_erase_def)
  then show ?thesis using assms(1,2,7) ib(1) ib' by (simp add: onRead_def excute_def del: deliver.simps)
qed

lemma read_step:
  assumes "awaiting k i nd" "cn_sock nd = \<lparr>si_chunks = [frame_bytes rsp], si_end = At_Again\<rparr>" "wire_ok rsp" "m_msg_id rsp = m_msg_id (cc_req k)"
    and "\<And>c. channel_conn (cn_channel nd) = Some c \<Longrightarrow> frame_size rsp < free_bytes (m_in_buffer c)"
    and "ch_controller (cn_channel nd) = Some ctl" "\<not> Finished ctl" "ch_closure (cn_channel nd)" "ch_response (cn_channel nd) \<noteq> None"
    and "cc_parse k (m_pb_data rsp) = Some msg" "m_err_code rsp = 0"
  shows "\<exists>cl. call_task env k (On_Read i) nd = Some (Returns (nd\<lparr>cn_channel := (cn_channel nd)\<lparr>ch_client := cl, ch_response := Some msg,
      ch_runs := ch_runs (cn_channel nd) + 1, ch_controller := Some (SetFinished True ctl)\<rparr>,
    cn_loop := cc_user k (cn_loop nd), cn_sock := idle_sock\<rparr>))"
proof -
  let ?ch = "cn_channel nd" and ?l = "cn_loop nd" and ?fd_ok = "ne_fd_ok env" and ?rsp = "received rsp"
  let ?sock = "\<lparr>si_chunks = [frame_bytes rsp], si_end = At_Again\<rparr>"
  obtain cl c where c: "client_of i ?ch cl c" "conn_state c = Connected" "m_read_dones c = [(m_msg_id rsp, cc_done_read k)]"
      "cc_verbose k \<longrightarrow> cli_local_addr cl \<noteq> None"
    using assms(1,4) by (auto simp: awaiting_def)
  have cl: "ch_client ?ch = Some cl" "cli_connection cl = Some c" "conn_fd_event c = i" "conn_type c = TcpConnectionByClient"
      "buf_inv (m_in_buffer c)" "contents (m_in_buffer c) = []"
    using c(1) by (simp_all add: client_of_def)
  have cc: "channel_conn ?ch = Some c" using cl by (simp add: channel_conn_def)
  note free = assms(5) [OF cc]
  obtain c' where c': "onRead ?fd_ok (el_thread_id ?l) ([] :: (unit, unit) service_map) RunTime_new ?sock c ?l =
      Some (Returns (c', ?l, RunTime_new, [(cc_done_read k, ?rsp)]))"
    using client_reads_response [OF cl(4) c(2) cl(5,6) assms(3) free c(3), of ?fd_ok "el_thread_id ?l" "[] :: (unit, unit) service_map" RunTime_new ?l]
    by blast
  have "0 < free_bytes (m_in_buffer c)" using free by simp
  from onRead_loop_chunk [OF cl(5) free_bytes_def this, of "frame_bytes rsp"] have rest: "sock_rest c ?sock = idle_sock"
    using c(2) by (auto simp: sock_rest_def)
  let ?ch' = "(share_conn c' ?ch)\<lparr>ch_response := Some msg, ch_runs := ch_runs ?ch + 1, ch_controller := Some (SetFinished True ctl)\<rparr>"
  have "m_pb_data ?rsp = m_pb_data rsp" "m_err_code ?rsp = 0" using assms(11) by (simp_all add: received_def)
  then have "on_response (cc_verbose k) (cc_parse k) ?rsp (share_conn c' ?ch) = Some ?ch'"
    using assms(6-10) c(4) cl(1)
    by (auto simp: on_response_def log_addrs_def client_getLocalAddr_def share_conn_def callBack_def Let_def)
  then have "call_task env k (On_Read i) nd = Some (Returns (nd\<lparr>cn_channel := ?ch', cn_loop := cc_user k ?l, cn_sock := idle_sock\<rparr>))"
    using cc cl(3) c' rest assms(2) by (simp add: call_task_def lift_outcome_def put_call_def run_user_def share_conn_def Let_def)
  then show ?thesis by (intro exI [of _ "ch_client (share_conn c' ?ch)"]) (simp add: share_conn_def)
qed

section \<open>Passes\<close>

text \<open>The descriptor of the call is writable, has no error and is the one reported.\<close>

definition serves :: "call_loop_env \<Rightarrow> nat \<Rightarrow> event_loop \<Rightarrow> bool" where
  "serves env i l \<longleftrightarrow> ne_order env = [int i] \<and> ne_writable env (int i) \<and> \<not> ne_error env (int i) \<and> ne_fd_ok env (int i) \<and>
     int i \<noteq> el_wakeup_fd l \<and> int i \<noteq> fde_fd (el_timer l)"

definition queue_call :: "task option list \<Rightarrow> call_node \<Rightarrow> call_node" where
  "queue_call ts nd = nd\<lparr>cn_loop := (cn_loop nd)\<lparr>m_pending_tasks := ts\<rparr>\<rparr>"

lemma queue_call_simps [simp]:
  "cn_channel (queue_call ts nd) = cn_channel nd" "cn_sock (queue_call ts nd) = cn_sock nd" "cn_sent (queue_call ts nd) = cn_sent nd"
  "m_pending_tasks (cn_loop (queue_call ts nd)) = ts" "m_stop_flag (cn_loop (queue_call ts nd)) = m_stop_flag (cn_loop nd)"
  "m_is_looping (cn_loop (queue_call ts nd)) = m_is_looping (cn_loop nd)" "regs_exist (cn_loop (queue_call ts nd)) = regs_exist (cn_loop nd)"
  "serves env i (cn_loop (queue_call ts nd)) = serves env i (cn_loop nd)"
  "queue_call ts (queue_call ts' nd) = queue_call ts nd" "queue_call ts (nd\<lparr>cn_sock := x\<rparr>) = (queue_call ts nd)\<lparr>cn_sock := x\<rparr>"
  "watching m r w i (cn_loop (queue_call ts nd)) = watching m r w i (cn_loop nd)"
  by (simp_all add: queue_call_def regs_exist_def serves_def watching_def)

lemma stages_queue [simp]:
  "connecting k i (queue_call ts nd) = connecting k i nd" "sending k i (queue_call ts nd) = sending k i nd"
  "awaiting k i (queue_call ts nd) = awaiting k i nd"
  by (simp_all add: connecting_def sending_def awaiting_def)

lemma calm_serves: "calm i l l' \<Longrightarrow> serves env i l \<Longrightarrow> serves env i l'"
  by (simp add: calm_def serves_def)

lemma call_round_reports:
  assumes "call_tasks env k (m_pending_tasks (cn_loop nd)) (queue_call [] nd) = Some (Returns nd1)" "m_pending_tasks (cn_loop nd1) = []"
    and "watching m r w i (cn_loop nd1)" "serves env i (cn_loop nd1)" "m = 1 \<or> m = 4"
  shows "call_round env k nd =
    Some (Returns (queue_call (if m = 4 then [w] else if sock_readable (cn_sock nd1) then [r] else []) nd1))"
proof -
  let ?env = "node_env.truncate env" and ?ts = "if m = 4 then [w] else if sock_readable (cn_sock nd1) then [r] else []"
  have t: "ne_order ?env = ne_order env" "ne_writable ?env = ne_writable env" "ne_error ?env = ne_error env"
    by (simp_all add: node_env.truncate_def)
  let ?evs = "if m = 4 \<or> sock_readable (cn_sock nd1) then [(m, Some (Group_Event i))] else []"
  have k: "el_kernel (cn_loop nd1) (int i) = Some (m, Some (Group_Event i))" using assms(3) by (simp add: watching_def)
  have "fd_report ?env (call_view nd1) (int i) = ?evs"
    using assms(4,5) by (elim disjE) (simp_all add: serves_def k t fd_report_def fd_readable_def call_view_def)
  then have ew: "epoll_wait ?env (call_view nd1) = ?evs" using assms(4) t by (simp add: epoll_wait_def serves_def)
  obtain e where e: "ev_at (cn_loop nd1) (Group_Event i) = Some e" "m_read_callback e = r" "m_write_callback e = w"
    using assms(3) by (simp add: watching_def)
  have "dispatch (loop_env_of ?env) (el_thread_id (cn_loop nd1)) (m, Some (Group_Event i)) (cn_loop nd1) =
      Some ((cn_loop nd1)\<lparr>m_pending_tasks := if m = 4 then [w] else [r]\<rparr>)"
    using assms(5) e by (elim disjE) (simp_all add: dispatch_def handler_def addTask_def assms(2))
  then have "dispatch_all (loop_env_of ?env) (el_thread_id (cn_loop nd1)) (epoll_wait ?env (call_view nd1)) (cn_loop nd1) =
      Some ((cn_loop nd1)\<lparr>m_pending_tasks := ?ts\<rparr>)"
    using assms(2) by (simp add: ew)
  then show ?thesis using assms(1) by (simp add: call_round_def lift_outcome_def put_call_def queue_call_def)
qed

lemma addTask_stop [simp]: "m_stop_flag (addTask t w l) = m_stop_flag l"
  by (simp add: addTask_def wakeup_def Let_def)

text \<open>The callbacks for input and output are only queued.\<close>

lemma dispatch_event:
  assumes "snd ev = Some p" "ev_at l p = Some e"
  shows "\<exists>l2. dispatch env tid ev l =
      (if fst ev AND EPOLLERR \<noteq> 0 then do {
         s \<leftarrow> deleteEpollEvent (env_fd_ok env) tid p l2;
         if handler ERROR_EVENT e \<noteq> None then Some (addTask (handler OUT_EVENT e) False s) else Some s }
       else Some l2) \<and>
    ev_at l2 = ev_at l \<and> el_kernel l2 = el_kernel l \<and> el_thread_id l2 = el_thread_id l \<and> m_stop_flag l2 = m_stop_flag l"
proof -
  define l1 where "l1 = (if fst ev AND EPOLLIN \<noteq> 0 then addTask (handler IN_EVENT e) False l else l)"
  define l2 where "l2 = (if fst ev AND EPOLLOUT \<noteq> 0 then addTask (handler OUT_EVENT e) False l1 else l1)"
  show ?thesis using assms by (intro exI [of _ l2]) (simp add: dispatch_def l1_def l2_def Let_def)
qed

text \<open>Whatever \<open>epoll_wait\<close> reports of events that exist, the results are queued and the loop goes on.\<close>

lemma dispatch_exists:
  assumes "regs_exist l" "\<And>p. snd ev = Some p \<Longrightarrow> ev_at l p \<noteq> None"
  shows "\<exists>l'. dispatch env (el_thread_id l) ev l = Some l' \<and> ev_at l' = ev_at l \<and> regs_exist l' \<and> el_thread_id l' = el_thread_id l \<and>
    m_stop_flag l' = m_stop_flag l"
proof (cases "snd ev")
  case None
  then show ?thesis using assms(1) by (simp add: dispatch_def)
next
  case (Some p)
  then obtain e where e: "ev_at l p = Some e" using assms(2) by blast
  obtain l2 where l2: "dispatch env (el_thread_id l) ev l =
      (if fst ev AND EPOLLERR \<noteq> 0 then do {
         s \<leftarrow> deleteEpollEvent (env_fd_ok env) (el_thread_id l) p l2;
         if handler ERROR_EVENT e \<noteq> None then Some (addTask (handler OUT_EVENT e) False s) else Some s }
       else Some l2)"
    and s2: "ev_at l2 = ev_at l" "el_kernel l2 = el_kernel l" "el_thread_id l2 = el_thread_id l" "m_stop_flag l2 = m_stop_flag l"
    using dispatch_event [OF Some e] by blast
  define l3 where "l3 = the (delete_from_epoll (env_fd_ok env) p l2)"
  have "delete_from_epoll (env_fd_ok env) p l2 = Some l3" using e s2(1) by (simp add: l3_def delete_from_epoll_def case_prod_beta)
  then have l3: "deleteEpollEvent (env_fd_ok env) (el_thread_id l) p l2 = Some l3" using s2(3) by (simp add: deleteEpollEvent_def isInLoopThread_def)
  obtain k f where k: "l3 = l2\<lparr>el_kernel := k, m_listen_fds := f\<rparr>" "\<And>fd x. k fd = Some x \<Longrightarrow> el_kernel l fd = Some x"
  proof -
    obtain e' where "ev_at l2 p = Some e'" and e: "l3 = l2\<lparr>el_kernel := (if fde_fd e' \<in> m_listen_fds l2 then (el_kernel l2)(fde_fd e' := None) else el_kernel l2),
        m_listen_fds := m_listen_fds l2 - {fde_fd e'}\<rparr>"
      using deleteEpollEvent_in_loop [OF l3 [folded s2(3)]] by blast
    show thesis by (rule that [OF e]) (simp add: s2(2) split: if_splits)
  qed
  have s3: "ev_at l3 = ev_at l" "el_thread_id l3 = el_thread_id l" "m_stop_flag l3 = m_stop_flag l" "el_kernel l3 = k"
    using k(1) s2 by simp_all
  have "regs_exist l3" "regs_exist l2" using assms(1) s2 s3 k(2) unfolding regs_exist_def by fastforce+
  then show ?thesis using l2 l3 s2 s3 by (simp add: regs_exist_def addTask_def)
qed

lemma dispatch_all_exists:
  assumes "regs_exist l" "\<And>m p. (m, Some p) \<in> set evs \<Longrightarrow> ev_at l p \<noteq> None"
  shows "\<exists>l'. dispatch_all env (el_thread_id l) evs l = Some l' \<and> regs_exist l' \<and> m_stop_flag l' = m_stop_flag l"
  using assms
proof (induction evs arbitrary: l)
  case (Cons ev evs)
  obtain l1 where l1: "dispatch env (el_thread_id l) ev l = Some l1" "ev_at l1 = ev_at l" "regs_exist l1" "el_thread_id l1 = el_thread_id l"
      "m_stop_flag l1 = m_stop_flag l"
    using dispatch_exists [OF Cons.prems(1), of ev env] Cons.prems(2) [of "fst ev"] by (cases ev) auto
  have "ev_at l1 p \<noteq> None" if "(m, Some p) \<in> set evs" for m p using that Cons.prems(2) l1(2) by auto
  with Cons.IH [OF l1(3)] l1 show ?case by auto
qed simp

lemma epoll_wait_exists:
  assumes "regs_exist (nd_loop nd)" "(m, Some p) \<in> set (epoll_wait env nd)"
  shows "ev_at (nd_loop nd) p \<noteq> None"
proof -
  obtain fd where "(m, Some p) \<in> set (fd_report env nd fd)" using in_set_takeD [OF assms(2) [unfolded epoll_wait_def]] by auto
  then have "\<exists>m'. el_kernel (nd_loop nd) fd = Some (m', Some p)"
    by (cases "el_kernel (nd_loop nd) fd") (auto simp: fd_report_def Let_def split: if_splits)
  then show ?thesis using assms(1) by (auto simp: regs_exist_def)
qed

lemma call_round_any:
  assumes "call_tasks env k (m_pending_tasks (cn_loop nd)) (queue_call [] nd) = Some (Returns nd1)" "regs_exist (cn_loop nd1)"
  shows "\<exists>l. call_round env k nd = Some (Returns (nd1\<lparr>cn_loop := l\<rparr>)) \<and> m_stop_flag l = m_stop_flag (cn_loop nd1)"
proof -
  let ?env = "node_env.truncate env"
  let ?evs = "epoll_wait ?env (call_view nd1)"
  have "\<exists>l'. dispatch_all (loop_env_of ?env) (el_thread_id (cn_loop nd1)) ?evs (cn_loop nd1) = Some l' \<and> regs_exist l' \<and>
      m_stop_flag l' = m_stop_flag (cn_loop nd1)"
    by (rule dispatch_all_exists [OF assms(2)]) (use epoll_wait_exists [of "call_view nd1" _ _ ?env] assms(2) in \<open>simp add: call_view_def\<close>)
  then show ?thesis using assms(1) by (auto simp: call_round_def queue_call_def lift_outcome_def put_call_def)
qed

text \<open>Three passes: the connection is reported, then finished and the request queued, then the request written.\<close>

definition good_passes :: "call_closures \<Rightarrow> nat \<Rightarrow> call_loop_env \<Rightarrow> bool" where
  "good_passes k i env \<longleftrightarrow> (ne_connect env = Conn_Ok \<or> ne_connect env = Conn_Is_Connected) \<and> (cc_verbose k \<longrightarrow> ne_sockname env \<noteq> None) \<and>
     (\<exists>n ws. ne_writes env i = Wrote n # ws \<and> frame_size (cc_req k) \<le> n)"

lemma request_is_sent:
  assumes "connecting k i nd" "m_pending_tasks (cn_loop nd) = []" "\<not> m_stop_flag (cn_loop nd)" "cn_sock nd = idle_sock" "cn_sent nd = []"
    and "\<forall>env \<in> {e1, e2, e3}. serves env i (cn_loop nd) \<and> good_passes k i env"
  shows "\<exists>nd'. call_rounds [e1, e2, e3] k nd = Some (Returns nd') \<and> awaiting k i nd' \<and> same_call nd nd' \<and> calm i (cn_loop nd) (cn_loop nd') \<and>
    cn_sock nd' = idle_sock \<and> cn_sent nd' = frame_bytes (cc_req k)"
proof -
  let ?task = "Some (Client_Task (cc_connect k))"
  have w0: "watching 4 None ?task i (cn_loop nd)" using assms(1) by (simp add: connecting_def)
  have q0: "queue_call [] nd = nd" using assms(2) by (simp add: queue_call_def)
  have r1: "call_round e1 k nd = Some (Returns (queue_call [?task] nd))"
    using call_round_reports [of e1 k nd nd, OF _ assms(2) w0] assms(2,6) q0 by simp
  obtain nd1 where n1: "call_task e2 k (Client_Task (cc_connect k)) nd = Some (Returns nd1)" "sending k i nd1" "same_call nd nd1"
      "calm i (cn_loop nd) (cn_loop nd1)" "cn_sock nd1 = idle_sock" "cn_sent nd1 = []"
    using connect_step [OF assms(1), of e2] assms(4-6) by (auto simp: good_passes_def serves_def)
  have w1: "watching 4 None (Some (On_Write i)) i (cn_loop nd1)" using n1(2) by (simp add: sending_def)
  have p1: "m_pending_tasks (cn_loop nd1) = []" "\<not> m_stop_flag (cn_loop nd1)" using n1(4) assms(2,3) by (simp_all add: calm_def)
  have q1: "queue_call [] nd1 = nd1" using p1(1) by (simp add: queue_call_def)
  have "serves e2 i (cn_loop nd1)" using calm_serves [OF n1(4)] assms(6) by blast
  then have r2: "call_round e2 k (queue_call [?task] nd) = Some (Returns (queue_call [Some (On_Write i)] nd1))"
    using call_round_reports [of e2 k "queue_call [?task] nd" nd1, OF _ p1(1) w1] n1(1) q0 by simp
  obtain n ws where "ne_writes e3 i = Wrote n # ws" "frame_size (cc_req k) \<le> n" "ne_fd_ok e3 (int i)"
    using assms(6) by (auto simp: good_passes_def serves_def)
  from write_step [OF n1(2) this(3,1,2)] obtain nd2 where n2: "call_task e3 k (On_Write i) nd1 = Some (Returns nd2)" "awaiting k i nd2"
      "same_call nd1 nd2" "calm i (cn_loop nd1) (cn_loop nd2)" "cn_sock nd2 = idle_sock" "cn_sent nd2 = frame_bytes (cc_req k)"
    using n1(5,6) by auto
  have w2: "watching 1 (Some (On_Read i)) (Some (On_Write i)) i (cn_loop nd2)" using n2(2) by (simp add: awaiting_def)
  note k2 = calm_trans [OF n1(4) n2(4)]
  have p2: "m_pending_tasks (cn_loop nd2) = []" using k2 assms(2) by (simp add: calm_def)
  then have q2: "queue_call [] nd2 = nd2" by (simp add: queue_call_def)
  have "serves e3 i (cn_loop nd2)" using calm_serves [OF k2] assms(6) by blast
  then have "call_round e3 k (queue_call [Some (On_Write i)] nd1) = Some (Returns nd2)"
    using call_round_reports [of e3 k "queue_call [Some (On_Write i)] nd1" nd2, OF _ p2 w2] n2(1,5) q1 q2 by (simp add: sock_readable_def)
  then have "call_rounds [e1, e2, e3] k nd = Some (Returns nd2)" using r1 r2 p1(2) assms(3) by simp
  then show ?thesis using n2 k2 same_call_trans [OF n1(3) n2(3)] by blast
qed

lemma client_stop_loop:
  "ev_at (client_stop l) = ev_at l" "el_kernel (client_stop l) = el_kernel l" "m_is_looping l \<Longrightarrow> m_stop_flag (client_stop l)"
proof -
  show "ev_at (client_stop l) = ev_at l"
    by (rule ext) (simp add: client_stop_def loop_stop_def wakeup_def ev_at_def split: ev_ptr.split)
qed (simp_all add: client_stop_def isLooping_def loop_stop_def wakeup_def)

text \<open>Two more when the response has arrived: it is reported, then delivered; the user's closure stops the loop.\<close>

lemma response_ends_loop:
  assumes "awaiting k i nd" "m_pending_tasks (cn_loop nd) = []" "\<not> m_stop_flag (cn_loop nd)" "m_is_looping (cn_loop nd)" "regs_exist (cn_loop nd)"
    and "cn_sock nd = \<lparr>si_chunks = [frame_bytes rsp], si_end = At_Again\<rparr>" "wire_ok rsp" "m_msg_id rsp = m_msg_id (cc_req k)"
    and "\<And>c. channel_conn (cn_channel nd) = Some c \<Longrightarrow> frame_size rsp < free_bytes (m_in_buffer c)"
    and "ch_controller (cn_channel nd) = Some ctl" "\<not> Finished ctl" "ch_closure (cn_channel nd)" "ch_response (cn_channel nd) \<noteq> None"
    and "cc_parse k (m_pb_data rsp) = Some msg" "m_err_code rsp = 0" "serves e4 i (cn_loop nd)" "cc_user k = client_stop"
  shows "\<exists>nd'. call_rounds (e4 # e5 # envs) k nd = Some (Returns nd') \<and> m_stop_flag (cn_loop nd') \<and> ch_response (cn_channel nd') = Some msg \<and>
    ch_runs (cn_channel nd') = ch_runs (cn_channel nd) + 1 \<and> ch_controller (cn_channel nd') = Some (SetFinished True ctl)"
proof -
  let ?q = "queue_call [Some (On_Read i)] nd"
  have w: "watching 1 (Some (On_Read i)) (Some (On_Write i)) i (cn_loop nd)" using assms(1) by (simp add: awaiting_def)
  have q: "queue_call [] nd = nd" using assms(2) by (simp add: queue_call_def)
  have r4: "call_round e4 k nd = Some (Returns ?q)"
    using call_round_reports [of e4 k nd nd, OF _ assms(2) w assms(16)] assms(2,6) q by (simp add: sock_readable_def)
  obtain cl where t: "call_task e5 k (On_Read i) nd = Some (Returns (nd\<lparr>cn_channel := (cn_channel nd)\<lparr>ch_client := cl, ch_response := Some msg,
      ch_runs := ch_runs (cn_channel nd) + 1, ch_controller := Some (SetFinished True ctl)\<rparr>, cn_loop := client_stop (cn_loop nd), cn_sock := idle_sock\<rparr>))"
    using read_step [OF assms(1,6-15), of e5] assms(17) by auto
  let ?nd = "nd\<lparr>cn_channel := (cn_channel nd)\<lparr>ch_client := cl, ch_response := Some msg, ch_runs := ch_runs (cn_channel nd) + 1,
      ch_controller := Some (SetFinished True ctl)\<rparr>, cn_loop := client_stop (cn_loop nd), cn_sock := idle_sock\<rparr>"
  have s: "regs_exist (client_stop (cn_loop nd))" "m_stop_flag (client_stop (cn_loop nd))"
    using assms(4,5) client_stop_loop by (simp_all add: regs_exist_def)
  have "call_tasks e5 k (m_pending_tasks (cn_loop ?q)) (queue_call [] ?q) = Some (Returns ?nd)" using t q by simp
  from call_round_any [OF this] s obtain l where l: "call_round e5 k ?q = Some (Returns (?nd\<lparr>cn_loop := l\<rparr>))" "m_stop_flag l" by auto
  have "call_rounds envs k (?nd\<lparr>cn_loop := l\<rparr>) = Some (Returns (?nd\<lparr>cn_loop := l\<rparr>))" using l(2) by (cases envs) simp_all
  then show ?thesis using r4 l assms(3) by simp
qed

text \<open>When the second of these passes reports no more than the socket, the loop is left as it was but stopped.\<close>

lemma client_stop_keeps:
  "m_listen_fds (client_stop l) = m_listen_fds l" "m_pending_tasks (client_stop l) = m_pending_tasks l" "el_thread_id (client_stop l) = el_thread_id l"
  "el_wakeup_fd (client_stop l) = el_wakeup_fd l" "el_timer (client_stop l) = el_timer l" "el_group (client_stop l) = el_group l"
  by (simp_all add: client_stop_def loop_stop_def wakeup_def)

lemma response_leaves_loop:
  assumes "awaiting k i nd" "m_pending_tasks (cn_loop nd) = []" "\<not> m_stop_flag (cn_loop nd)" "m_is_looping (cn_loop nd)"
    and "cn_sock nd = \<lparr>si_chunks = [frame_bytes rsp], si_end = At_Again\<rparr>" "wire_ok rsp" "m_msg_id rsp = m_msg_id (cc_req k)"
    and "\<And>c. channel_conn (cn_channel nd) = Some c \<Longrightarrow> frame_size rsp < free_bytes (m_in_buffer c)"
    and "ch_controller (cn_channel nd) = Some ctl" "\<not> Finished ctl" "ch_closure (cn_channel nd)" "ch_response (cn_channel nd) \<noteq> None"
    and "cc_parse k (m_pb_data rsp) = Some msg" "m_err_code rsp = 0" "serves e4 i (cn_loop nd)" "serves e5 i (cn_loop nd)" "cc_user k = client_stop"
  shows "\<exists>nd'. call_rounds [e4, e5] k nd = Some (Returns nd') \<and> cn_loop nd' = client_stop (cn_loop nd)"
proof -
  let ?q = "queue_call [Some (On_Read i)] nd"
  have w: "watching 1 (Some (On_Read i)) (Some (On_Write i)) i (cn_loop nd)" using assms(1) by (simp add: awaiting_def)
  have q: "queue_call [] nd = nd" using assms(2) by (simp add: queue_call_def)
  have r4: "call_round e4 k nd = Some (Returns ?q)"
    using call_round_reports [of e4 k nd nd, OF _ assms(2) w assms(15)] assms(2,5) q by (simp add: sock_readable_def)
  obtain nd1 where t: "call_task e5 k (On_Read i) nd = Some (Returns nd1)" "cn_loop nd1 = client_stop (cn_loop nd)" "cn_sock nd1 = idle_sock"
    using read_step [OF assms(1,5-14), of e5] assms(17) by auto
  have w1: "watching 1 (Some (On_Read i)) (Some (On_Write i)) i (cn_loop nd1)" "serves e5 i (cn_loop nd1)" "m_pending_tasks (cn_loop nd1) = []"
    using w assms(2,16) client_stop_loop by (simp_all add: t(2) watching_def serves_def client_stop_keeps)
  have "queue_call [] nd1 = nd1" using w1(3) by (simp add: queue_call_def)
  then have "call_round e5 k ?q = Some (Returns nd1)"
    using call_round_reports [of e5 k ?q nd1, OF _ w1(3,1,2)] t(1,3) q by (simp add: sock_readable_def)
  then show ?thesis using r4 assms(3) t(2) by simp
qed

section \<open>The call as \<open>CallMethod\<close> leaves it\<close>

text \<open>A descriptor that no event has used, and a loop in which a call can begin.\<close>

definition unused_entry :: "nat \<Rightarrow> fd_event_group \<Rightarrow> bool" where
  "unused_entry i g \<longleftrightarrow> (i < length (m_fd_group g) \<longrightarrow> m_fd_group g ! i = Some (Fd_Event_new (int i)))"

definition unused_fd :: "nat \<Rightarrow> event_loop \<Rightarrow> bool" where
  "unused_fd i l \<longleftrightarrow> int i \<notin> m_listen_fds l \<and> el_kernel l (int i) = None \<and> unused_entry i (el_group l)"

definition loop_idle :: "event_loop \<Rightarrow> bool" where
  "loop_idle l \<longleftrightarrow> (m_stop_flag l \<or> \<not> m_is_looping l) \<and> m_pending_tasks l = [] \<and> regs_exist l \<and> group_inv (el_group l)"

lemma aside_unused: "aside i l l' \<Longrightarrow> j \<noteq> i \<Longrightarrow> unused_fd j l \<Longrightarrow> unused_fd j l'"
  by (auto simp: aside_def unused_fd_def unused_entry_def ev_at_def dest: spec [of _ "Group_Event j"] split: if_splits)

lemma aside_group_inv:
  assumes "aside i l l'" "group_inv (el_group l)" "\<exists>e. ev_at l' (Group_Event i) = Some e \<and> fde_fd e = int i"
  shows "group_inv (el_group l')"
proof -
  have "\<exists>e. m_fd_group (el_group l') ! j = Some e \<and> fde_fd e = int j" if "j < length (m_fd_group (el_group l'))" for j
    using assms that by (cases "j = i") (auto simp: aside_def group_inv_def ev_at_def dest: spec [of _ "Group_Event j"] split: if_splits)
  then show ?thesis using assms(1,2) by (simp add: aside_def group_inv_def)
qed

lemma getFdEvent_fresh:
  assumes "group_inv g" "int_ok (3 * int i div 2)" "unused_entry i g"
  shows "\<exists>g'. getFdEvent (int i) g = Some (i, g') \<and> getFdEvent (int i) g' = Some (i, g') \<and> i < length (m_fd_group g') \<and>
    m_fd_group g' ! i = Some (Fd_Event_new (int i)) \<and> take (length (m_fd_group g)) (m_fd_group g') = m_fd_group g \<and>
    group_inv g' \<and> (\<forall>j. unused_entry j g \<longrightarrow> unused_entry j g')"
proof -
  obtain g' where g: "getFdEvent (int i) g = Some (i, g')" "i < length (m_fd_group g')" "take (length (m_fd_group g)) (m_fd_group g') = m_fd_group g"
      "group_inv g'"
    using getFdEvent_entry [OF assms(1) _ assms(2)] by auto
  have u: "unused_entry j g'" if "unused_entry j g" for j
  proof (cases "i < length (m_fd_group g)")
    case True
    then show ?thesis using g(1) that by (auto simp: getFdEvent_def split: if_splits)
  next
    case False
    then have "g' = g\<lparr>m_fd_group := m_fd_group g @ map (\<lambda>i. Some (Fd_Event_new (int i))) [length (m_fd_group g) ..< nat (3 * int i div 2)]\<rparr>"
      using getFdEvent_grows [OF assms(1) _ assms(2)] g(1) by simp
    then show ?thesis using that by (auto simp: unused_entry_def nth_append)
  qed
  have "m_fd_group g' ! i = Some (Fd_Event_new (int i))"
  proof (cases "i < length (m_fd_group g)")
    case True
    then show ?thesis using assms(3) g(3) by (metis nth_take unused_entry_def)
  next
    case False
    then have "g' = g\<lparr>m_fd_group := m_fd_group g @ map (\<lambda>i. Some (Fd_Event_new (int i))) [length (m_fd_group g) ..< nat (3 * int i div 2)]\<rparr>"
      using getFdEvent_grows [OF assms(1) _ assms(2)] g(1) by simp
    then show ?thesis using g(2) False by (simp add: nth_append)
  qed
  then show ?thesis using g u by (auto simp: getFdEvent_def)
qed

definition client_buffer :: tcp_buffer where
  "client_buffer = \<lparr>m_read_index = 0, m_write_index = 0, m_size = 128, m_buffer = replicate 128 NUL\<rparr>"

lemma client_buffer [simp]:
  "TcpBuffer_new 128 = Some client_buffer" "buf_inv client_buffer" "contents client_buffer = []" "free_bytes client_buffer = 128"
  by (simp_all add: client_buffer_def TcpBuffer_new_def buf_inv_def contents_def free_bytes_def)

lemma TcpClient_new_fresh:
  assumes "loop_idle l" "unused_fd i l" "int_ok (3 * int i div 2)"
  shows "\<exists>cl c g. TcpClient_new fd_ok tid flag (int i) (Some peer) l = Some (cl, l\<lparr>m_stop_flag := False, m_is_looping := False, el_group := g\<rparr>) \<and>
    client_of i (ch\<lparr>ch_client := Some cl\<rparr>) cl c \<and> m_write_dones c = [] \<and> m_read_dones c = [] \<and> m_out_buffer c = client_buffer \<and>
    m_in_buffer c = client_buffer \<and> i < length (m_fd_group g) \<and> m_fd_group g ! i = Some (Fd_Event_new (int i)) \<and>
    take (length (m_fd_group (el_group l))) (m_fd_group g) = m_fd_group (el_group l) \<and>
    group_inv g \<and> (\<forall>j. unused_entry j (el_group l) \<longrightarrow> unused_entry j g)"
proof -
  have l: "(if m_stop_flag l then l\<lparr>m_stop_flag := False, m_is_looping := False\<rparr> else l) = l\<lparr>m_stop_flag := False, m_is_looping := False\<rparr>"
    using assms(1) by (cases l) (auto simp: loop_idle_def)
  obtain g where g: "getFdEvent (int i) (el_group l) = Some (i, g)" "getFdEvent (int i) g = Some (i, g)" "i < length (m_fd_group g)"
      "m_fd_group g ! i = Some (Fd_Event_new (int i))" "take (length (m_fd_group (el_group l))) (m_fd_group g) = m_fd_group (el_group l)"
      "group_inv g" "\<forall>j. unused_entry j (el_group l) \<longrightarrow> unused_entry j g"
    using getFdEvent_fresh [of "el_group l" i] assms by (auto simp: loop_idle_def unused_fd_def)
  show ?thesis using g unfolding TcpClient_new_def l
    by (simp add: TcpConnection_new_def setConnectionType_def client_of_def Let_def) blast
qed

text \<open>A new event of the table becomes watched for the end of the connection.\<close>

lemma client_connect_watches:
  assumes "ev_at l (Group_Event i) = Some (Fd_Event_new (int i))" "int i \<notin> m_listen_fds l" "el_kernel l (int i) = None"
    and "fd_ok (int i)" "cli_fd_event cl = i" "\<not> m_is_looping l"
  shows "\<exists>l'. client_connect fd_ok (el_thread_id l) nt sn Conn_In_Progress n cl l = Some (cl, l', Enter_Loop) \<and>
    watching 4 None (Some (Client_Task n)) i l' \<and> calm i l l'"
proof -
  let ?f = "fd_listen (Group_Event i) OUT_EVENT (Some (Client_Task n)) None"
  obtain l1 l' where l': "update_event i ?f l = Some l1" "addEpollEvent fd_ok (el_thread_id l) (Group_Event i) l1 = Some l'"
      "ev_at l' (Group_Event i) = Some (?f (Fd_Event_new (int i)))" "int i \<in> m_listen_fds l'" "calm i l l'"
      "el_kernel l' (int i) = Some (fde_events (?f (Fd_Event_new (int i))), Some (Group_Event i))"
    using relisten [OF assms(1), of fd_ok ?f] assms(2-4) by (auto simp: Fd_Event_new_def fd_listen_def)
  have "watching 4 None (Some (Client_Task n)) i l'"
    using l'(3,4,6) by (simp add: watching_def fd_listen_def Fd_Event_new_def)
  moreover have "\<not> m_is_looping l'" using l'(5) assms(6) by (simp add: calm_def)
  ultimately show ?thesis using l'(1,2,5) assms(5) by (simp add: client_connect_def isLooping_def)
qed

lemma with_timeout_loop:
  "ev_at (with_timeout env te c l) (Group_Event i) = ev_at l (Group_Event i)" "el_kernel (with_timeout env te c l) = el_kernel l"
  "m_listen_fds (with_timeout env te c l) = m_listen_fds l" "el_thread_id (with_timeout env te c l) = el_thread_id l"
  "m_pending_tasks (with_timeout env te c l) = m_pending_tasks l" "m_stop_flag (with_timeout env te c l) = m_stop_flag l"
  "m_is_looping (with_timeout env te c l) = m_is_looping l" "el_wakeup_fd (with_timeout env te c l) = el_wakeup_fd l"
  "fde_fd (el_timer (with_timeout env te c l)) = fde_fd (el_timer l)" "regs_exist l \<Longrightarrow> regs_exist (with_timeout env te c l)"
proof -
  have "ev_at (with_timeout env te c l) p = None \<longleftrightarrow> ev_at l p = None" for p by (simp add: with_timeout_def ev_at_def split: ev_ptr.split)
  then show "regs_exist l \<Longrightarrow> regs_exist (with_timeout env te c l)" by (simp add: regs_exist_def) (simp add: with_timeout_def)
qed (simp_all add: with_timeout_def ev_at_def addTimerEvent_def timer_resetArriveTime_def tick_def Let_def split: list.split)

text \<open>The closures \<open>CallMethod\<close> registers for a request.\<close>

definition closures_of :: "call_env \<Rightarrow> tiny_pb \<Rightarrow> call_closures \<Rightarrow> bool" where
  "closures_of env req k \<longleftrightarrow> cc_req k = req \<and> cc_connect k = ce_connect_task env \<and> cc_timeout k = ce_timeout_task env \<and>
     cc_done_write k = ce_done_write env \<and> cc_verbose k = ce_verbose env"

text \<open>What a call needs of its environment to get as far as its loop: the centre knows the method at \<open>ip:port\<close> and the socket is new.\<close>

definition call_possible :: "call_env \<Rightarrow> string \<Rightarrow> 16 word \<Rightarrow> nat \<Rightarrow> event_loop \<Rightarrow> bool" where
  "call_possible env ip p i l \<longleftrightarrow> atoi (map_index (getServiceCenterMap (ce_globals env)) ''query_port'') \<noteq> None \<and>
     CHR '':'' \<notin> set ip \<and> ip \<noteq> [] \<and> p \<noteq> 0 \<and> ce_net env = net_up (ip @ '':'' @ to_string (uint p)) \<and>
     reply_ok (ip @ '':'' @ to_string (uint p)) \<and> ce_sock env = int i \<and> int_ok (3 * int i div 2) \<and> ce_connect env = Conn_In_Progress \<and>
     ce_fd_ok env (int i) \<and> ce_tid env = el_thread_id l \<and> unused_fd i l \<and> loop_idle l"

lemma CallMethod_connecting:
  assumes "call_possible env ip p i l" "ch_is_init ch" "ch_controller ch = Some c" "choose_msg_id (ce_urandom env) rt ids c = Some (mid, c', ids')"
    and "req = TinyPBProtocol_new\<lparr>m_msg_id := mid, m_method_name := full_name, m_pb_data := pb\<rparr>"
    and "closures_of env req k" "wire_ok req" "frame_size req \<le> 1431655765"
  shows "\<exists>cl l' nd. CallMethod env full_name (True, True, True) (Some pb) te rt ids ch l =
      Some (ch\<lparr>ch_peer_addr := Some (IPNetAddr_of_ip_port (ce_inet_addr env) ip p), ch_client := Some cl, ch_controller := Some c'\<rparr>, l', ids', Call_Loops req) \<and>
    nd = \<lparr>cn_channel = ch\<lparr>ch_peer_addr := Some (IPNetAddr_of_ip_port (ce_inet_addr env) ip p), ch_client := Some cl, ch_controller := Some c'\<rparr>,
      cn_loop = l'\<lparr>m_is_looping := True\<rparr>, cn_sock = idle_sock, cn_sent = []\<rparr> \<and>
    connecting k i nd \<and> m_pending_tasks l' = [] \<and> \<not> m_stop_flag l' \<and> regs_exist (cn_loop nd) \<and> el_wakeup_fd l' = el_wakeup_fd l \<and>
    fde_fd (el_timer l') = fde_fd (el_timer l) \<and> map_option m_in_buffer (channel_conn (cn_channel nd)) = Some client_buffer \<and>
    el_thread_id l' = el_thread_id l \<and> group_inv (el_group l') \<and> (\<forall>j. j \<noteq> i \<longrightarrow> unused_fd j l \<longrightarrow> unused_fd j l')"
proof -
  let ?peer = "IPNetAddr_of_ip_port (ce_inet_addr env) ip p"
  obtain q where env: "atoi (map_index (getServiceCenterMap (ce_globals env)) ''query_port'') = Some q"
      "CHR '':'' \<notin> set ip" "ip \<noteq> []" "p \<noteq> 0" "ce_net env = net_up (ip @ '':'' @ to_string (uint p))" "reply_ok (ip @ '':'' @ to_string (uint p))"
    and e: "ce_sock env = int i" "int_ok (3 * int i div 2)" "ce_connect env = Conn_In_Progress"
      "ce_fd_ok env (int i)" "ce_tid env = el_thread_id l" "unused_fd i l" "loop_idle l"
    using assms(1) by (auto simp: call_possible_def)
  let ?ch = "\<lambda>cl. ch\<lparr>ch_peer_addr := Some ?peer, ch_client := Some cl, ch_controller := Some c'\<rparr>"
  obtain cl cc g where cl: "TcpClient_new (ce_fd_ok env) (ce_tid env) (ce_flag env) (int i) (Some ?peer) l =
      Some (cl, l\<lparr>m_stop_flag := False, m_is_looping := False, el_group := g\<rparr>)" "client_of i (ch\<lparr>ch_client := Some cl\<rparr>) cl cc"
      "m_write_dones cc = []" "m_read_dones cc = []" "m_out_buffer cc = client_buffer" "m_in_buffer cc = client_buffer"
    and g: "i < length (m_fd_group g)" "m_fd_group g ! i = Some (Fd_Event_new (int i))"
      "take (length (m_fd_group (el_group l))) (m_fd_group g) = m_fd_group (el_group l)"
      "group_inv g" "\<forall>j. unused_entry j (el_group l) \<longrightarrow> unused_entry j g"
    using TcpClient_new_fresh [OF e(7,6,2)] by blast
  define l1 where "l1 = l\<lparr>m_stop_flag := False, m_is_looping := False, el_group := g\<rparr>"
  have "ev_at l1 p \<noteq> None" if "ev_at l p \<noteq> None" for p using that g(3) nth_take [of _ _ "m_fd_group g"]
    by (auto simp: l1_def ev_at_def split: ev_ptr.splits if_splits) (metis length_take min_less_iff_conj nth_take)+
  then have r1: "regs_exist l1" using e(7) by (auto simp: regs_exist_def l1_def loop_idle_def)
  let ?l2 = "with_timeout env te c' l1"
  have "ev_at ?l2 (Group_Event i) = Some (Fd_Event_new (int i))" using g(1,2) by (simp add: with_timeout_loop) (simp add: l1_def ev_at_def)
  moreover have "int i \<notin> m_listen_fds ?l2" "el_kernel ?l2 (int i) = None" "\<not> m_is_looping ?l2" "el_thread_id ?l2 = ce_tid env"
    using e(5,6) by (simp_all add: with_timeout_loop l1_def unused_fd_def)
  moreover have "cli_fd_event cl = i" using cl(2) by (simp add: client_of_def)
  ultimately obtain l3 where l3: "client_connect (ce_fd_ok env) (ce_tid env) (ce_inet_ntoa env) (ce_sockname env) (ce_connect env)
      (ce_connect_task env) cl ?l2 = Some (cl, l3, Enter_Loop)" "watching 4 None (Some (Client_Task (ce_connect_task env))) i l3" "calm i ?l2 l3"
    using client_connect_watches [of ?l2 i "ce_fd_ok env" cl "ce_inet_ntoa env" "ce_sockname env" "ce_connect_task env"] e(3,4) by auto
  have n: "\<not> isLooping l3" "m_pending_tasks l3 = []" "\<not> m_stop_flag l3" "regs_exist l3" "el_wakeup_fd l3 = el_wakeup_fd l"
      "fde_fd (el_timer l3) = fde_fd (el_timer l)"
    using l3(3) r1 e(7) by (simp_all add: calm_def isLooping_def with_timeout_loop l1_def loop_idle_def)
  have gr: "el_group ?l2 = g" by (simp add: with_timeout_def l1_def)
  have "el_thread_id l3 = el_thread_id l" using l3(3) by (simp add: calm_def with_timeout_loop l1_def)
  moreover have "group_inv (el_group l3)"
    using aside_group_inv [of i ?l2 l3] l3(2,3) g(4) by (simp add: calm_def watching_def gr)
  moreover have "unused_fd j l3" if "j \<noteq> i" "unused_fd j l" for j
    using aside_unused [of i ?l2 l3 j] l3(3) that g(5) by (simp add: calm_def) (simp add: unused_fd_def with_timeout_loop gr, simp add: l1_def)
  ultimately have later: "el_thread_id l3 = el_thread_id l \<and> group_inv (el_group l3) \<and> (\<forall>j. j \<noteq> i \<longrightarrow> unused_fd j l \<longrightarrow> unused_fd j l3)" by blast
  have m: "CallMethod env full_name (True, True, True) (Some pb) te rt ids ch l = Some (?ch cl, l3, ids', Call_Loops req)"
    using CallMethod_found [OF assms(2-4) env cl(1) [folded l1_def e(1)], of te l3 req pb full_name, OF _ assms(5)] l3(1) n(1) by simp
  have v: "ev_at (l3\<lparr>m_is_looping := True\<rparr>) = ev_at l3" by (rule ext) (simp add: ev_at_def split: ev_ptr.split)
  have co: "client_of i (?ch cl) cl cc" using cl(2) by (simp add: client_of_def)
  have room: "buf_room client_buffer (frame_size req)" using assms(8) by (simp add: buf_room_def client_buffer_def)
  have k: "cc_req k = req" "cc_connect k = ce_connect_task env" using assms(6) by (simp_all add: closures_of_def)
  have "watching 4 None (Some (Client_Task (cc_connect k))) i (l3\<lparr>m_is_looping := True\<rparr>)" using l3(2) v k(2) by (simp add: watching_def)
  moreover have "\<exists>cl' c'. client_of i (?ch cl) cl' c' \<and> m_write_dones c' = [] \<and> m_read_dones c' = [] \<and>
      contents (m_out_buffer c') = [] \<and> buf_room (m_out_buffer c') (frame_size req)"
    using co cl(3-5) room by (intro exI [of _ cl] exI [of _ cc]) simp
  ultimately have "connecting k i \<lparr>cn_channel = ?ch cl, cn_loop = l3\<lparr>m_is_looping := True\<rparr>, cn_sock = idle_sock, cn_sent = []\<rparr>"
    using assms(7) k(1) by (simp add: connecting_def)
  moreover have "channel_conn (?ch cl) = Some cc" using cl(2) by (simp add: channel_conn_def client_of_def)
  ultimately show ?thesis using m n v cl(6) later by (auto simp: regs_exist_def)
qed

section \<open>A call that was given up\<close>

text \<open>Only the user's closure stops a loop.\<close>

lemma epoll_stop:
  "add_to_epoll fd_ok p l = Some l' \<Longrightarrow> m_stop_flag l' = m_stop_flag l" "delete_from_epoll fd_ok p l = Some l' \<Longrightarrow> m_stop_flag l' = m_stop_flag l"
  by (cases "ev_at l p"; auto simp: add_to_epoll_def delete_from_epoll_def case_prod_beta Let_def split: if_splits)+

lemma event_stop:
  "update_event i f l = Some l' \<Longrightarrow> m_stop_flag l' = m_stop_flag l"
  "addEpollEvent fd_ok tid p l = Some l' \<Longrightarrow> m_stop_flag l' = m_stop_flag l"
  "deleteEpollEvent fd_ok tid p l = Some l' \<Longrightarrow> m_stop_flag l' = m_stop_flag l"
proof -
  show "update_event i f l = Some l' \<Longrightarrow> m_stop_flag l' = m_stop_flag l" by (cases "ev_at l (Group_Event i)") (auto simp: update_event_def)
  show "addEpollEvent fd_ok tid p l = Some l' \<Longrightarrow> m_stop_flag l' = m_stop_flag l"
    by (cases "isInLoopThread tid l") (auto simp: addEpollEvent_def epoll_stop)
  show "deleteEpollEvent fd_ok tid p l = Some l' \<Longrightarrow> m_stop_flag l' = m_stop_flag l"
    by (cases "isInLoopThread tid l") (auto simp: deleteEpollEvent_def epoll_stop)
qed

lemma listen_stop:
  "listenWrite fd_ok tid c l = Some l' \<Longrightarrow> m_stop_flag l' = m_stop_flag l" "listenRead fd_ok tid c l = Some l' \<Longrightarrow> m_stop_flag l' = m_stop_flag l"
  by (auto simp: listenWrite_def listenRead_def bind_eq_Some_conv event_stop)

lemma dispatch_stop:
  assumes "dispatch env tid ev l = Some l'"
  shows "m_stop_flag l' = m_stop_flag l"
proof (cases "snd ev")
  case (Some p)
  then obtain e where e: "ev_at l p = Some e" using assms by (auto simp: dispatch_def bind_eq_Some_conv)
  obtain l2 where l2: "dispatch env tid ev l =
      (if fst ev AND EPOLLERR \<noteq> 0 then do {
         s \<leftarrow> deleteEpollEvent (env_fd_ok env) tid p l2;
         if handler ERROR_EVENT e \<noteq> None then Some (addTask (handler OUT_EVENT e) False s) else Some s }
       else Some l2)" "m_stop_flag l2 = m_stop_flag l"
    using dispatch_event [OF Some e] by blast
  show ?thesis using assms l2 event_stop(3) [of "env_fd_ok env" tid p l2]
    by (cases "deleteEpollEvent (env_fd_ok env) tid p l2") (auto split: if_splits)
qed (use assms in \<open>simp add: dispatch_def\<close>)

lemma dispatch_all_stop: "dispatch_all env tid evs l = Some l' \<Longrightarrow> m_stop_flag l' = m_stop_flag l"
  by (induction evs arbitrary: l) (auto simp: bind_eq_Some_conv dest: dispatch_stop)

lemma clear_stop: "clear fd_ok tid c l = Some (c', l') \<Longrightarrow> m_stop_flag l' = m_stop_flag l"
  by (auto simp: clear_def bind_eq_Some_conv event_stop split: if_splits)

lemma rearm_stop:
  assumes "do { l1 \<leftarrow> update_event i f l; addEpollEvent fd_ok tid p l1 } = Some l'"
  shows "m_stop_flag l' = m_stop_flag l"
  using assms by (auto simp: bind_eq_Some_conv dest!: event_stop(1,2))

lemma onWrite_stop:
  assumes "onWrite fd_ok tid ws c l = Some (c', l', bytes, calls)"
  shows "m_stop_flag l' = m_stop_flag l"
proof (cases "conn_state c = Connected")
  case True
  from assms True show ?thesis unfolding onWrite_def
    by (auto simp: bind_eq_Some_conv split del: if_split) (auto split: if_splits dest: rearm_stop)
qed (use assms in \<open>simp add: onWrite_def\<close>)

text \<open>Without services requests change nothing.\<close>

lemma excute_all_no_services: "excute_all fd_ok tid [] ms rt c l = Some (c', l', rt') \<Longrightarrow> l' = l"
  by (induction ms arbitrary: rt c l) (auto simp: rpc_dispatch_def bind_eq_Some_conv Let_def split: option.splits)

lemma excute_stop:
  assumes "excute fd_ok tid [] rt c l = Some (Returns (c', l', rt', calls))"
  shows "l' = l"
proof -
  obtain ms ib where "decode [] (m_in_buffer c) = Some (Returns (ms, ib))"
    using assms by (cases "decode [] (m_in_buffer c)"; cases "the (decode [] (m_in_buffer c))") (auto simp: excute_def)
  then show ?thesis using assms excute_all_no_services
    by (auto simp: excute_def Let_def split: option.splits prod.splits if_splits)
qed

lemma onRead_stop:
  assumes "onRead fd_ok tid [] rt s c l = Some (Returns (c', l', rt', calls))"
  shows "m_stop_flag l' = m_stop_flag l"
proof (cases "conn_state c = Connected")
  case True
  then obtain cl ib s' where r: "onRead_loop (m_in_buffer c) s = Some (Returns (cl, ib, s'))"
    using assms by (cases "onRead_loop (m_in_buffer c) s"; cases "the (onRead_loop (m_in_buffer c) s)") (auto simp: onRead_def)
  show ?thesis
  proof (cases cl)
    case True
    then show ?thesis using r assms \<open>conn_state c = Connected\<close> by (auto simp: onRead_def clear_stop split: option.splits)
  next
    case False
    then show ?thesis using r assms \<open>conn_state c = Connected\<close> by (auto simp: onRead_def dest: excute_stop)
  qed
qed (use assms in \<open>simp add: onRead_def\<close>)

text \<open>The controller is marked finished, the closure has run \<open>n\<close> times, and the loop is running.\<close>

definition given_up :: "nat \<Rightarrow> rpc_channel \<Rightarrow> event_loop \<Rightarrow> bool" where
  "given_up n ch l \<longleftrightarrow> \<not> m_stop_flag l \<and> ch_runs ch = n \<and> (\<exists>c. ch_controller ch = Some c \<and> Finished c)"

lemma given_up_stop: "given_up n ch l \<Longrightarrow> m_stop_flag l' = m_stop_flag l \<Longrightarrow> given_up n ch l'"
  by (simp add: given_up_def)

lemma given_up_client: "given_up n (ch\<lparr>ch_client := cl\<rparr>) l \<longleftrightarrow> given_up n ch l" "given_up n (share_conn c ch) l \<longleftrightarrow> given_up n ch l"
  by (simp_all add: given_up_def share_conn_def)

lemma run_user_same [simp]: "run_user k ch ch l = l"
  by (simp add: run_user_def)

lemma given_up_user: "given_up n ch l \<Longrightarrow> given_up n ch' l \<Longrightarrow> run_user k ch ch' l = l"
  by (simp add: given_up_def run_user_def)

lemma given_up_closures:
  assumes "given_up n ch l"
  shows "callBack ch = Some ch' \<Longrightarrow> ch' = ch" "on_timeout ch = Some ch' \<Longrightarrow> ch' = ch"
    "channel_SetError e r ch = Some ch' \<Longrightarrow> given_up n ch' l"
  using assms by (auto simp: given_up_def callBack_def on_timeout_def channel_SetError_def)

lemma on_response_given_up:
  assumes "given_up n ch l" "on_response v p rsp ch = Some ch'"
  shows "given_up n ch' l"
proof -
  obtain x where x: "log_addrs v ch = Some x" "ch_response ch \<noteq> None"
    using assms(2) by (cases "log_addrs v ch"; cases "ch_response ch") (simp_all add: on_response_def)
  have "\<exists>ch1. given_up n ch1 l \<and> (callBack ch1 = Some ch' \<or> (\<exists>e r ch2. channel_SetError e r ch1 = Some ch2 \<and> callBack ch2 = Some ch'))"
  proof (cases "p (m_pb_data rsp)")
    case None
    then show ?thesis using assms x by (auto simp: on_response_def bind_eq_Some_conv)
  next
    case (Some msg)
    then show ?thesis using assms x
      by (intro exI [of _ "ch\<lparr>ch_response := Some msg\<rparr>"]) (auto simp: on_response_def given_up_def bind_eq_Some_conv Let_def split: if_splits)
  qed
  then show ?thesis using given_up_closures(1,3) by blast
qed

lemma on_sent_given_up:
  assumes "given_up n ch l" "on_sent v fd_ok tid req d ch l = Some (ch', l')"
  shows "given_up n ch' l'"
proof -
  obtain cl cl' where "ch' = ch\<lparr>ch_client := Some cl'\<rparr>" "readMessage fd_ok tid (m_msg_id req) d cl l = Some (cl', l')"
    using assms(2) by (auto simp: on_sent_def bind_eq_Some_conv)
  moreover from this have "m_stop_flag l' = m_stop_flag l" by (auto simp: readMessage_def bind_eq_Some_conv listen_stop)
  ultimately show ?thesis using assms(1) by (simp add: given_up_def)
qed

lemma on_connected_given_up:
  assumes "given_up n ch l" "on_connected v fd_ok tid req d ch l = Some (ch', l')"
  shows "given_up n ch' l'"
proof -
  obtain cl where cl: "ch_client ch = Some cl" using assms(2) by (auto simp: on_connected_def bind_eq_Some_conv)
  show ?thesis
  proof (cases "getConnectErrorCode cl = 0")
    case True
    then obtain cl' where "ch' = ch\<lparr>ch_client := Some cl'\<rparr>" "writeMessage fd_ok tid req d cl l = Some (cl', l')"
      using assms(2) cl by (auto simp: on_connected_def bind_eq_Some_conv)
    moreover from this have "m_stop_flag l' = m_stop_flag l" by (auto simp: writeMessage_def bind_eq_Some_conv listen_stop)
    ultimately show ?thesis using assms(1) by (simp add: given_up_def)
  next
    case False
    then obtain ch1 where "channel_SetError (getConnectErrorCode cl) (getConnectErrorInfo cl) ch = Some ch1" "callBack ch1 = Some ch'" "l' = l"
      using assms(2) cl by (auto simp: on_connected_def bind_eq_Some_conv)
    then show ?thesis using given_up_closures(1,3) assms(1) by blast
  qed
qed

lemma given_up_runs:
  "given_up n ch l \<Longrightarrow> run_responses k calls ch l = Some (ch', l') \<Longrightarrow> given_up n ch' l'"
  "given_up n ch l \<Longrightarrow> run_sents fd_ok tid k calls ch l = Some (ch', l') \<Longrightarrow> given_up n ch' l'"
  "given_up n ch l \<Longrightarrow> run_timeouts k ts ch l = Some (ch', l') \<Longrightarrow> given_up n ch' l'"
proof -
  show "given_up n ch l \<Longrightarrow> run_responses k calls ch l = Some (ch', l') \<Longrightarrow> given_up n ch' l'"
  proof (induction k calls ch l rule: run_responses.induct)
    case (2 k d rsp calls ch l)
    then obtain ch1 where c: "on_response (cc_verbose k) (cc_parse k) rsp ch = Some ch1" "d = cc_done_read k"
        "run_responses k calls ch1 (run_user k ch ch1 l) = Some (ch', l')"
      by (auto simp: bind_eq_Some_conv split: if_splits)
    note g = on_response_given_up [OF 2(2) c(1)]
    then show ?case using 2(1) [OF _ c(1)] c(2,3) given_up_user [OF 2(2) g] by simp
  qed simp
  show "given_up n ch l \<Longrightarrow> run_sents fd_ok tid k calls ch l = Some (ch', l') \<Longrightarrow> given_up n ch' l'"
  proof (induction calls arbitrary: ch l)
    case (Cons call calls)
    then obtain ch1 l1 where "on_sent (cc_verbose k) fd_ok tid (cc_req k) (cc_done_read k) ch l = Some (ch1, l1)"
        "run_sents fd_ok tid k calls ch1 l1 = Some (ch', l')" by (cases call) (auto simp: bind_eq_Some_conv split: if_splits)
    then show ?case using Cons.IH [of ch1 l1] on_sent_given_up [OF Cons.prems(1)] by blast
  qed simp
  show "given_up n ch l \<Longrightarrow> run_timeouts k ts ch l = Some (ch', l') \<Longrightarrow> given_up n ch' l'"
  proof (induction ts arbitrary: ch l)
    case (Cons t ts)
    then obtain ch1 where "on_timeout ch = Some ch1" "run_timeouts k ts ch1 (run_user k ch ch1 l) = Some (ch', l')"
      by (auto simp: bind_eq_Some_conv split: if_splits)
    then show ?case using Cons.IH [of ch l] Cons.prems(1) given_up_closures(2) [OF Cons.prems(1)] by auto
  qed simp
qed

lemma connect_writable_stop:
  assumes "connect_writable fd_ok tid nt sn r new_fd cl l = Some (cl', l')"
  shows "m_stop_flag l' = m_stop_flag l"
proof -
  obtain l1 where "deleteEpollEvent fd_ok tid (Group_Event (cli_fd_event cl')) l1 = Some l'" "m_stop_flag l1 = m_stop_flag l"
    using assms by (auto simp: connect_writable_def bind_eq_Some_conv Let_def)
  then show ?thesis using event_stop(3) by auto
qed

lemma call_task_given_up:
  assumes "given_up n (cn_channel nd) (cn_loop nd)" "call_task env k t nd = Some (Returns nd')"
  shows "given_up n (cn_channel nd') (cn_loop nd')"
proof (cases t)
  case (On_Read i)
  then obtain c c' l rt calls r where c: "channel_conn (cn_channel nd) = Some c"
      "onRead (ne_fd_ok env) (el_thread_id (cn_loop nd)) ([] :: (unit, unit) service_map) RunTime_new (cn_sock nd) c (cn_loop nd) =
        Some (Returns (c', l, rt, calls))"
      "run_responses k calls (share_conn c' (cn_channel nd)) l = Some r" "cn_channel nd' = fst r" "cn_loop nd' = snd r"
    using assms(2) by (auto simp: call_task_def put_call_def Let_def then_outcome_Returns split: option.splits if_splits)
  have "given_up n (share_conn c' (cn_channel nd)) l" using given_up_stop [OF assms(1) onRead_stop [OF c(2)]] by (simp add: given_up_client)
  then show ?thesis using given_up_runs(1) [of n _ l k calls "fst r" "snd r"] c(3-5) by simp
next
  case (On_Write i)
  then obtain c c' l bytes calls r where c: "channel_conn (cn_channel nd) = Some c"
      "onWrite (ne_fd_ok env) (el_thread_id (cn_loop nd)) (ne_writes env i) c (cn_loop nd) = Some (c', l, bytes, calls)"
      "run_sents (ne_fd_ok env) (el_thread_id (cn_loop nd)) k calls (share_conn c' (cn_channel nd)) l = Some r"
      "cn_channel nd' = fst r" "cn_loop nd' = snd r"
    using assms(2) by (auto simp: call_task_def put_call_def Let_def then_outcome_Returns split: option.splits if_splits)
  have "given_up n (share_conn c' (cn_channel nd)) l" using given_up_stop [OF assms(1) onWrite_stop [OF c(2)]] by (simp add: given_up_client)
  then show ?thesis using given_up_runs(2) [of n _ l _ _ k calls "fst r" "snd r"] c(3-5) by simp
next
  case (Client_Task m)
  then obtain r where r: "connect_done env k (cn_channel nd) (cn_loop nd) = Some r" "cn_channel nd' = fst r" "cn_loop nd' = snd r"
    using assms(2) by (auto simp: call_task_def put_call_def Let_def then_outcome_Returns split: if_splits)
  then obtain cl cl' l1 ch2 l2 where s: "connect_writable (ne_fd_ok env) (el_thread_id (cn_loop nd)) (ne_inet_ntoa env) (ne_sockname env)
        (ne_connect env) (ne_new_fd env) cl (cn_loop nd) = Some (cl', l1)"
      "on_connected (cc_verbose k) (ne_fd_ok env) (el_thread_id l1) (cc_req k) (cc_done_write k) ((cn_channel nd)\<lparr>ch_client := Some cl'\<rparr>) l1 = Some (ch2, l2)"
      "r = (ch2, run_user k (cn_channel nd) ch2 l2)"
    by (auto simp: connect_done_def bind_eq_Some_conv)
  have "given_up n ((cn_channel nd)\<lparr>ch_client := Some cl'\<rparr>) l1"
    using given_up_stop [OF assms(1) connect_writable_stop [OF s(1)]] by (simp add: given_up_client)
  from on_connected_given_up [OF this s(2)] have g: "given_up n ch2 l2" .
  then have "run_user k (cn_channel nd) ch2 l2 = l2" using assms(1) by (simp add: run_user_def given_up_def)
  then show ?thesis using g r(2,3) s(3) by simp
next
  case On_Timer
  then obtain tm ts r where "onTimer (ne_clock env) (ne_timer_reads env) (el_timer (cn_loop nd)) = Some (tm, ts)"
      "run_timeouts k ts (cn_channel nd) ((cn_loop nd)\<lparr>el_timer := tm\<rparr>) = Some r" "cn_channel nd' = fst r" "cn_loop nd' = snd r"
    using assms(2) by (auto simp: call_task_def put_call_def Let_def then_outcome_Returns split: option.splits)
  moreover have "given_up n (cn_channel nd) ((cn_loop nd)\<lparr>el_timer := tm\<rparr>)" by (rule given_up_stop [OF assms(1)]) simp
  ultimately show ?thesis using given_up_runs(3) [of n _ _ k ts "fst r" "snd r"] by simp
qed (use assms in \<open>auto simp: call_task_def put_call_def Let_def then_outcome_Returns run_task_def loop_env_of_def given_up_def epoll_stop\<close>)

lemma call_tasks_given_up:
  "call_tasks env k ts nd = Some (Returns nd') \<Longrightarrow> given_up n (cn_channel nd) (cn_loop nd) \<Longrightarrow> given_up n (cn_channel nd') (cn_loop nd')"
  by (induction env k ts nd rule: call_tasks.induct) (auto simp: then_outcome_Returns dest: call_task_given_up)

lemma call_round_given_up:
  assumes "call_round env k nd = Some (Returns nd')" "given_up n (cn_channel nd) (cn_loop nd)"
  shows "given_up n (cn_channel nd') (cn_loop nd')"
proof -
  let ?nd = "nd\<lparr>cn_loop := (cn_loop nd)\<lparr>m_pending_tasks := []\<rparr>\<rparr>"
  obtain nd1 l where r: "call_tasks env k (m_pending_tasks (cn_loop nd)) ?nd = Some (Returns nd1)"
      "dispatch_all (loop_env_of (node_env.truncate env)) (el_thread_id (cn_loop nd1)) (epoll_wait (node_env.truncate env) (call_view nd1)) (cn_loop nd1) = Some l"
      "cn_channel nd' = cn_channel nd1" "cn_loop nd' = l"
    using assms(1) by (auto simp: call_round_def put_call_def then_outcome_Returns)
  have "given_up n (cn_channel ?nd) (cn_loop ?nd)" using assms(2) by (simp add: given_up_def)
  from given_up_stop [OF call_tasks_given_up [OF r(1) this] dispatch_all_stop [OF r(2)]] show ?thesis using r(3,4) by simp
qed

lemma call_rounds_given_up:
  "call_rounds envs k nd = Some (Returns nd') \<Longrightarrow> given_up n (cn_channel nd) (cn_loop nd) \<Longrightarrow> given_up n (cn_channel nd') (cn_loop nd')"
  by (induction envs arbitrary: nd) (auto simp: then_outcome_Returns dest: call_round_given_up split: if_splits)

section \<open>Properties\<close>

lemma quiet_round:
  assumes "m_pending_tasks (cn_loop nd) = []" "ne_order env = []"
  shows "call_round env k nd = Some (Returns nd)"
proof -
  have e: "epoll_wait (node_env.truncate env) v = []" for v using assms(2) by (simp add: epoll_wait_def node_env.truncate_def)
  have "nd\<lparr>cn_loop := (cn_loop nd)\<lparr>m_pending_tasks := []\<rparr>\<rparr> = nd" using assms(1) by simp
  then show ?thesis unfolding call_round_def e using assms(1) by (simp add: lift_outcome_def put_call_def)
qed

lemma quiet_rounds:
  "m_pending_tasks (cn_loop nd) = [] \<Longrightarrow> ne_order env = [] \<Longrightarrow> call_rounds (replicate n env) k nd = Some (Returns nd)"
  by (induction n) (simp_all add: quiet_round)

text \<open>
  C13. A call that times out never returns.  The pass that runs the timeout records the error, but marks the controller
  finished before \<open>callBack\<close> looks at it, so the user's closure, which alone stops the loop, is not run; with nothing to report the
  loop waits for ever, and whatever else happens later, a late response or a connection error among them, the
  closure never runs and the loop that \<open>CallMethod\<close> waits in is never stopped.
\<close>

theorem timed_out_call_never_returns:
  assumes "ch_controller (cn_channel nd) = Some c" "\<not> Finished c" "m_pending_tasks (cn_loop nd) = [Some On_Timer]" "\<not> m_stop_flag (cn_loop nd)"
    and "onTimer (ne_clock env) (ne_timer_reads env) (el_timer (cn_loop nd)) = Some (tm, [cc_timeout k])" "ne_order env = []"
  shows "\<exists>nd'. call_round env k nd = Some (Returns nd') \<and>
    map_option GetErrorCode (ch_controller (cn_channel nd')) = Some ERROR_RPC_CALL_TIMEOUT \<and>
    (\<forall>n. call_rounds (replicate n env) k nd' = Some (Returns nd')) \<and>
    (\<forall>envs nd''. call_rounds envs k nd' = Some (Returns nd'') \<longrightarrow>
       \<not> m_stop_flag (cn_loop nd'') \<and> ch_runs (cn_channel nd'') = ch_runs (cn_channel nd))"
proof -
  define c' where "c' = SetError ERROR_RPC_CALL_TIMEOUT (''rpc call timeout '' @ to_string (GetTimeout c)) (StartCancel c)"
  have c': "Finished c'" "GetErrorCode c' = ERROR_RPC_CALL_TIMEOUT" by (simp_all add: c'_def) (simp add: SetError_def GetErrorCode_def)
  let ?ch = "(cn_channel nd)\<lparr>ch_controller := Some c'\<rparr>" and ?l = "(cn_loop nd)\<lparr>m_pending_tasks := [], el_timer := tm\<rparr>"
  let ?nd = "nd\<lparr>cn_channel := ?ch, cn_loop := ?l\<rparr>"
  have "on_timeout (cn_channel nd) = Some ?ch" using assms(1,2) by (simp add: on_timeout_def callBack_def c'_def)
  then have t: "call_tasks env k (m_pending_tasks (cn_loop nd)) (nd\<lparr>cn_loop := (cn_loop nd)\<lparr>m_pending_tasks := []\<rparr>\<rparr>) = Some (Returns ?nd)"
    using assms(3,5) by (simp add: call_task_def lift_outcome_def put_call_def run_user_def Let_def)
  have e: "?nd\<lparr>cn_loop := (cn_loop ?nd)\<lparr>m_pending_tasks := []\<rparr>\<rparr> = ?nd" "m_pending_tasks (cn_loop ?nd) = []" by simp_all
  then have "call_tasks env k (m_pending_tasks (cn_loop ?nd)) (?nd\<lparr>cn_loop := (cn_loop ?nd)\<lparr>m_pending_tasks := []\<rparr>\<rparr>) = Some (Returns ?nd)"
    by (simp only: e call_tasks.simps(1))
  then have "call_round env k nd = call_round env k ?nd" unfolding call_round_def t by (simp only:)
  then have r: "call_round env k nd = Some (Returns ?nd)" using quiet_round [of ?nd env k] assms(6) by simp
  have g: "given_up (ch_runs (cn_channel nd)) (cn_channel ?nd) (cn_loop ?nd)" using assms(4) c' by (simp add: given_up_def)
  have "\<not> m_stop_flag (cn_loop nd'') \<and> ch_runs (cn_channel nd'') = ch_runs (cn_channel nd)"
    if "call_rounds envs k ?nd = Some (Returns nd'')" for envs nd''
    using call_rounds_given_up [OF that g] by (simp add: given_up_def)
  then show ?thesis using r quiet_rounds [of ?nd env _ k] assms(6)
    by (intro exI [of _ ?nd]) (simp add: c')
qed

definition demo_closures :: call_closures where
  "demo_closures = \<lparr>cc_req = demo_msg, cc_connect = 2, cc_timeout = Client_Task 1, cc_done_write = 3, cc_done_read = 4, cc_verbose = False,
     cc_parse = Some, cc_user = client_stop\<rparr>"

definition demo_call_loop_env :: call_loop_env where
  "demo_call_loop_env = \<lparr>ne_fd_ok = (\<lambda>_. True), ne_clock = int, ne_timer_reads = [Read_Again], ne_timer_ready = False,
     ne_writes = (\<lambda>_. [Wrote 1000]), ne_writable = (\<lambda>_. True), ne_error = (\<lambda>_. False), ne_order = [9], ne_connect = Conn_Is_Connected,
     ne_new_fd = 10, ne_sockname = None, ne_inet_ntoa = (\<lambda>_. ''127.0.0.1'')\<rparr>"

definition demo_due_node :: call_node where
  "demo_due_node = \<lparr>cn_channel = demo_channel, cn_loop = demo_loop\<lparr>m_pending_tasks := [Some On_Timer], el_timer := (Timer_new 5)\<lparr>
     m_pending_events := [(0, 0)], tm_heap := (\<lambda>_. TimerEvent_new 0 0 False (Some (Client_Task 1)))\<rparr>\<rparr>, cn_sock = idle_sock, cn_sent = []\<rparr>"

theorem timed_out_call_never_returns_witness:
  "\<exists>nd'. call_round (demo_call_loop_env\<lparr>ne_order := []\<rparr>) demo_closures demo_due_node = Some (Returns nd') \<and>
    map_option GetErrorCode (ch_controller (cn_channel nd')) = Some ERROR_RPC_CALL_TIMEOUT \<and>
    (\<forall>n. call_rounds (replicate n (demo_call_loop_env\<lparr>ne_order := []\<rparr>)) demo_closures nd' = Some (Returns nd'))"
proof -
  let ?env = "demo_call_loop_env\<lparr>ne_order := []\<rparr>"
  have c: "ch_controller (cn_channel demo_due_node) = Some RpcController_new" "\<not> Finished RpcController_new"
      "m_pending_tasks (cn_loop demo_due_node) = [Some On_Timer]" "\<not> m_stop_flag (cn_loop demo_due_node)" "ne_order ?env = []"
    by (simp_all add: demo_due_node_def demo_loop_eval)
  have "\<exists>tm. onTimer (ne_clock ?env) (ne_timer_reads ?env) (el_timer (cn_loop demo_due_node)) = Some (tm, [cc_timeout demo_closures])"
    by (simp add: demo_call_loop_env_def demo_due_node_def demo_closures_def onTimer_def Timer_new_def TimerEvent_new_def te_resetArriveTime_def fd_listen_def fd_event.defs
        Fd_Event_new_def tick_def Let_def List.map_filter_def)
  then obtain tm where t: "onTimer (ne_clock ?env) (ne_timer_reads ?env) (el_timer (cn_loop demo_due_node)) = Some (tm, [cc_timeout demo_closures])"
    by blast
  from timed_out_call_never_returns [OF c(1-4) t c(5)] show ?thesis by blast
qed

end
