(* ===== verification/Stream_Input.thy ===== *)
theory Stream_Input
  imports Rpc_Dispatcher
begin

text \<open>
  Requests that arrive in fragments.  TCP delivers a stream, so a frame may be split over several reads and a read may
  bring several frames: what \<open>onRead\<close> of \<^verbatim>\<open>net/tcp/tcp_connection.cc\<close> does over a sequence of reads is what it would do
  with whole requests, as long as the bytes fit the buffer and each read ends where the decoder waits (\<open>waiting_tail\<close>).
\<close>

section \<open>Fragments\<close>

text \<open>
  \<open>arrives tail reqs cs\<close>: after the unread bytes \<open>tail\<close> the pieces \<open>cs\<close> complete the frames of \<open>reqs\<close>.  Each piece completes some of them
  and leaves a tail the decoder waits with.
\<close>

inductive arrives :: "byte list \<Rightarrow> tiny_pb list \<Rightarrow> byte list list \<Rightarrow> bool" where
  nothing: "arrives [] [] []"
| piece: "c \<noteq> [] \<Longrightarrow> tail @ c = concat (map frame_bytes now) @ tail' \<Longrightarrow> waiting_tail 1073741823 tail' \<Longrightarrow>
    arrives tail' later cs \<Longrightarrow> arrives tail (now @ later) (c # cs)"

inductive_cases arrivesE: "arrives tail reqs cs"

text \<open>The pieces are read one after the other.\<close>

fun read_pieces ::
    "(int \<Rightarrow> bool) \<Rightarrow> int \<Rightarrow> ('req, 'rsp) service_map \<Rightarrow> byte list list \<Rightarrow> run_time \<Rightarrow> tcp_connection \<Rightarrow> event_loop
       \<Rightarrow> (tcp_connection \<times> event_loop \<times> run_time) outcome option" where
  "read_pieces fd_ok tid smap [] rt c l = Some (Returns (c, l, rt))"
| "read_pieces fd_ok tid smap (bs # cs) rt c l =
     (case onRead fd_ok tid smap rt \<lparr>si_chunks = [bs], si_end = At_Again\<rparr> c l of
        None \<Rightarrow> None
      | Some Undefined \<Rightarrow> Some Undefined
      | Some (Returns (c, l, rt, _)) \<Rightarrow> read_pieces fd_ok tid smap cs rt c l)"

lemma read_one_piece:
  assumes "conn_ready c l" "buf_inv (m_in_buffer c)" "contents (m_in_buffer c) @ bs = concat (map frame_bytes now) @ tail'"
    and "bs \<noteq> []" "length bs < free_bytes (m_in_buffer c)" "waiting_tail lim tail'" "int (length (m_buffer (m_in_buffer c))) + lim \<le> INT_MAX"
    and "\<forall>r \<in> set now. wire_ok r \<and> call_result smap r c = Some (ans r) \<and> wire_ok (response_of r (ans r))"
    and "buf_room (m_out_buffer c) (length (answer_bytes ans now) + n)"
  shows "\<exists>ib ob l' rt'. onRead fd_ok tid smap rt \<lparr>si_chunks = [bs], si_end = At_Again\<rparr> c l =
      Some (Returns (c\<lparr>m_in_buffer := ib, m_out_buffer := ob\<rparr>, l', rt', [])) \<and> conn_ready (c\<lparr>m_in_buffer := ib, m_out_buffer := ob\<rparr>) l' \<and>
    buf_inv ib \<and> contents ib = tail' \<and> length (m_buffer ib) = length (m_buffer (m_in_buffer c)) \<and>
    free_bytes (m_in_buffer c) \<le> free_bytes ib + length bs \<and> contents ob = contents (m_out_buffer c) @ answer_bytes ans now \<and> buf_room ob n"
proof -
  have st: "conn_state c = Connected" "conn_type c = TcpConnectionByServer" using assms(1) by (simp_all add: conn_ready_def)
  obtain ib where ib: "onRead_loop (m_in_buffer c) \<lparr>si_chunks = [bs], si_end = At_Again\<rparr> =
      Some (Returns (False, ib, \<lparr>si_chunks = [], si_end = At_Again\<rparr>))" "buf_inv ib" "contents ib = concat (map frame_bytes now) @ tail'"
      "m_write_index ib < length (m_buffer ib)" "length (m_buffer ib) = length (m_buffer (m_in_buffer c))"
      "free_bytes (m_in_buffer c) \<le> free_bytes ib + length bs"
    using onRead_loop_fits [OF assms(2,5,4)] assms(3) by auto
  obtain ib' where ib': "decode [] ib = Some (Returns (map received now, ib'))" "buf_inv ib'" "contents ib' = tail'"
      "m_write_index ib' \<le> m_write_index ib" "length (m_buffer ib') = length (m_buffer ib)"
    using decode_frames [OF _ ib(2,4,3) assms(6), of "[]"] assms(7,8) ib(5) by auto
  let ?c = "c\<lparr>m_in_buffer := ib'\<rparr>" and ?ans = "\<lambda>r. the (call_result smap r c)"
  have r: "conn_ready ?c l" using assms(1) by (simp add: conn_ready_def)
  have a: "map (\<lambda>r. frame_bytes (response_of r (?ans r))) (map received now) = map (\<lambda>r. frame_bytes (response_of r (ans r))) now"
    using assms(8) by simp
  obtain ob l' rt' where e: "excute_all fd_ok tid smap (map received now) rt ?c l = Some (?c\<lparr>m_out_buffer := ob\<rparr>, l', rt')"
      "conn_ready (?c\<lparr>m_out_buffer := ob\<rparr>) l'" "contents ob = contents (m_out_buffer c) @ answer_bytes ans now" "buf_room ob n"
    using excute_all_ok [OF r, of "map received now" smap ?ans n fd_ok tid rt] assms(8,9) unfolding a by auto
  have "onRead fd_ok tid smap rt \<lparr>si_chunks = [bs], si_end = At_Again\<rparr> c l = Some (Returns (?c\<lparr>m_out_buffer := ob\<rparr>, l', rt', []))"
    using st ib(1) ib'(1) e(1) by (simp add: onRead_def excute_def del: excute_all.simps)
  moreover have "free_bytes (m_in_buffer c) \<le> free_bytes ib' + length bs" using ib(6) ib'(4,5) by (simp add: free_bytes_def)
  ultimately show ?thesis using e(2-4) ib' ib(5) by auto
qed

section \<open>A stream\<close>

text \<open>
  C2. The server's path from bytes to bytes, over a stream.  The frames of a sequence of well-formed requests arrive cut into reads in
  any way (a frame over several reads, several frames in one) in which the bytes fit the free part of the
  input buffer and each read ends where the decoder waits (\<open>waiting_tail\<close>): wherever what is left unread has a byte 0x02 that is followed
  by another, at the start of the unfinished frame or inside it, it is followed by four bytes, and the length they make up (at most
  \<open>2 ^ 30 - 1\<close>) leads behind the unread bytes or to a byte other than 0x03.  Then the reads of the connection all
  return, nothing of the input is left over, and the output buffer holds exactly one response frame per request, in the order of the requests,
  with the request's message id and method name, error code 0 and the serialised response of the service.
\<close>

theorem server_answers_stream:
  assumes "arrives (contents (m_in_buffer c)) reqs cs" "conn_ready c l" "buf_inv (m_in_buffer c)"
    and "length (concat cs) < free_bytes (m_in_buffer c)" "int (length (m_buffer (m_in_buffer c))) \<le> 1073741824"
    and "\<forall>r \<in> set reqs. wire_ok r \<and> call_result smap r c = Some (ans r) \<and> wire_ok (response_of r (ans r))"
    and "buf_room (m_out_buffer c) (length (answer_bytes ans reqs))"
  shows "\<exists>c' l' rt'. read_pieces fd_ok tid smap cs rt c l = Some (Returns (c', l', rt')) \<and> conn_ready c' l' \<and>
    contents (m_in_buffer c') = [] \<and> contents (m_out_buffer c') = contents (m_out_buffer c) @ answer_bytes ans reqs"
  using assms
proof (induction "contents (m_in_buffer c)" reqs cs arbitrary: c l rt rule: arrives.induct)
  case nothing
  then show ?case by simp
next
  case (piece bs now tail' later cs)
  let ?k = "length (answer_bytes ans later)"
  have rm: "buf_room (m_out_buffer c) (length (answer_bytes ans now) + ?k)" using piece.prems(6) by simp
  have now: "\<forall>r \<in> set now. wire_ok r \<and> call_result smap r c = Some (ans r) \<and> wire_ok (response_of r (ans r))"
    using piece.prems(5) by simp
  have sz: "length bs < free_bytes (m_in_buffer c)"
      "int (length (m_buffer (m_in_buffer c))) + 1073741823 \<le> INT_MAX"
    using piece.prems(3,4) by simp_all
  obtain ib ob l1 rt1 where s: "onRead fd_ok tid smap rt \<lparr>si_chunks = [bs], si_end = At_Again\<rparr> c l =
      Some (Returns (c\<lparr>m_in_buffer := ib, m_out_buffer := ob\<rparr>, l1, rt1, []))"
      "conn_ready (c\<lparr>m_in_buffer := ib, m_out_buffer := ob\<rparr>) l1"
      "buf_inv ib" "contents ib = tail'" "length (m_buffer ib) = length (m_buffer (m_in_buffer c))"
      "free_bytes (m_in_buffer c) \<le> free_bytes ib + length bs" "contents ob = contents (m_out_buffer c) @ answer_bytes ans now" "buf_room ob ?k"
    using read_one_piece [OF piece.prems(1,2) piece.hyps(2,1) sz(1) piece.hyps(3) sz(2) now rm] by blast
  let ?c = "c\<lparr>m_in_buffer := ib, m_out_buffer := ob\<rparr>"
  have "\<exists>c' l' rt'. read_pieces fd_ok tid smap cs rt1 ?c l1 = Some (Returns (c', l', rt')) \<and> conn_ready c' l' \<and>
      contents (m_in_buffer c') = [] \<and> contents (m_out_buffer c') = contents (m_out_buffer ?c) @ answer_bytes ans later"
    by (rule piece.hyps(5)) (use s piece.prems(3-5) in \<open>auto\<close>)
  then show ?case using s(1,7) by auto
qed

text \<open>Two frames in two reads, the first cut after seven bytes.\<close>

definition demo_pieces :: "byte list list" where
  "demo_pieces = [take 7 (frame_bytes demo_msg), drop 7 (frame_bytes demo_msg) @ frame_bytes demo_msg]"

lemma demo_pieces_arrive: "arrives [] [demo_msg, demo_msg] demo_pieces"
proof -
  let ?f = "frame_bytes demo_msg"
  have s: "length ?f = 45" by (simp add: frame_size_demo_msg)
  have "arrives [] [] []" by (rule nothing)
  then have "arrives (take 7 ?f) ([demo_msg, demo_msg] @ []) [drop 7 ?f @ ?f]"
    by (rule piece [rotated 3]) (use s in auto)
  moreover have "take 7 ?f \<noteq> []" using s by auto
  ultimately have "arrives [] ([] @ [demo_msg, demo_msg]) [take 7 ?f, drop 7 ?f @ ?f]"
    using piece [of "take 7 ?f" "[]" "[]" "take 7 ?f" "[demo_msg, demo_msg]"] demo_prefix_waits by simp
  then show ?thesis by (simp add: demo_pieces_def)
qed

theorem server_answers_stream_witness:
  "\<exists>c' l' rt'. read_pieces (\<lambda>fd. True) 1 [(''Order'', demo_service)] demo_pieces RunTime_new demo_conn_1k demo_loop =
      Some (Returns (c', l', rt')) \<and> conn_ready c' l' \<and> contents (m_in_buffer c') = [] \<and>
    contents (m_out_buffer c') = contents (m_out_buffer demo_conn_1k) @ answer_bytes m_pb_data [demo_msg, demo_msg]"
proof (rule server_answers_stream)
  show "arrives (contents (m_in_buffer demo_conn_1k)) [demo_msg, demo_msg] demo_pieces"
    using demo_pieces_arrive by (simp add: demo_conn_1k_def demo_buffer_def contents_def)
  show "conn_ready demo_conn_1k demo_loop"
    using demo_conn_ready by (simp add: conn_ready_def demo_conn_1k_def)
  show "buf_inv (m_in_buffer demo_conn_1k)"
    by (simp add: demo_conn_1k_def demo_buffer_def buf_inv_def)
  show "length (concat demo_pieces) < free_bytes (m_in_buffer demo_conn_1k)"
    by (simp add: demo_pieces_def demo_conn_1k_def demo_buffer_def frame_size_demo_msg free_bytes_def)
  show "int (length (m_buffer (m_in_buffer demo_conn_1k))) \<le> 1073741824"
    by (simp add: demo_conn_1k_def demo_buffer_def)
  show "\<forall>r \<in> set [demo_msg, demo_msg]. wire_ok r \<and> call_result [(''Order'', demo_service)] r demo_conn_1k = Some (m_pb_data r) \<and>
      wire_ok (response_of r (m_pb_data r))"
    using demo_call demo_response_ok(1) demo_msg_wire_ok by (simp add: demo_conn_1k_def)
  show "buf_room (m_out_buffer demo_conn_1k) (length (answer_bytes m_pb_data [demo_msg, demo_msg]))"
    by (simp add: demo_conn_1k_def demo_conn_def demo_buffer_def demo_response_ok buf_room_def)
qed

end
