(* ===== verification/System_Call.thy ===== *)
theory System_Call
  imports Call_Loop Stream_Input
begin

text \<open>
  The parts of a call joined: the client's loop with the server's, and before them the registration of the service at the
  discovery centre and the acceptance of the connection.
\<close>

section \<open>Client and IO thread\<close>

text \<open>Bytes arrive at the connection \<open>j\<close> of an IO thread, and at the socket of a call.\<close>

definition arrive :: "nat \<Rightarrow> byte list \<Rightarrow> io_node \<Rightarrow> io_node" where
  "arrive j bytes nd = nd\<lparr>nd_socks := (nd_socks nd)(j := \<lparr>si_chunks = [bytes], si_end = At_Again\<rparr>)\<rparr>"

definition arrive_call :: "byte list \<Rightarrow> call_node \<Rightarrow> call_node" where
  "arrive_call bytes nd = nd\<lparr>cn_sock := \<lparr>si_chunks = [bytes], si_end = At_Again\<rparr>\<rparr>"

text \<open>The loop \<open>l'\<close> a call with descriptor \<open>i\<close> leaves of \<open>l\<close> is good for another call.\<close>

definition ready_again :: "nat \<Rightarrow> event_loop \<Rightarrow> event_loop \<Rightarrow> bool" where
  "ready_again i l l' \<longleftrightarrow> el_thread_id l' = el_thread_id l \<and> el_wakeup_fd l' = el_wakeup_fd l \<and> fde_fd (el_timer l') = fde_fd (el_timer l) \<and>
     loop_idle l' \<and> (\<forall>j. j \<noteq> i \<longrightarrow> unused_fd j l \<longrightarrow> unused_fd j l')"

text \<open>The client's part, from \<open>CallMethod\<close> to the end of its loop.\<close>

lemma client_call:
  assumes "call_possible env ip p i l" "ch_is_init ch" "ch_controller ch = Some c" "choose_msg_id (ce_urandom env) rt ids c = Some (mid, c', ids')"
    and "\<not> Finished c" "ch_closure ch" "ch_response ch \<noteq> None"
    and "req = TinyPBProtocol_new\<lparr>m_msg_id := mid, m_method_name := full_name, m_pb_data := pb\<rparr>"
    and "closures_of env req k" "cc_user k = client_stop" "wire_ok req" "frame_size req \<le> 1431655765"
    and "\<forall>e \<in> {e1, e2, e3}. serves e i l \<and> good_passes k i e" "serves e4 i l"
    and "wire_ok rsp" "m_msg_id rsp = m_msg_id req" "frame_size rsp < 128" "m_err_code rsp = 0" "cc_parse k (m_pb_data rsp) = Some msg"
  shows "\<exists>ch1 l1 nd1 nd2. CallMethod env full_name (True, True, True) (Some pb) te rt ids ch l = Some (ch1, l1, ids', Call_Loops req) \<and>
    call_loop [e1, e2, e3] k ch1 l1 = Some (Returns nd1) \<and> \<not> m_stop_flag (cn_loop nd1) \<and> cn_sent nd1 = frame_bytes req \<and>
    call_rounds [e4, e5] k (arrive_call (frame_bytes rsp) nd1) = Some (Returns nd2) \<and> m_stop_flag (cn_loop nd2) \<and>
    ch_runs (cn_channel nd2) = ch_runs ch + 1 \<and> ch_response (cn_channel nd2) = Some msg \<and>
    ch_controller (cn_channel nd2) = Some (SetFinished True c') \<and> (serves e5 i l \<longrightarrow> ready_again i l (cn_loop nd2))"
proof -
  obtain cl l1 nd where m: "CallMethod env full_name (True, True, True) (Some pb) te rt ids ch l =
      Some (ch\<lparr>ch_peer_addr := Some (IPNetAddr_of_ip_port (ce_inet_addr env) ip p), ch_client := Some cl, ch_controller := Some c'\<rparr>, l1, ids', Call_Loops req)"
    and nd: "nd = \<lparr>cn_channel = ch\<lparr>ch_peer_addr := Some (IPNetAddr_of_ip_port (ce_inet_addr env) ip p), ch_client := Some cl, ch_controller := Some c'\<rparr>,
      cn_loop = l1\<lparr>m_is_looping := True\<rparr>, cn_sock = idle_sock, cn_sent = []\<rparr>"
    and s: "connecting k i nd" "m_pending_tasks l1 = []" "\<not> m_stop_flag l1" "regs_exist (cn_loop nd)" "el_wakeup_fd l1 = el_wakeup_fd l"
      "fde_fd (el_timer l1) = fde_fd (el_timer l)" "map_option m_in_buffer (channel_conn (cn_channel nd)) = Some client_buffer"
      "el_thread_id l1 = el_thread_id l" "group_inv (el_group l1)" "\<forall>j. j \<noteq> i \<longrightarrow> unused_fd j l \<longrightarrow> unused_fd j l1"
    using CallMethod_connecting [OF assms(1-4,8,9,11,12), of te] by (elim exE conjE) metis
  let ?ch1 = "cn_channel nd"
  have sv: "serves e i (cn_loop nd)" if "serves e i l" for e using that s(5,6) by (simp add: serves_def nd)
  obtain nd1 where n1: "call_rounds [e1, e2, e3] k nd = Some (Returns nd1)" "awaiting k i nd1" "same_call nd nd1" "calm i (cn_loop nd) (cn_loop nd1)"
      "cn_sock nd1 = idle_sock" "cn_sent nd1 = frame_bytes (cc_req k)"
    using request_is_sent [OF s(1), of e1 e2 e3] s(2,3) assms(13) sv by (auto simp: nd)
  have req: "cc_req k = req" using assms(9) by (simp add: closures_of_def)
  have l1: "m_pending_tasks (cn_loop nd1) = []" "\<not> m_stop_flag (cn_loop nd1)" "m_is_looping (cn_loop nd1)" "regs_exist (cn_loop nd1)"
    using n1(4) s(2-4) by (simp_all add: calm_def nd)
  obtain cl1 where ch1: "cn_channel nd1 = ?ch1\<lparr>ch_client := cl1\<rparr>" using n1(3) by (auto simp: same_call_def)
  have buf: "frame_size rsp < free_bytes (m_in_buffer c1)" if "channel_conn (cn_channel nd1) = Some c1" for c1
    using that n1(3) s(7) assms(17) by (simp add: same_call_def)
  have fin: "\<not> Finished c'" using assms(5) choose_msg_id_sets [OF assms(4)] by simp
  let ?nd = "arrive_call (frame_bytes rsp) nd1"
  have a: "awaiting k i ?nd" "cn_loop ?nd = cn_loop nd1" "cn_channel ?nd = cn_channel nd1"
    "cn_sock ?nd = \<lparr>si_chunks = [frame_bytes rsp], si_end = At_Again\<rparr>"
    using n1(2) by (simp_all add: arrive_call_def awaiting_def)
  obtain nd2 where n2: "call_rounds [e4, e5] k ?nd = Some (Returns nd2)" "m_stop_flag (cn_loop nd2)" "ch_response (cn_channel nd2) = Some msg"
      "ch_runs (cn_channel nd2) = ch_runs (cn_channel nd1) + 1" "ch_controller (cn_channel nd2) = Some (SetFinished True c')"
    using response_ends_loop [OF a(1), of rsp c' msg e4 e5 "[]"] a(2-4) l1 fin assms(6,7,10,15,16,18,19) req buf calm_serves [OF n1(4) sv] assms(14) ch1
    by (auto simp: nd)
  have again: "ready_again i l (cn_loop nd2)" if e5: "serves e5 i l"
  proof -
    have "cn_loop nd2 = client_stop (cn_loop nd1)"
      using response_leaves_loop [OF a(1), of rsp c' msg e4 e5] a(2-4) l1 fin assms(6,7,10,14-16,18,19) req buf calm_serves [OF n1(4) sv] e5 ch1 n2(1)
      by (auto simp: nd)
    moreover have "aside i (l1\<lparr>m_is_looping := True\<rparr>) (cn_loop nd1)" "el_timer (cn_loop nd1) = el_timer l1" "el_thread_id (cn_loop nd1) = el_thread_id l"
        "el_wakeup_fd (cn_loop nd1) = el_wakeup_fd l1"
      using n1(4) s(8) by (simp_all add: calm_def nd)
    moreover have "group_inv (el_group (cn_loop nd1))"
      by (rule aside_group_inv [OF calculation(2)]) (use s(9) n1(2) in \<open>simp_all add: awaiting_def watching_def\<close>)
    moreover have "unused_fd j (cn_loop nd1)" if "j \<noteq> i" "unused_fd j l" for j
      by (rule aside_unused [OF calculation(2) that(1)]) (use s(10) that in \<open>simp add: unused_fd_def\<close>)
    moreover have "unused_fd j (client_stop m) = unused_fd j m" for j m
      by (simp add: unused_fd_def client_stop_keeps client_stop_loop)
    ultimately show ?thesis using s(5,6) l1(1,3,4) client_stop_loop
      by (simp add: ready_again_def loop_idle_def client_stop_keeps regs_exist_def)
  qed
  have "call_loop [e1, e2, e3] k ?ch1 l1 = Some (Returns nd1)" using n1(1) by (simp add: call_loop_def nd del: call_rounds.simps)
  then show ?thesis using m l1(2) n1(6) n2 req ch1 again by (auto simp: nd)
qed

text \<open>The call and its answer by a connection of an IO thread.\<close>

lemma call_completes:
  assumes "call_possible env ip p i l" "ch_is_init ch" "ch_controller ch = Some c" "choose_msg_id (ce_urandom env) rt ids c = Some (mid, c', ids')"
    and "\<not> Finished c" "ch_closure ch" "ch_response ch \<noteq> None"
    and "req = TinyPBProtocol_new\<lparr>m_msg_id := mid, m_method_name := full_name, m_pb_data := pb\<rparr>"
    and "closures_of env req k" "cc_user k = client_stop" "frame_size req \<le> 1431655765"
    and "\<forall>e \<in> {e1, e2, e3}. serves e i l \<and> good_passes k i e" "serves e4 i l"
    and "watched se [j] nd" "loop_ok nd" "m_pending_tasks (nd_loop nd) = []" "\<not> m_stop_flag (nd_loop nd)"
    and "asks smap req data j (arrive j (frame_bytes req) nd)" "takes_all se j (frame_bytes (response_of req data))"
    and "frame_size (response_of req data) < 128" "cc_parse k data = Some msg"
  shows "\<exists>ch1 l1 nd1 sd nd2. CallMethod env full_name (True, True, True) (Some pb) te rt ids ch l = Some (ch1, l1, ids', Call_Loops req) \<and>
    call_loop [e1, e2, e3] k ch1 l1 = Some (Returns nd1) \<and>
    node_rounds [se, se, se] smap (arrive j (cn_sent nd1) nd) = Some (Returns sd) \<and>
    nd_sent sd = nd_sent nd @ [(j, frame_bytes (response_of req data))] \<and>
    call_rounds [e4, e5] k (arrive_call (snd (last (nd_sent sd))) nd1) = Some (Returns nd2) \<and> m_stop_flag (cn_loop nd2) \<and>
    ch_runs (cn_channel nd2) = ch_runs ch + 1 \<and> ch_response (cn_channel nd2) = Some msg \<and>
    ch_controller (cn_channel nd2) = Some (SetFinished True c')"
proof -
  let ?rsp = "response_of req data" and ?nd = "arrive j (frame_bytes req) nd"
  have w: "wire_ok req" "wire_ok ?rsp" using assms(18) by (simp_all add: asks_def)
  have f: "m_msg_id ?rsp = m_msg_id req" "m_err_code ?rsp = 0" "m_pb_data ?rsp = data" by (simp_all add: response_of_def)
  obtain ch1 l1 nd1 nd2 where c: "CallMethod env full_name (True, True, True) (Some pb) te rt ids ch l = Some (ch1, l1, ids', Call_Loops req)"
      "call_loop [e1, e2, e3] k ch1 l1 = Some (Returns nd1)" "cn_sent nd1 = frame_bytes req"
      "call_rounds [e4, e5] k (arrive_call (frame_bytes ?rsp) nd1) = Some (Returns nd2)" "m_stop_flag (cn_loop nd2)"
      "ch_runs (cn_channel nd2) = ch_runs ch + 1" "ch_response (cn_channel nd2) = Some msg" "ch_controller (cn_channel nd2) = Some (SetFinished True c')"
    using client_call [OF assms(1-10) w(1) assms(11-13) w(2) f(1) assms(20) f(2), of msg te e5] assms(21) f(3) by auto
  have n: "watched se [j] ?nd" "loop_ok ?nd" "m_pending_tasks (nd_loop ?nd) = []" "\<not> m_stop_flag (nd_loop ?nd)" "nd_sent ?nd = nd_sent nd"
    using assms(14-17) by (simp_all add: arrive_def watched_def loop_ok_def)
  obtain sd where "node_rounds [se, se, se] smap ?nd = Some (Returns sd)" "nd_sent sd = nd_sent nd @ [(j, frame_bytes ?rsp)]"
    using three_passes_answer [OF n(1-4), of smap "\<lambda>_. req" "\<lambda>_. data"] assms(18,19) n(5) by auto
  then show ?thesis using c by (intro exI [of _ ch1] exI [of _ l1] exI [of _ nd1] exI [of _ sd] exI [of _ nd2]) simp
qed

section \<open>Registration\<close>

text \<open>What a node has registered is what the centre answers, and the service answers under its own name.\<close>

lemma registered_resolves:
  assumes "registerService control_port nets ip port service smap = Some (smap', msgs)" "\<forall>n. nets n = net_up ''add service success''"
    and "word_ok (svc_full_name service)" "\<forall>x \<in> set (svc_methods service). word_ok x" "x \<in> set (svc_methods service)"
  shows "handle_query (centre_after m msgs) (svc_full_name service @ ''.'' @ x) = ip @ '':'' @ to_string port"
    "map_of smap' (svc_full_name service) = Some service"
proof -
  let ?names = "map (\<lambda>x. svc_full_name service @ ''.'' @ x) (svc_methods service)"
  obtain msgs' where "register_methods nets 0 (svc_full_name service) ip port (svc_methods service) = Some msgs'"
      "\<And>m. centre_after m msgs' = sdr.register_all ?names (ip @ '':'' @ to_string port) m"
    using register_methods_texts [OF assms(2)] by blast
  then have msgs: "centre_after m msgs = sdr.register_all ?names (ip @ '':'' @ to_string port) m"
    and s: "smap' = map_assign (svc_full_name service) service smap"
    using assms(1) by (auto simp: registerService_def Let_def bind_eq_Some_conv)
  have "\<forall>n \<in> set ?names. word_ok n" using assms(3,4) by (auto simp: word_ok_def)
  from sdr.resolve_register_all [OF this]
  have "map_of (centre_after m msgs) (svc_full_name service @ ''.'' @ x) = Some (ip @ '':'' @ to_string port)"
    unfolding msgs using assms(5) by simp
  then show "handle_query (centre_after m msgs) (svc_full_name service @ ''.'' @ x) = ip @ '':'' @ to_string port"
    by (simp add: handle_query_def)
  show "map_of smap' (svc_full_name service) = Some service" by (simp add: s)
qed

text \<open>The service has a method \<open>x\<close> that answers the bytes \<open>pb\<close> with the bytes \<open>data\<close>.\<close>

definition service_answers :: "('req, 'rsp) pb_service \<Rightarrow> string \<Rightarrow> string \<Rightarrow> string \<Rightarrow> bool" where
  "service_answers service x pb data \<longleftrightarrow> CHR ''.'' \<notin> set (svc_full_name service) \<and> x \<in> set (svc_methods service) \<and>
     (\<exists>rq rs. svc_parse service x pb = Some rq \<and> (\<forall>ctl. svc_call service x ctl rq = (rs, True)) \<and> svc_serialize service rs = Some data)"

lemma service_answers_result:
  assumes "service_answers service x pb data" "map_of smap (svc_full_name service) = Some service"
    and "m_method_name req = svc_full_name service @ ''.'' @ x" "m_pb_data req = pb"
  shows "call_result smap req c = Some data"
  using assms parseServiceFullName_dot [of "svc_full_name service" x] by (auto simp: service_answers_def call_result_def)

text \<open>\<open>call_possible\<close> without the answer of the centre.\<close>

definition caller_ready :: "call_env \<Rightarrow> string \<Rightarrow> 16 word \<Rightarrow> nat \<Rightarrow> event_loop \<Rightarrow> bool" where
  "caller_ready env ip p i l \<longleftrightarrow> atoi (map_index (getServiceCenterMap (ce_globals env)) ''query_port'') \<noteq> None \<and>
     CHR '':'' \<notin> set ip \<and> ip \<noteq> [] \<and> host_ok ip \<and> p \<noteq> 0 \<and> ce_sock env = int i \<and> int_ok (3 * int i div 2) \<and>
     ce_connect env = Conn_In_Progress \<and> ce_fd_ok env (int i) \<and> ce_tid env = el_thread_id l \<and> unused_fd i l \<and> loop_idle l"

lemma caller_ready_possible:
  assumes "caller_ready env ip p i l" "ce_net env = net_up (ip @ '':'' @ to_string (uint p))"
  shows "call_possible env ip p i l"
proof -
  have "int_ok (uint p)" unfolding int_ok_def using uint16_range [of p] by (intro conjI) linarith+
  then have "reply_ok (ip @ '':'' @ to_string (uint p))"
    using assms(1) to_string_length [of "uint p"] to_string_no_NUL by (simp add: caller_ready_def reply_ok_def host_ok_def)
  then show ?thesis using assms by (simp add: caller_ready_def call_possible_def)
qed

text \<open>The caller of the examples.\<close>

lemma demo_caller_ready: "caller_ready demo_call_env ''127.0.0.1'' 80 9 demo_loop"
proof -
  have q: "atoi (map_index (getServiceCenterMap (ce_globals demo_call_env)) ''query_port'') = Some 8080"
    by (simp add: demo_call_env_def getServiceCenterMap_def map_index_def talon_eval)
  have "(9 :: int) \<notin> dom (el_kernel demo_loop)" by (simp add: demo_loop_eval(3))
  then have "el_kernel demo_loop 9 = None" by blast
  then have "unused_fd 9 demo_loop" by (simp add: unused_fd_def unused_entry_def demo_loop_eval FdEventGroup_new_def)
  moreover have "regs_exist demo_loop"
    by (auto simp: demo_loop_def Eventloop_new_def demo_sys_loop_def initWakeUpFdEevent_def initTimer_def addEpollEvent_def isInLoopThread_def
        add_to_epoll_def ev_at_def epoll_ctl_def getFd_def getEpollEvent_def fd_listen_def Fd_Event_new_def Timer_new_def fd_event.defs
        regs_exist_def Let_def split: if_splits)
  moreover have "\<not> m_is_looping demo_loop"
    by (simp add: demo_loop_def Eventloop_new_def demo_sys_loop_def initWakeUpFdEevent_def initTimer_def addEpollEvent_def isInLoopThread_def
        add_to_epoll_def ev_at_def case_prod_beta)
  ultimately show ?thesis using q
    by (simp add: caller_ready_def loop_idle_def demo_loop_eval group_inv_new host_ok_def) (simp add: demo_call_env_def int_ok_def)
qed

section \<open>Accepting\<close>

text \<open>The loop of a thread that waits and has never worked on descriptor \<open>fd\<close>; its wake-up descriptor is registered.\<close>

definition thread_ready :: "nat \<Rightarrow> event_loop \<Rightarrow> bool" where
  "thread_ready fd l \<longleftrightarrow> m_pending_tasks l = [] \<and> \<not> m_stop_flag l \<and> group_inv (el_group l) \<and> unused_fd fd l \<and> int_ok (3 * int fd div 2) \<and>
     int fd \<noteq> el_wakeup_fd l \<and> int fd \<noteq> fde_fd (el_timer l) \<and>
     el_kernel l (el_wakeup_fd l) = Some (1, Some Wakeup_Event) \<and> ev_at l Wakeup_Event \<noteq> None"

text \<open>A pass in which only the wake-up descriptor and the new socket can be reported.\<close>

definition accept_pass :: "node_env \<Rightarrow> nat \<Rightarrow> event_loop \<Rightarrow> bool" where
  "accept_pass env fd l \<longleftrightarrow> ne_fd_ok env (int fd) \<and> ne_order env = [el_wakeup_fd l, int fd] \<and> \<not> ne_error env (int fd) \<and>
     \<not> ne_error env (el_wakeup_fd l)"

definition adopt :: "nat \<Rightarrow> fd_event_group \<Rightarrow> event_loop \<Rightarrow> event_loop" where
  "adopt fd g l = l\<lparr>el_group := g\<lparr>m_fd_group := (m_fd_group g)[fd := Some (listening fd)]\<rparr>\<rparr>"

lemma TcpConnection_new_queues:
  assumes "thread_ready fd l" "\<not> isInLoopThread tid l"
  shows "\<exists>c g. TcpConnection_new fd_ok tid flag (int fd) 128 peer loc TcpConnectionByServer l =
      Some (c, addTask (Some (Add_To_Epoll (Group_Event fd))) True (adopt fd g l)) \<and>
    conn_ok fd c \<and> m_in_buffer c = client_buffer \<and> m_out_buffer c = client_buffer \<and> fd < length (m_fd_group g)"
proof -
  obtain g where g: "getFdEvent (int fd) (el_group l) = Some (fd, g)" "fd < length (m_fd_group g)" "m_fd_group g ! fd = Some (Fd_Event_new (int fd))"
    using getFdEvent_fresh [of "el_group l" fd] assms(1) by (auto simp: thread_ready_def unused_fd_def)
  have u: "update_event fd (fd_listen (Group_Event fd) IN_EVENT (Some (On_Read fd)) None) (l\<lparr>el_group := g\<rparr>) = Some (adopt fd g l)"
    using g(2,3) by (simp add: update_event_def ev_at_def adopt_def listening_def)
  have "\<not> isInLoopThread tid (adopt fd g l)" using assms(2) by (simp add: isInLoopThread_def adopt_def)
  then show ?thesis using g(1,2) u
    by (simp add: TcpConnection_new_def listenRead_def addEpollEvent_def conn_ok_def Let_def) blast
qed

lemma accept_queues:
  assumes "server_ok main_tid s" "thread_ready fd (next_loop s)"
  shows "\<exists>c g s'. onAccept fd_ok inet_ntoa main_tid flag (int fd) sa s = Some s' \<and> srv_conns s' = (srv_conns s)(fd \<mapsto> c) \<and>
    thread_loop s' (next_thread s) = addTask (Some (Add_To_Epoll (Group_Event fd))) True (adopt fd g (next_loop s)) \<and>
    conn_ok fd c \<and> conn_state c = Connected \<and> m_in_buffer c = client_buffer \<and> m_out_buffer c = client_buffer \<and> fd < length (m_fd_group g)"
proof -
  let ?g = "srv_threads s" and ?k = "next_thread s" and ?peer = "Some (IPNetAddr_of_sockaddr inet_ntoa (truncated_sockaddr sa))"
  let ?n = "length (m_io_thread_groups ?g)"
  have n: "0 < ?n" "m_index ?g = int (nat (m_index ?g))" "nat (m_index ?g) \<le> ?n" using assms(1) by (auto simp: server_ok_def)
  have th: "getIOThread ?g = Some (?k, ?g\<lparr>m_index := int ?k + 1\<rparr>)"
    using getIOThread_at [OF n(2,3) refl n(1)] by (simp add: next_thread_def)
  have k: "?k < ?n" using n(1) by (simp add: next_thread_def)
  have a: "acceptor_accept inet_ntoa (int fd) sa (srv_acceptor s) = (int fd, ?peer)"
    using assms(1) by (simp add: acceptor_accept_def server_ok_def)
  obtain c g where c: "TcpConnection_new fd_ok main_tid flag (int fd) 128 ?peer (Some (srv_local_addr s)) TcpConnectionByServer (next_loop s) =
      Some (c, addTask (Some (Add_To_Epoll (Group_Event fd))) True (adopt fd g (next_loop s)))" "conn_ok fd c" "m_in_buffer c = client_buffer"
      "m_out_buffer c = client_buffer" "fd < length (m_fd_group g)"
    using TcpConnection_new_queues [OF assms(2)] assms(1) unfolding server_ok_def by blast
  have "conn_fd_event c = fd" using c(2) by (simp add: conn_ok_def)
  then show ?thesis using th k a c
    by (intro exI [of _ "setState Connected c"] exI [of _ g]) (simp add: onAccept_def getEventLoop_def Let_def next_loop_def [symmetric] setState_def conn_ok_def,
       simp add: thread_loop_def update_thread_loop_def getEventLoop_def)
qed

text \<open>The connection has nothing to read or write and is watched for input.\<close>

definition conn_waits :: "nat \<Rightarrow> io_node \<Rightarrow> bool" where
  "conn_waits i nd \<longleftrightarrow> (\<exists>c. nd_conns nd i = Some c \<and> conn_ok i c \<and> conn_state c = Connected \<and>
     m_in_buffer c = client_buffer \<and> m_out_buffer c = client_buffer) \<and> registered 1 i (nd_loop nd)"

lemma two_passes_register:
  assumes "thread_ready fd l" "accept_pass env fd l" "fd < length (m_fd_group g)"
    and "nd_loop nd = addTask (Some (Add_To_Epoll (Group_Event fd))) True (adopt fd g l)" "nd_socks nd fd = idle_sock" "loop_ok nd"
  shows "\<exists>l'. node_rounds [env, env] smap nd = Some (Returns (nd\<lparr>nd_loop := l'\<rparr>)) \<and> registered 1 fd l' \<and> loop_ok (nd\<lparr>nd_loop := l'\<rparr>) \<and>
    m_pending_tasks l' = [] \<and> \<not> m_stop_flag l' \<and> el_wakeup_fd l' = el_wakeup_fd l \<and> fde_fd (el_timer l') = fde_fd (el_timer l)"
proof -
  let ?p = "Group_Event fd" and ?w = "el_wakeup_fd l"
  define l1 where "l1 = (nd_loop nd)\<lparr>m_pending_tasks := []\<rparr>"
  define l2 where "l2 = l1\<lparr>el_kernel := (el_kernel l)(int fd \<mapsto> (1, Some ?p)), m_listen_fds := insert (int fd) (m_listen_fds l)\<rparr>"
  have fields: "el_kernel l1 = el_kernel l" "m_listen_fds l1 = m_listen_fds l" "el_wakeup_fd l1 = ?w" "el_timer l1 = el_timer l"
      "m_stop_flag l1 = m_stop_flag l" "0 < el_eventfd l1" "m_pending_tasks l1 = []" "m_pending_tasks (nd_loop nd) = [Some (Add_To_Epoll ?p)]"
      "m_stop_flag (nd_loop nd) = m_stop_flag l"
    using assms(1) by (simp_all add: l1_def assms(4) addTask_def wakeup_def adopt_def thread_ready_def Let_def)
  have ev: "ev_at l1 ?p = Some (listening fd)" "ev_at l1 Wakeup_Event = ev_at l Wakeup_Event"
    using assms(3) by (simp_all add: l1_def assms(4) addTask_def wakeup_def adopt_def ev_at_def Let_def)
  have li: "fde_fd (listening fd) = int fd" "fde_events (listening fd) = 1" "fde_data (listening fd) = Some ?p" "m_read_callback (listening fd) = Some (On_Read fd)"
    by (simp_all add: listening_def fd_listen_def Fd_Event_new_def Let_def)
  have un: "int fd \<notin> m_listen_fds l" "el_kernel l (int fd) = None" "ne_fd_ok env (int fd)" "int fd \<noteq> ?w"
    using assms(1,2) by (simp_all add: thread_ready_def unused_fd_def accept_pass_def)
  have add: "add_to_epoll (ne_fd_ok env) ?p l1 = Some l2"
    using ev(1) li un fields(1,2) by (simp add: add_to_epoll_def epoll_ctl_def getFd_def getEpollEvent_def l2_def)
  let ?nd2 = "nd\<lparr>nd_loop := l2\<rparr>"
  have t1: "node_tasks env smap (m_pending_tasks (nd_loop nd)) (nd\<lparr>nd_loop := (nd_loop nd)\<lparr>m_pending_tasks := []\<rparr>\<rparr>) = Some (Returns ?nd2)"
    using add unfolding fields(8) l1_def [symmetric] by (simp add: node_task_def run_task_def loop_env_of_def lift_outcome_def)
  have sk: "nd_socks nd fd = idle_sock" "0 < el_eventfd l2" "m_pending_tasks l2 = []" "el_wakeup_fd l2 = ?w" "el_timer l2 = el_timer l"
      "el_kernel l2 ?w = Some (1, Some Wakeup_Event)" "el_kernel l2 (int fd) = Some (1, Some ?p)"
    using assms(1,5) fields un(4) by (simp_all add: l2_def thread_ready_def)
  have ne: "int fd \<noteq> fde_fd (el_timer l)" "ne_order env = [?w, int fd]" "\<not> ne_error env (int fd)" "\<not> ne_error env ?w"
    using assms(1,2) by (simp_all add: thread_ready_def accept_pass_def)
  have rf: "fd_report env (nd\<lparr>nd_loop := l2\<lparr>el_eventfd := n\<rparr>\<rparr>) (int fd) = []" for n
    using sk ne un(4) by (simp add: fd_report_def fd_readable_def sock_readable_def)
  have rw: "fd_report env (nd\<lparr>nd_loop := l2\<lparr>el_eventfd := n\<rparr>\<rparr>) ?w = (if n = 0 then [] else [(1, Some Wakeup_Event)])" for n
    using sk ne un(4) by (simp add: fd_report_def fd_readable_def)
  have ep: "epoll_wait env (nd\<lparr>nd_loop := l2\<lparr>el_eventfd := n\<rparr>\<rparr>) = (if n = 0 then [] else [(1, Some Wakeup_Event)])" for n
    using ne(2) rf rw by (simp add: epoll_wait_def)
  have "l2\<lparr>el_eventfd := el_eventfd l2\<rparr> = l2" by simp
  then have ep2: "epoll_wait env ?nd2 = [(1, Some Wakeup_Event)]" using ep [of "el_eventfd l2"] sk(2) by simp
  obtain e where e: "ev_at l Wakeup_Event = Some e" using assms(1) by (auto simp: thread_ready_def)
  have evs: "ev_at l2 = ev_at (nd_loop nd)" by (rule ext) (simp add: l2_def l1_def ev_at_def split: ev_ptr.split)
  have typed: "events_typed l2" using assms(6) by (simp add: loop_ok_def events_typed_def evs)
  have e2: "ev_at l2 Wakeup_Event = Some e" using ev(2) e by (simp add: l2_def ev_at_def)
  have "m_read_callback e = Some Read_Wakeup_Fd" using events_typed_at [OF typed e2] by (simp add: ev_typed_def)
  then have "dispatch_all (loop_env_of env) (el_thread_id l2) [(1, Some Wakeup_Event)] l2 = Some (l2\<lparr>m_pending_tasks := [Some Read_Wakeup_Fd]\<rparr>)"
    using e2 sk(3) by (simp add: dispatch_def handler_def addTask_def Let_def)
  then have r1: "node_round env smap nd = Some (Returns (nd\<lparr>nd_loop := l2\<lparr>m_pending_tasks := [Some Read_Wakeup_Fd]\<rparr>\<rparr>))"
    unfolding node_round_def t1 using ep2 by (simp add: lift_outcome_def)
  let ?l4 = "l2\<lparr>el_eventfd := 0\<rparr>"
  have "l2\<lparr>m_pending_tasks := []\<rparr> = l2" using sk(3) by simp
  then have r2: "node_round env smap (nd\<lparr>nd_loop := l2\<lparr>m_pending_tasks := [Some Read_Wakeup_Fd]\<rparr>\<rparr>) = Some (Returns (nd\<lparr>nd_loop := ?l4\<rparr>))"
    using ep [of 0] by (simp add: node_round_def node_task_def run_task_def lift_outcome_def)
  have st: "\<not> m_stop_flag (nd_loop nd)" "\<not> m_stop_flag l2" using assms(1) fields(5,9) by (simp_all add: thread_ready_def l2_def)
  have "ev_at ?l4 = ev_at (nd_loop nd)" by (rule ext) (simp add: evs [symmetric] ev_at_def split: ev_ptr.split)
  then have ok: "loop_ok (nd\<lparr>nd_loop := ?l4\<rparr>)" "ev_at ?l4 ?p = Some (listening fd)"
    using assms(6) ev(1) fields(1,2) by (auto simp: loop_ok_def events_typed_def l2_def l1_def assms(4) addTask_def wakeup_def adopt_def ev_at_def Let_def)
  have "registered 1 fd ?l4" using ok(2) li sk(7) by (simp add: registered_def)
  then show ?thesis using r1 r2 st ok(1) sk(3-5) by (intro exI [of _ ?l4]) simp
qed

text \<open>What can happen to a descriptor that a server with idle threads is about to accept.\<close>

definition can_accept :: "int \<Rightarrow> node_env \<Rightarrow> nat \<Rightarrow> server_world \<Rightarrow> bool" where
  "can_accept main_tid env fd w \<longleftrightarrow> fd \<notin> sw_fds w \<and> server_ok main_tid (sw_server w) \<and> thread_ready fd (next_loop (sw_server w)) \<and>
     accept_pass env fd (next_loop (sw_server w)) \<and> sw_socks w fd = idle_sock"

lemma accepted_connection_waits:
  assumes "server_inv main_tid w" "can_accept main_tid env fd w"
  shows "\<exists>s nd. onAccept fd_ok inet_ntoa main_tid flag (int fd) sa (sw_server w) = Some s \<and>
    node_rounds [env, env] smap (node_of (w\<lparr>sw_server := s\<rparr>) (next_thread (sw_server w))) = Some (Returns nd) \<and> conn_waits fd nd \<and> loop_ok nd \<and>
    m_pending_tasks (nd_loop nd) = [] \<and> \<not> m_stop_flag (nd_loop nd) \<and> int fd \<noteq> el_wakeup_fd (nd_loop nd) \<and>
    int fd \<noteq> fde_fd (el_timer (nd_loop nd)) \<and> nd_sent nd = sw_sent w"
proof -
  let ?s = "sw_server w" and ?k = "next_thread (sw_server w)" and ?l = "next_loop (sw_server w)"
  have a: "fd \<notin> sw_fds w" "server_ok main_tid ?s" "thread_ready fd ?l" "accept_pass env fd ?l" "sw_socks w fd = idle_sock"
    using assms(2) by (simp_all add: can_accept_def)
  obtain c g s where c: "onAccept fd_ok inet_ntoa main_tid flag (int fd) sa ?s = Some s" "srv_conns s = (srv_conns ?s)(fd \<mapsto> c)"
      "thread_loop s ?k = addTask (Some (Add_To_Epoll (Group_Event fd))) True (adopt fd g ?l)" "conn_ok fd c" "conn_state c = Connected"
      "m_in_buffer c = client_buffer" "m_out_buffer c = client_buffer" "fd < length (m_fd_group g)"
    using accept_queues [OF a(2,3)] by blast
  let ?nd = "node_of (w\<lparr>sw_server := s\<rparr>) ?k"
  have "?k < thread_count ?s" using a(2) by (simp add: server_ok_def next_thread_def thread_count_def)
  moreover have "thread_count s = thread_count ?s"
    using onAccept_step [OF c(1)] getIOThread_threads by (fastforce simp: thread_count_def)
  ultimately have "loop_ok ?nd" using accept_inv [OF assms(1) a(1) c(1)]
    by (simp add: server_inv_def Let_def loop_inv_def base_inv_def loop_ok_def node_of_def)
  from two_passes_register [OF a(3,4) c(8) _ _ this]
  obtain l' where "node_rounds [env, env] smap ?nd = Some (Returns (?nd\<lparr>nd_loop := l'\<rparr>))" "registered 1 fd l'" "loop_ok (?nd\<lparr>nd_loop := l'\<rparr>)"
      "m_pending_tasks l' = []" "\<not> m_stop_flag l'" "el_wakeup_fd l' = el_wakeup_fd ?l" "fde_fd (el_timer l') = fde_fd (el_timer ?l)"
    using c(3) a(5) by (auto simp: node_of_def)
  then show ?thesis using c(1,2,4-7) a(3) by (intro exI [of _ s] exI [of _ "?nd\<lparr>nd_loop := l'\<rparr>"])
    (simp add: conn_waits_def node_of_def thread_ready_def)
qed

text \<open>A request that arrives there is one the service is asked.\<close>

lemma waiting_conn_asks:
  assumes "conn_waits i nd" "\<And>c. call_result smap req c = Some data" "wire_ok req" "wire_ok (response_of req data)"
    and "frame_size req < 128" "frame_size (response_of req data) < 128"
  shows "asks smap req data i (arrive i (frame_bytes req) nd)"
proof -
  have "m_write_index client_buffer = 0" "length (m_buffer client_buffer) = 128" by (simp_all add: client_buffer_def)
  then show ?thesis using assms by (auto simp: conn_waits_def asks_def arrive_def buf_room_def)
qed

end
