(* ===== verification/High_Avai.thy ===== *)
theory High_Avai
  imports Talon_Prelude
begin

text \<open>
  The supervisor, \<^verbatim>\<open>common/high_availability.h\<close>: \<open>HighAvai::start\<close> forks a child that runs the server, waits for it, and replaces
  the process by a new run of the program with the number of restarts as its argument.  A generation is one
  run of \<open>start\<close>; what \<open>sigaction\<close>, \<open>fork\<close>, \<open>waitpid\<close> and \<open>execvp\<close> do in it is given by a record.
\<close>

section \<open>State\<close>

record high_avai =
  restart_count :: int

definition HighAvai_new :: high_avai where
  "HighAvai_new = \<lparr>restart_count = 5\<rparr>"

definition setRestartCount :: "int \<Rightarrow> high_avai \<Rightarrow> high_avai" where
  "setRestartCount count h = h\<lparr>restart_count := count\<rparr>"

record generation_sys =
  gs_sigaction :: int
  gs_fork :: int
  gs_status :: int
  gs_exec_ok :: bool

datatype start_end = Exits int | Execs "string list"

section \<open>One generation\<close>

text \<open>\<open>current_start_count\<close>: the argument, or the initial value of the static variable.  \<open>None\<close>: too big for \<open>atoi\<close>.\<close>

definition start_count :: "string list \<Rightarrow> int option" where
  "start_count argv = (if 1 < length argv then atoi (argv ! 1) else Some 0)"

text \<open>\<open>sprintf\<close> into ten bytes, the terminator included.\<close>

definition sprintf_count :: "int \<Rightarrow> string option" where
  "sprintf_count n = do { require (int_ok n); require (length (to_string n) < 10); Some (to_string n) }"

text \<open>The result says whether a child ran the server, and how the supervising process ends.\<close>

definition ha_start :: "generation_sys \<Rightarrow> string list \<Rightarrow> high_avai \<Rightarrow> (bool \<times> start_end) option" where
  "ha_start sys argv h = do {
     require (argv \<noteq> []);
     let program_name = argv ! 0;
     current_start_count \<leftarrow> start_count argv;
     if 1 < length argv \<and> current_start_count > restart_count h then Some (False, Exits 2)
     else if gs_sigaction sys = -1 then Some (False, Exits 1)
     else if gs_fork sys = -1 then Some (False, Exits (-1))
     else do {
       str_restart_count \<leftarrow> sprintf_count (current_start_count + 1);
       if gs_exec_ok sys then Some (True, Execs [program_name, str_restart_count])
       else Some (True, Exits 1) } }"

text \<open>\<open>SIGINT\<close> in the supervisor kills the child and exits with 0.\<close>

definition handle_sigint :: "int \<Rightarrow> int \<times> start_end" where
  "handle_sigint child_pid = (child_pid, Exits 0)"

text \<open>
  \<open>SIGCHLD\<close> in the supervisor: children are collected as long as \<open>waitpid\<close> has one that has ended.  The argument is what the
  calls return, the result the children collected.  It may collect the server before the \<open>waitpid\<close> of \<open>start\<close> does, whose status is not looked at.
\<close>

fun handle_sigchld :: "int list \<Rightarrow> int list" where
  "handle_sigchld [] = []"
| "handle_sigchld (pid # pids) = (if pid > 0 then pid # handle_sigchld pids else [])"

section \<open>All generations\<close>

definition generation_measure :: "high_avai \<Rightarrow> string list \<Rightarrow> nat" where
  "generation_measure h argv = (if 1 < length argv then nat (restart_count h + 1 - the (atoi (argv ! 1)))
     else Suc (nat (restart_count h)))"

lemma sprintf_count_atoi: "sprintf_count n = Some t \<Longrightarrow> atoi t = Some n"
  by (auto simp: sprintf_count_def intro!: atoi_to_string split: if_splits)

lemma ha_start_decreases:
  assumes "ha_start sys argv h = Some (b, Execs argv')"
  shows "generation_measure h argv' < generation_measure h argv"
proof -
  obtain n t where n: "start_count argv = Some n" "\<not> (1 < length argv \<and> n > restart_count h)" "sprintf_count (n + 1) = Some t"
      "argv' = [argv ! 0, t]"
    using assms by (auto simp: ha_start_def bind_eq_Some_conv split: if_splits)
  have "generation_measure h argv' = nat (restart_count h - n)"
    using sprintf_count_atoi [OF n(3)] n(4) by (simp add: generation_measure_def)
  then show ?thesis using n(1,2) by (auto simp: generation_measure_def start_count_def split: if_splits)
qed

text \<open>The process with its replacements: the number of servers run and the exit status.\<close>

function ha_run :: "(nat \<Rightarrow> generation_sys) \<Rightarrow> nat \<Rightarrow> string list \<Rightarrow> high_avai \<Rightarrow> (nat \<times> int) option" where
  "ha_run env gen argv h = (case ha_start (env gen) argv h of
     None \<Rightarrow> None
   | Some (served, Exits status) \<Rightarrow> Some (if served then 1 else 0, status)
   | Some (served, Execs argv') \<Rightarrow>
       map_option (\<lambda>(n, status). (if served then n + 1 else n, status)) (ha_run env (Suc gen) argv' h))"
  by pat_completeness auto

termination
  by (relation "measure (\<lambda>(env, gen, argv, h). generation_measure h argv)") (auto intro: ha_start_decreases)

declare ha_run.simps [simp del]

section \<open>Properties\<close>

definition all_ok :: "(nat \<Rightarrow> generation_sys) \<Rightarrow> bool" where
  "all_ok env \<longleftrightarrow> (\<forall>g. gs_sigaction (env g) \<noteq> -1 \<and> gs_fork (env g) \<noteq> -1 \<and> gs_exec_ok (env g))"

lemma length_nat_to_string: "0 < k \<Longrightarrow> n < 10 ^ k \<Longrightarrow> length (nat_to_string n) \<le> k"
proof (induction n arbitrary: k rule: nat_to_string.induct)
  case (1 n)
  show ?case
  proof (cases "n < 10")
    case False
    have "k \<noteq> 1" using False 1(3) by auto
    then obtain j where j: "k = Suc j" "0 < j" using 1(2) by (cases k) auto
    then have "n div 10 < 10 ^ j" using 1(3) by (simp add: div_less_iff_less_mult)
    from 1(1) [OF False j(2) this] show ?thesis using False j(1) by (simp add: nat_to_string.simps [of n])
  qed (use 1 in \<open>simp add: nat_to_string.simps [of n]\<close>)
qed

lemma sprintf_count_fits:
  assumes "0 \<le> n" "n < 1000000000"
  shows "sprintf_count n = Some (to_string n)"
proof -
  have "length (nat_to_string (nat n)) \<le> 9" using length_nat_to_string [of 9 "nat n"] assms by simp
  then show ?thesis using assms by (simp add: sprintf_count_def to_string_def int_ok_def)
qed

lemma ha_run_from:
  assumes "all_ok env" "atoi t = Some c" "0 \<le> c" "restart_count h < 999999999"
  shows "ha_run env gen [p, t] h = Some (nat (restart_count h + 1 - c), 2)"
  using assms(2,3)
proof (induction "nat (restart_count h + 1 - c)" arbitrary: gen t c)
  case 0
  then show ?case by (simp add: ha_run.simps ha_start_def start_count_def)
next
  case (Suc n)
  then have c: "c \<le> restart_count h" by linarith
  then have s: "sprintf_count (c + 1) = Some (to_string (c + 1))" using assms(4) Suc.prems(2) by (intro sprintf_count_fits) simp_all
  have "ha_run env (Suc gen) [p, to_string (c + 1)] h = Some (n, 2)"
    using Suc.hyps(1) [OF _ sprintf_count_atoi [OF s], of "Suc gen"] Suc.hyps(2) Suc.prems(2) by (simp add: algebra_simps)
  then show ?case using assms(1) Suc.prems Suc.hyps(2) c s
    by (simp add: ha_run.simps [of _ gen] ha_start_def start_count_def all_ok_def)
qed

lemma supervisor_restarts:
  assumes "all_ok env" "restart_count h < 999999999"
  shows "ha_run env gen [p] h = Some (nat (restart_count h) + 1, 2)"
proof -
  have s: "sprintf_count 1 = Some (to_string 1)" by (rule sprintf_count_fits) simp_all
  have "ha_run env (Suc gen) [p, to_string 1] h = Some (nat (restart_count h), 2)"
    using ha_run_from [OF assms(1) sprintf_count_atoi [OF s] _ assms(2), of "Suc gen" p] by simp
  then show ?thesis using assms(1) s by (simp add: ha_run.simps [of _ gen] ha_start_def start_count_def all_ok_def)
qed

text \<open>
  C28. The supervisor starts the server once and then as many times as the restart count says, and
  exits with status 2: it gives up after a bounded number of restarts.  The status with which a
  child ends plays no part: a server that returns normally is restarted too.
\<close>

theorem restarts_are_bounded:
  assumes "all_ok env" "restart_count h < 999999999"
  shows "ha_run env gen [p] h = Some (nat (restart_count h) + 1, 2)"
  by (rule supervisor_restarts [OF assms])

theorem restarts_are_bounded_witness:
  "ha_run (\<lambda>g. \<lparr>gs_sigaction = 0, gs_fork = 17, gs_status = 0, gs_exec_ok = True\<rparr>) 0 [''rpc_server''] (setRestartCount 10 HighAvai_new) = Some (11, 2)"
  using restarts_are_bounded [of "\<lambda>g. \<lparr>gs_sigaction = 0, gs_fork = 17, gs_status = 0, gs_exec_ok = True\<rparr>" "setRestartCount 10 HighAvai_new" 0 "''rpc_server''"]
  by (simp add: all_ok_def setRestartCount_def)

end
