(* ===== verification/Order_Pb.thy ===== *)
theory Order_Pb
  imports Tinypb_Coder
begin

text \<open>
  The code \<^verbatim>\<open>protoc\<close> generates for \<^verbatim>\<open>test/order.proto\<close>: the two messages of \<^verbatim>\<open>test/order.pb.{h,cc}\<close> with their
  parsing, serialisation, sizes, merging and copying.  What it calls of the protobuf library is the record
  \<open>pb_runtime\<close>; \<open>pb_runtime_ok\<close> says of it what the protobuf documentation says of the wire format.  A pointer into
  the input with its context is the rest of the input, a null pointer \<open>None\<close>; \<open>ctx->Done\<close> is true at the end
  of the input.  A target pointer is what has been written so far.
\<close>

unbundle bit_operations_syntax

section \<open>The library\<close>

record 'u pb_runtime =
  ReadTag :: "string \<Rightarrow> 32 word \<times> string option"
  ReadVarint32 :: "string \<Rightarrow> int32 \<times> string option"
  InlineGreedyStringParser :: "string \<Rightarrow> string \<times> string option"
  VerifyUTF8 :: "string \<Rightarrow> bool"
  UnknownFieldParse :: "32 word \<Rightarrow> 'u \<Rightarrow> string \<Rightarrow> 'u \<times> string option"
  WriteInt32ToArray :: "nat \<Rightarrow> int32 \<Rightarrow> string"
  WriteStringMaybeAliased :: "nat \<Rightarrow> string \<Rightarrow> string"
  Int32SizePlusOne :: "int32 \<Rightarrow> nat"
  StringSize :: "string \<Rightarrow> nat"
  no_unknown_fields :: 'u
  have_unknown_fields :: "'u \<Rightarrow> bool"
  SerializeUnknownFields :: "'u \<Rightarrow> string"
  UnknownFieldsSize :: "'u \<Rightarrow> nat"
  MergeUnknownFields :: "'u \<Rightarrow> 'u \<Rightarrow> 'u"
  accepts_end :: "string option \<Rightarrow> 32 word \<Rightarrow> bool"
  fits_string :: "nat \<Rightarrow> bool"

section \<open>The messages\<close>

text \<open>The fields the programs use, and the messages with the fields the parser did not know.\<close>

record order_request =
  ord_price :: int32
  ord_goods :: string

record order_response =
  ord_ret_code :: int32
  ord_res_info :: string
  ord_order_id :: string

record 'u request_msg = order_request +
  req_unknown :: 'u

record 'u response_msg = order_response +
  rsp_unknown :: 'u

definition makeOrderRequest_new :: "'u pb_runtime \<Rightarrow> 'u request_msg" where
  "makeOrderRequest_new rt = \<lparr>ord_price = 0, ord_goods = [], req_unknown = no_unknown_fields rt\<rparr>"

definition makeOrderResponse_new :: "'u pb_runtime \<Rightarrow> 'u response_msg" where
  "makeOrderResponse_new rt = \<lparr>ord_ret_code = 0, ord_res_info = [], ord_order_id = [], rsp_unknown = no_unknown_fields rt\<rparr>"

definition request_Clear :: "'u pb_runtime \<Rightarrow> 'u request_msg \<Rightarrow> 'u request_msg" where
  "request_Clear rt m = m\<lparr>ord_goods := [], ord_price := 0, req_unknown := no_unknown_fields rt\<rparr>"

definition response_Clear :: "'u pb_runtime \<Rightarrow> 'u response_msg \<Rightarrow> 'u response_msg" where
  "response_Clear rt m = m\<lparr>ord_res_info := [], ord_order_id := [], ord_ret_code := 0, rsp_unknown := no_unknown_fields rt\<rparr>"

section \<open>Parsing\<close>

text \<open>One turn of the loop of \<open>_InternalParse\<close>: the next field has been read, or the loop is left with a pointer and the last tag.\<close>

datatype 'm parse_turn = Parse_On 'm string | Parse_Left 'm "string option" "32 word"

text \<open>
  Behind \<open>handle_unusual\<close>: a zero tag or the end of a group leaves the loop, another field is kept as unknown.  \<open>set\<close> stores the
  unknown fields \<open>u\<close> of the message.  A null pointer given to the library is \<open>None\<close>.
\<close>

definition handle_unusual ::
    "'u pb_runtime \<Rightarrow> ('u \<Rightarrow> 'm) \<Rightarrow> 'u \<Rightarrow> 32 word \<Rightarrow> string option \<Rightarrow> 'm parse_turn option" where
  "handle_unusual rt set_unknown u tag ptr =
     (if tag = 0 \<or> tag AND 7 = 4
      then Some (case ptr of None \<Rightarrow> Parse_Left (set_unknown u) None 0 | Some s \<Rightarrow> Parse_Left (set_unknown u) (Some s) tag)
      else do {
        s \<leftarrow> ptr;
        let (u, ptr) = UnknownFieldParse rt tag u s;
        Some (case ptr of None \<Rightarrow> Parse_Left (set_unknown u) None 0 | Some s \<Rightarrow> Parse_On (set_unknown u) s) })"

text \<open>A field of the two kinds the messages have: \<open>CHK_\<close> leaves the loop with a null pointer.\<close>

definition parse_int_field :: "'u pb_runtime \<Rightarrow> (int32 \<Rightarrow> 'm) \<Rightarrow> string option \<Rightarrow> 'm parse_turn option" where
  "parse_int_field rt set_field ptr = do {
     s \<leftarrow> ptr;
     let (v, ptr) = ReadVarint32 rt s;
     Some (case ptr of None \<Rightarrow> Parse_Left (set_field v) None 0 | Some s \<Rightarrow> Parse_On (set_field v) s) }"

definition parse_string_field :: "'u pb_runtime \<Rightarrow> (string \<Rightarrow> 'm) \<Rightarrow> string option \<Rightarrow> 'm parse_turn option" where
  "parse_string_field rt set_field ptr = do {
     s \<leftarrow> ptr;
     let (str, ptr) = InlineGreedyStringParser rt s;
     Some (if \<not> VerifyUTF8 rt str then Parse_Left (set_field str) None 0
       else case ptr of None \<Rightarrow> Parse_Left (set_field str) None 0 | Some s \<Rightarrow> Parse_On (set_field str) s) }"

definition request_turn :: "'u pb_runtime \<Rightarrow> 'u request_msg \<Rightarrow> string \<Rightarrow> 'u request_msg parse_turn option" where
  "request_turn rt m s =
     (let (tag, ptr) = ReadTag rt s; unusual = handle_unusual rt (\<lambda>u. m\<lparr>req_unknown := u\<rparr>) (req_unknown m) tag ptr in
      if drop_bit 3 tag = 1 then
        (if tag AND 255 = 8 then parse_int_field rt (\<lambda>v. m\<lparr>ord_price := v\<rparr>) ptr else unusual)
      else if drop_bit 3 tag = 2 then
        (if tag AND 255 = 18 then parse_string_field rt (\<lambda>str. m\<lparr>ord_goods := str\<rparr>) ptr else unusual)
      else unusual)"

definition response_turn :: "'u pb_runtime \<Rightarrow> 'u response_msg \<Rightarrow> string \<Rightarrow> 'u response_msg parse_turn option" where
  "response_turn rt m s =
     (let (tag, ptr) = ReadTag rt s; unusual = handle_unusual rt (\<lambda>u. m\<lparr>rsp_unknown := u\<rparr>) (rsp_unknown m) tag ptr in
      if drop_bit 3 tag = 1 then
        (if tag AND 255 = 8 then parse_int_field rt (\<lambda>v. m\<lparr>ord_ret_code := v\<rparr>) ptr else unusual)
      else if drop_bit 3 tag = 2 then
        (if tag AND 255 = 18 then parse_string_field rt (\<lambda>str. m\<lparr>ord_res_info := str\<rparr>) ptr else unusual)
      else if drop_bit 3 tag = 3 then
        (if tag AND 255 = 26 then parse_string_field rt (\<lambda>str. m\<lparr>ord_order_id := str\<rparr>) ptr else unusual)
      else unusual)"

text \<open>The loop.  \<open>None\<close>: it does not end, because the library's parsers consume nothing.\<close>

partial_function (option) parse_loop ::
    "('m \<Rightarrow> string \<Rightarrow> 'm parse_turn option) \<Rightarrow> 'm \<Rightarrow> string \<Rightarrow> ('m \<times> string option \<times> 32 word) outcome option" where
  "parse_loop turn m s =
     (if s = [] then Some (Returns (m, Some [], 0))
      else case turn m s of
        None \<Rightarrow> Some Undefined
      | Some (Parse_Left m ptr tag) \<Rightarrow> Some (Returns (m, ptr, tag))
      | Some (Parse_On m s) \<Rightarrow> parse_loop turn m s)"

definition request_InternalParse ::
    "'u pb_runtime \<Rightarrow> 'u request_msg \<Rightarrow> string \<Rightarrow> ('u request_msg \<times> string option \<times> 32 word) outcome option" where
  "request_InternalParse rt = parse_loop (request_turn rt)"

definition response_InternalParse ::
    "'u pb_runtime \<Rightarrow> 'u response_msg \<Rightarrow> string \<Rightarrow> ('u response_msg \<times> string option \<times> 32 word) outcome option" where
  "response_InternalParse rt = parse_loop (response_turn rt)"

section \<open>Serialising\<close>

definition request_InternalSerialize :: "'u pb_runtime \<Rightarrow> 'u request_msg \<Rightarrow> string" where
  "request_InternalSerialize rt m =
     (let target = (if ord_price m \<noteq> 0 then WriteInt32ToArray rt 1 (ord_price m) else []);
          target = (if ord_goods m \<noteq> [] then target @ WriteStringMaybeAliased rt 2 (ord_goods m) else target)
      in if have_unknown_fields rt (req_unknown m) then target @ SerializeUnknownFields rt (req_unknown m) else target)"

definition response_InternalSerialize :: "'u pb_runtime \<Rightarrow> 'u response_msg \<Rightarrow> string" where
  "response_InternalSerialize rt m =
     (let target = (if ord_ret_code m \<noteq> 0 then WriteInt32ToArray rt 1 (ord_ret_code m) else []);
          target = (if ord_res_info m \<noteq> [] then target @ WriteStringMaybeAliased rt 2 (ord_res_info m) else target);
          target = (if ord_order_id m \<noteq> [] then target @ WriteStringMaybeAliased rt 3 (ord_order_id m) else target)
      in if have_unknown_fields rt (rsp_unknown m) then target @ SerializeUnknownFields rt (rsp_unknown m) else target)"

definition request_ByteSizeLong :: "'u pb_runtime \<Rightarrow> 'u request_msg \<Rightarrow> nat" where
  "request_ByteSizeLong rt m =
     (let total_size = (if ord_goods m \<noteq> [] then 1 + StringSize rt (ord_goods m) else 0);
          total_size = (if ord_price m \<noteq> 0 then total_size + Int32SizePlusOne rt (ord_price m) else total_size)
      in if have_unknown_fields rt (req_unknown m) then total_size + UnknownFieldsSize rt (req_unknown m) else total_size)"

definition response_ByteSizeLong :: "'u pb_runtime \<Rightarrow> 'u response_msg \<Rightarrow> nat" where
  "response_ByteSizeLong rt m =
     (let total_size = (if ord_res_info m \<noteq> [] then 1 + StringSize rt (ord_res_info m) else 0);
          total_size = (if ord_order_id m \<noteq> [] then total_size + (1 + StringSize rt (ord_order_id m)) else total_size);
          total_size = (if ord_ret_code m \<noteq> 0 then total_size + Int32SizePlusOne rt (ord_ret_code m) else total_size)
      in if have_unknown_fields rt (rsp_unknown m) then total_size + UnknownFieldsSize rt (rsp_unknown m) else total_size)"

section \<open>Merging and copying\<close>

definition request_MergeFrom :: "'u pb_runtime \<Rightarrow> 'u request_msg \<Rightarrow> 'u request_msg \<Rightarrow> 'u request_msg" where
  "request_MergeFrom rt from_m m =
     (let m = (if ord_goods from_m \<noteq> [] then m\<lparr>ord_goods := ord_goods from_m\<rparr> else m);
          m = (if ord_price from_m \<noteq> 0 then m\<lparr>ord_price := ord_price from_m\<rparr> else m)
      in m\<lparr>req_unknown := MergeUnknownFields rt (req_unknown m) (req_unknown from_m)\<rparr>)"

definition response_MergeFrom :: "'u pb_runtime \<Rightarrow> 'u response_msg \<Rightarrow> 'u response_msg \<Rightarrow> 'u response_msg" where
  "response_MergeFrom rt from_m m =
     (let m = (if ord_res_info from_m \<noteq> [] then m\<lparr>ord_res_info := ord_res_info from_m\<rparr> else m);
          m = (if ord_order_id from_m \<noteq> [] then m\<lparr>ord_order_id := ord_order_id from_m\<rparr> else m);
          m = (if ord_ret_code from_m \<noteq> 0 then m\<lparr>ord_ret_code := ord_ret_code from_m\<rparr> else m)
      in m\<lparr>rsp_unknown := MergeUnknownFields rt (rsp_unknown m) (rsp_unknown from_m)\<rparr>)"

text \<open>\<open>same\<close>: the two objects are one.\<close>

definition request_CopyFrom :: "'u pb_runtime \<Rightarrow> bool \<Rightarrow> 'u request_msg \<Rightarrow> 'u request_msg \<Rightarrow> 'u request_msg" where
  "request_CopyFrom rt same from_m m = (if same then m else request_MergeFrom rt from_m (request_Clear rt m))"

definition response_CopyFrom :: "'u pb_runtime \<Rightarrow> bool \<Rightarrow> 'u response_msg \<Rightarrow> 'u response_msg \<Rightarrow> 'u response_msg" where
  "response_CopyFrom rt same from_m m = (if same then m else response_MergeFrom rt from_m (response_Clear rt m))"

section \<open>The strings of the other code\<close>

text \<open>
  \<open>ParseFromString\<close> and \<open>SerializeToString\<close> of the library with the virtual functions above: a message is cleared and parsed and is good when
  \<open>accepts_end\<close> accepts how its parse ended; it is serialised when \<open>fits_string\<close> accepts its size.
\<close>

definition request_ParseFromString :: "'u pb_runtime \<Rightarrow> string \<Rightarrow> 'u request_msg \<Rightarrow> ('u request_msg \<times> bool) outcome option" where
  "request_ParseFromString rt data m = map_option (map_outcome (\<lambda>(m, ptr, tag). (m, accepts_end rt ptr tag)))
     (request_InternalParse rt (request_Clear rt m) data)"

definition response_ParseFromString :: "'u pb_runtime \<Rightarrow> string \<Rightarrow> 'u response_msg \<Rightarrow> ('u response_msg \<times> bool) outcome option" where
  "response_ParseFromString rt data m = map_option (map_outcome (\<lambda>(m, ptr, tag). (m, accepts_end rt ptr tag)))
     (response_InternalParse rt (response_Clear rt m) data)"

definition request_SerializeToString :: "'u pb_runtime \<Rightarrow> 'u request_msg \<Rightarrow> string option" where
  "request_SerializeToString rt m = (if fits_string rt (request_ByteSizeLong rt m) then Some (request_InternalSerialize rt m) else None)"

definition response_SerializeToString :: "'u pb_runtime \<Rightarrow> 'u response_msg \<Rightarrow> string option" where
  "response_SerializeToString rt m = (if fits_string rt (response_ByteSizeLong rt m) then Some (response_InternalSerialize rt m) else None)"

section \<open>What the library promises\<close>

text \<open>
  The wire format: a field is read back as it was written, a tag being the field's number and wire type; the sizes are
  those of what is written; ASCII text is UTF-8; the unknown fields of a new message are none.  The parsers consume input or
  return a null pointer, with the tag 0 for a tag that cannot be read.
\<close>

definition writes_back :: "'u pb_runtime \<Rightarrow> bool" where
  "writes_back rt \<longleftrightarrow>
     (\<forall>v s. \<exists>bs. ReadTag rt (WriteInt32ToArray rt 1 v @ s) = (8, Some bs) \<and> ReadVarint32 rt bs = (v, Some s)) \<and>
     (\<forall>str s. length str \<le> 2 ^ 30 \<longrightarrow>
        (\<exists>bs. ReadTag rt (WriteStringMaybeAliased rt 2 str @ s) = (18, Some bs) \<and> InlineGreedyStringParser rt bs = (str, Some s)) \<and>
        (\<exists>bs. ReadTag rt (WriteStringMaybeAliased rt 3 str @ s) = (26, Some bs) \<and> InlineGreedyStringParser rt bs = (str, Some s)))"

definition sizes_written :: "'u pb_runtime \<Rightarrow> bool" where
  "sizes_written rt \<longleftrightarrow> (\<forall>v. Int32SizePlusOne rt v = length (WriteInt32ToArray rt 1 v) \<and> WriteInt32ToArray rt 1 v \<noteq> []) \<and>
     (\<forall>f \<in> {2, 3}. \<forall>str. 1 + StringSize rt str = length (WriteStringMaybeAliased rt f str)) \<and>
     (\<forall>u. UnknownFieldsSize rt u = length (SerializeUnknownFields rt u))"

definition parsers_consume :: "'u pb_runtime \<Rightarrow> bool" where
  "parsers_consume rt \<longleftrightarrow>
     (\<forall>s. case ReadTag rt s of (tag, None) \<Rightarrow> tag = 0 | (_, Some r) \<Rightarrow> length r < length s) \<and>
     (\<forall>s v r. ReadVarint32 rt s = (v, Some r) \<longrightarrow> length r \<le> length s) \<and>
     (\<forall>s str r. InlineGreedyStringParser rt s = (str, Some r) \<longrightarrow> length r \<le> length s) \<and>
     (\<forall>tag u s u' r. UnknownFieldParse rt tag u s = (u', Some r) \<longrightarrow> length r \<le> length s)"

definition pb_runtime_ok :: "'u pb_runtime \<Rightarrow> bool" where
  "pb_runtime_ok rt \<longleftrightarrow> writes_back rt \<and> sizes_written rt \<and> parsers_consume rt \<and>
     \<not> have_unknown_fields rt (no_unknown_fields rt) \<and> (\<forall>u. MergeUnknownFields rt u (no_unknown_fields rt) = u) \<and>
     accepts_end rt (Some []) 0 \<and> (\<forall>tag. \<not> accepts_end rt None tag) \<and>
     (\<forall>str. (\<forall>c \<in> set str. of_char c < (128 :: nat)) \<longrightarrow> VerifyUTF8 rt str) \<and> (\<forall>n. fits_string rt n \<longleftrightarrow> n < 2 ^ 31)"

lemma runtime_laws:
  assumes "pb_runtime_ok rt"
  shows "writes_back rt" "sizes_written rt" "parsers_consume rt" "\<not> have_unknown_fields rt (no_unknown_fields rt)"
    "MergeUnknownFields rt u (no_unknown_fields rt) = u" "accepts_end rt (Some []) 0" "\<not> accepts_end rt None tag"
    "(\<And>c. c \<in> set str \<Longrightarrow> of_char c < (128 :: nat)) \<Longrightarrow> VerifyUTF8 rt str" "fits_string rt n \<longleftrightarrow> n < 2 ^ 31"
  using assms by (simp_all add: pb_runtime_ok_def)

section \<open>Every parse returns\<close>

definition turn_shrinks :: "('m \<Rightarrow> string \<Rightarrow> 'm parse_turn option) \<Rightarrow> bool" where
  "turn_shrinks turn \<longleftrightarrow> (\<forall>m s. s \<noteq> [] \<longrightarrow>
     (case turn m s of None \<Rightarrow> False | Some (Parse_On _ r) \<Rightarrow> length r < length s | Some (Parse_Left _ _ _) \<Rightarrow> True))"

lemma parse_loop_returns: "turn_shrinks turn \<Longrightarrow> \<exists>m' ptr tag. parse_loop turn m s = Some (Returns (m', ptr, tag))"
proof (induction s arbitrary: m rule: length_induct)
  case (1 s)
  show ?case
  proof (cases "s = []")
    case False
    then show ?thesis using 1
      by (subst parse_loop.simps) (auto simp: turn_shrinks_def split: option.splits parse_turn.splits; metis not_less_iff_gr_or_eq)
  qed (simp add: parse_loop.simps)
qed

text \<open>The parts of a turn leave less than \<open>s\<close>, given what \<open>ReadTag\<close> has left of it.\<close>

definition shrinks :: "string \<Rightarrow> 'm parse_turn option \<Rightarrow> bool" where
  "shrinks s t \<longleftrightarrow> (case t of None \<Rightarrow> False | Some (Parse_On _ r) \<Rightarrow> length r < length s | Some (Parse_Left _ _ _) \<Rightarrow> True)"

lemma fields_shrink:
  assumes "pb_runtime_ok rt" "ReadTag rt s = (tag, ptr)"
  shows "tag \<noteq> 0 \<Longrightarrow> shrinks s (parse_int_field rt f ptr)" "tag \<noteq> 0 \<Longrightarrow> shrinks s (parse_string_field rt g ptr)"
    "shrinks s (handle_unusual rt h u tag ptr)"
proof -
  note c = runtime_laws(3) [OF assms(1), unfolded parsers_consume_def]
  have p: "if ptr = None then tag = 0 else length (the ptr) < length s"
    using c assms(2) by (auto dest: spec [of _ s] split: option.splits)
  show "tag \<noteq> 0 \<Longrightarrow> shrinks s (parse_int_field rt f ptr)"
    using c p by (fastforce simp: shrinks_def parse_int_field_def split: option.splits prod.splits if_splits)
  show "tag \<noteq> 0 \<Longrightarrow> shrinks s (parse_string_field rt g ptr)"
    using c p by (fastforce simp: shrinks_def parse_string_field_def split: option.splits prod.splits if_splits)
  show "shrinks s (handle_unusual rt h u tag ptr)"
    using c p by (fastforce simp: shrinks_def handle_unusual_def split: option.splits prod.splits if_splits)
qed

lemma turns_shrink:
  assumes "pb_runtime_ok rt"
  shows "turn_shrinks (request_turn rt)" "turn_shrinks (response_turn rt)"
proof -
  have "shrinks s (request_turn rt m s)" for m s
  proof -
    obtain tag ptr where r: "ReadTag rt s = (tag, ptr)" by fastforce
    note f = fields_shrink [OF assms r]
    have z: "tag = 0 \<Longrightarrow> shrinks s (handle_unusual rt h u 0 ptr)" for h u using f(3) by simp
    show ?thesis using r by (cases "tag = 0") (simp_all add: request_turn_def Let_def f z)
  qed
  then show "turn_shrinks (request_turn rt)" by (simp add: turn_shrinks_def shrinks_def)
  have "shrinks s (response_turn rt m s)" for m s
  proof -
    obtain tag ptr where r: "ReadTag rt s = (tag, ptr)" by fastforce
    note f = fields_shrink [OF assms r]
    have z: "tag = 0 \<Longrightarrow> shrinks s (handle_unusual rt h u 0 ptr)" for h u using f(3) by simp
    show ?thesis using r by (cases "tag = 0") (simp_all add: response_turn_def Let_def f z)
  qed
  then show "turn_shrinks (response_turn rt)" by (simp add: turn_shrinks_def shrinks_def)
qed

text \<open>
  Parsing a message returns, whatever the bytes: no input makes the generated parsers loop or touch a null pointer, so the dispatcher
  and the channel always get a message or the news that there is none.
\<close>

theorem message_parsing_returns:
  assumes "pb_runtime_ok rt"
  shows "(\<exists>m' ok. request_ParseFromString rt data m = Some (Returns (m', ok))) \<and>
    (\<exists>r' ok. response_ParseFromString rt data r = Some (Returns (r', ok)))"
proof -
  obtain m' p k where "request_InternalParse rt (request_Clear rt m) data = Some (Returns (m', p, k))"
    using parse_loop_returns [OF turns_shrink(1) [OF assms]] unfolding request_InternalParse_def by metis
  moreover obtain r' p k where "response_InternalParse rt (response_Clear rt r) data = Some (Returns (r', p, k))"
    using parse_loop_returns [OF turns_shrink(2) [OF assms]] unfolding response_InternalParse_def by metis
  ultimately show ?thesis by (simp add: request_ParseFromString_def response_ParseFromString_def)
qed

section \<open>What is written is read\<close>

lemma parse_loop_simps [simp]:
  "parse_loop turn m [] = Some (Returns (m, Some [], 0))"
  "s \<noteq> [] \<Longrightarrow> turn m s = Some (Parse_On m' r) \<Longrightarrow> parse_loop turn m s = parse_loop turn m' r"
  "s \<noteq> [] \<Longrightarrow> turn m s = Some (Parse_Left m' ptr tag) \<Longrightarrow> parse_loop turn m s = Some (Returns (m', ptr, tag))"
  by (simp_all add: parse_loop.simps)

lemma written_nonempty:
  assumes "pb_runtime_ok rt"
  shows "WriteInt32ToArray rt 1 v \<noteq> []" "WriteStringMaybeAliased rt 2 str \<noteq> []" "WriteStringMaybeAliased rt 3 str \<noteq> []"
  using runtime_laws(2) [OF assms] by (auto simp: sizes_written_def; metis Zero_not_Suc list.size(3))+

lemma request_fields:
  assumes "pb_runtime_ok rt"
  shows "request_turn rt m (WriteInt32ToArray rt 1 v @ s) = Some (Parse_On (m\<lparr>ord_price := v\<rparr>) s)"
    "length str \<le> 2 ^ 30 \<Longrightarrow> request_turn rt m (WriteStringMaybeAliased rt 2 str @ s) =
      Some (if VerifyUTF8 rt str then Parse_On (m\<lparr>ord_goods := str\<rparr>) s else Parse_Left (m\<lparr>ord_goods := str\<rparr>) None 0)"
proof -
  note w = runtime_laws(1) [OF assms, unfolded writes_back_def]
  obtain bs where "ReadTag rt (WriteInt32ToArray rt 1 v @ s) = (8, Some bs)" "ReadVarint32 rt bs = (v, Some s)"
    using w by blast
  then show "request_turn rt m (WriteInt32ToArray rt 1 v @ s) = Some (Parse_On (m\<lparr>ord_price := v\<rparr>) s)"
    by (simp add: request_turn_def parse_int_field_def)
  assume "length str \<le> 2 ^ 30"
  then obtain bs where "ReadTag rt (WriteStringMaybeAliased rt 2 str @ s) = (18, Some bs)" "InlineGreedyStringParser rt bs = (str, Some s)"
    using w by blast
  then show "request_turn rt m (WriteStringMaybeAliased rt 2 str @ s) =
      Some (if VerifyUTF8 rt str then Parse_On (m\<lparr>ord_goods := str\<rparr>) s else Parse_Left (m\<lparr>ord_goods := str\<rparr>) None 0)"
    by (simp add: request_turn_def parse_string_field_def)
qed

lemma response_fields:
  assumes "pb_runtime_ok rt"
  shows "response_turn rt m (WriteInt32ToArray rt 1 v @ s) = Some (Parse_On (m\<lparr>ord_ret_code := v\<rparr>) s)"
    "length str \<le> 2 ^ 30 \<Longrightarrow> VerifyUTF8 rt str \<Longrightarrow>
      response_turn rt m (WriteStringMaybeAliased rt 2 str @ s) = Some (Parse_On (m\<lparr>ord_res_info := str\<rparr>) s) \<and>
      response_turn rt m (WriteStringMaybeAliased rt 3 str @ s) = Some (Parse_On (m\<lparr>ord_order_id := str\<rparr>) s)"
proof -
  note w = runtime_laws(1) [OF assms, unfolded writes_back_def]
  obtain bs where "ReadTag rt (WriteInt32ToArray rt 1 v @ s) = (8, Some bs)" "ReadVarint32 rt bs = (v, Some s)"
    using w by blast
  then show "response_turn rt m (WriteInt32ToArray rt 1 v @ s) = Some (Parse_On (m\<lparr>ord_ret_code := v\<rparr>) s)"
    by (simp add: response_turn_def parse_int_field_def)
  assume a: "length str \<le> 2 ^ 30" "VerifyUTF8 rt str"
  then obtain b2 b3 where "ReadTag rt (WriteStringMaybeAliased rt 2 str @ s) = (18, Some b2)" "InlineGreedyStringParser rt b2 = (str, Some s)"
      "ReadTag rt (WriteStringMaybeAliased rt 3 str @ s) = (26, Some b3)" "InlineGreedyStringParser rt b3 = (str, Some s)"
    using w by blast
  then show "response_turn rt m (WriteStringMaybeAliased rt 2 str @ s) = Some (Parse_On (m\<lparr>ord_res_info := str\<rparr>) s) \<and>
      response_turn rt m (WriteStringMaybeAliased rt 3 str @ s) = Some (Parse_On (m\<lparr>ord_order_id := str\<rparr>) s)"
    using a by (simp add: response_turn_def parse_string_field_def)
qed

text \<open>A message that can be sent: its texts are UTF-8 of up to a gigabyte, and it has no unknown fields.\<close>

definition request_sendable :: "'u pb_runtime \<Rightarrow> 'u request_msg \<Rightarrow> bool" where
  "request_sendable rt m \<longleftrightarrow> VerifyUTF8 rt (ord_goods m) \<and> length (ord_goods m) \<le> 2 ^ 30 \<and> req_unknown m = no_unknown_fields rt"

definition response_sendable :: "'u pb_runtime \<Rightarrow> 'u response_msg \<Rightarrow> bool" where
  "response_sendable rt m \<longleftrightarrow> VerifyUTF8 rt (ord_res_info m) \<and> length (ord_res_info m) \<le> 2 ^ 30 \<and>
     VerifyUTF8 rt (ord_order_id m) \<and> length (ord_order_id m) \<le> 2 ^ 30 \<and> rsp_unknown m = no_unknown_fields rt"

text \<open>Parsing what was serialised merges the message into the one parsed so far.\<close>

lemma request_parse_written:
  assumes "pb_runtime_ok rt" "request_sendable rt f"
  shows "parse_loop (request_turn rt) m (request_InternalSerialize rt f @ s) = parse_loop (request_turn rt) (request_MergeFrom rt f m) s"
proof -
  show ?thesis using assms(2) request_fields [OF assms(1)] written_nonempty [OF assms(1)] runtime_laws(4,5) [OF assms(1)]
    by (cases m) (simp add: request_InternalSerialize_def request_MergeFrom_def request_sendable_def Let_def)
qed

lemma response_parse_written:
  assumes "pb_runtime_ok rt" "response_sendable rt f"
  shows "parse_loop (response_turn rt) m (response_InternalSerialize rt f @ s) = parse_loop (response_turn rt) (response_MergeFrom rt f m) s"
proof -
  show ?thesis using assms(2) response_fields [OF assms(1)] written_nonempty [OF assms(1)] runtime_laws(4,5) [OF assms(1)]
    by (cases m) (simp add: response_InternalSerialize_def response_MergeFrom_def response_sendable_def Let_def)
qed

text \<open>Merging into a cleared message copies.\<close>

lemma merge_cleared:
  assumes "pb_runtime_ok rt"
  shows "req_unknown f = no_unknown_fields rt \<Longrightarrow> request_MergeFrom rt f (request_Clear rt m) = f"
    "rsp_unknown r = no_unknown_fields rt \<Longrightarrow> response_MergeFrom rt r (response_Clear rt r') = r"
  using runtime_laws(5) [OF assms]
  by (cases f; simp add: request_MergeFrom_def request_Clear_def; cases r; simp add: response_MergeFrom_def response_Clear_def Let_def)+

lemma request_written_parsed:
  assumes "pb_runtime_ok rt" "request_sendable rt q"
  shows "request_ParseFromString rt (request_InternalSerialize rt q) m = Some (Returns (q, True))"
proof -
  have "request_MergeFrom rt q (request_Clear rt m) = q"
    using merge_cleared [OF assms(1)] assms(2) by (simp add: request_sendable_def)
  then show ?thesis using request_parse_written [OF assms, of "request_Clear rt m" "[]"] runtime_laws(6) [OF assms(1)]
    by (simp add: request_ParseFromString_def request_InternalParse_def)
qed

lemma response_written_parsed:
  assumes "pb_runtime_ok rt" "response_sendable rt r"
  shows "response_ParseFromString rt (response_InternalSerialize rt r) m = Some (Returns (r, True))"
proof -
  have "response_MergeFrom rt r (response_Clear rt m) = r"
    using merge_cleared [OF assms(1)] assms(2) by (simp add: response_sendable_def)
  then show ?thesis using response_parse_written [OF assms, of "response_Clear rt m" "[]"] runtime_laws(6) [OF assms(1)]
    by (simp add: response_ParseFromString_def response_InternalParse_def)
qed

text \<open>
  C32. A message that is serialised is parsed back as it was, into whatever object.
\<close>

theorem order_messages_roundtrip:
  assumes "pb_runtime_ok rt" "request_sendable rt q" "response_sendable rt r"
    and "request_SerializeToString rt q = Some qs" "response_SerializeToString rt r = Some rs"
  shows "request_ParseFromString rt qs q0 = Some (Returns (q, True)) \<and> response_ParseFromString rt rs r0 = Some (Returns (r, True))"
  using request_written_parsed [OF assms(1,2)] response_written_parsed [OF assms(1,3)] assms(4,5)
  by (auto simp: request_SerializeToString_def response_SerializeToString_def split: if_splits)

text \<open>The strings of two messages one after the other are a string of the second merged into the first.\<close>

lemma concatenation_merges:
  assumes "pb_runtime_ok rt" "request_sendable rt q1" "request_sendable rt q2" "response_sendable rt r1" "response_sendable rt r2"
  shows "request_ParseFromString rt (request_InternalSerialize rt q1 @ request_InternalSerialize rt q2) q =
      Some (Returns (request_MergeFrom rt q2 q1, True)) \<and>
    response_ParseFromString rt (response_InternalSerialize rt r1 @ response_InternalSerialize rt r2) r =
      Some (Returns (response_MergeFrom rt r2 r1, True))"
proof -
  have c: "request_MergeFrom rt q1 (request_Clear rt q) = q1" "response_MergeFrom rt r1 (response_Clear rt r) = r1"
    using merge_cleared [OF assms(1)] assms(2,4) by (simp_all add: request_sendable_def response_sendable_def)
  show ?thesis
    using request_parse_written [OF assms(1,2), of "request_Clear rt q" "request_InternalSerialize rt q2"]
      request_parse_written [OF assms(1,3), of q1 "[]"]
      response_parse_written [OF assms(1,4), of "response_Clear rt r" "response_InternalSerialize rt r2"]
      response_parse_written [OF assms(1,5), of r1 "[]"] runtime_laws(6) [OF assms(1)]
    by (simp add: c request_ParseFromString_def response_ParseFromString_def request_InternalParse_def response_InternalParse_def)
qed

text \<open>
  The sizes computed before a message is written are those of what is written, unknown fields included: the library, which writes
  into a buffer of that size, neither overruns it nor leaves a rest.
\<close>

lemma byte_sizes_exact:
  assumes "pb_runtime_ok rt"
  shows "length (request_InternalSerialize rt q) = request_ByteSizeLong rt q \<and> length (response_InternalSerialize rt r) = response_ByteSizeLong rt r"
proof -
  have "Int32SizePlusOne rt v = length (WriteInt32ToArray rt 1 v)" "length (WriteStringMaybeAliased rt 2 str) = Suc (StringSize rt str)"
    "length (WriteStringMaybeAliased rt 3 str) = Suc (StringSize rt str)" "UnknownFieldsSize rt u = length (SerializeUnknownFields rt u)" for v str u
    using runtime_laws(2) [OF assms] by (auto simp: sizes_written_def)
  then show ?thesis
    by (simp add: request_InternalSerialize_def request_ByteSizeLong_def response_InternalSerialize_def response_ByteSizeLong_def)
qed

text \<open>A text that is not UTF-8 is serialised all the same, and its message is not parsed.\<close>

lemma invalid_text_not_parsed:
  assumes "pb_runtime_ok rt" "\<not> VerifyUTF8 rt (ord_goods q)" "length (ord_goods q) \<le> 2 ^ 30" "req_unknown q = no_unknown_fields rt"
  shows "\<exists>q'. request_ParseFromString rt (request_InternalSerialize rt q) q0 = Some (Returns (q', False))"
proof -
  have g: "ord_goods q \<noteq> []" using assms(2) runtime_laws(8) [OF assms(1), of "[]"] by auto
  have "\<exists>q'. parse_loop (request_turn rt) (m :: 'a request_msg) (request_InternalSerialize rt q) = Some (Returns (q', None, 0))" for m
    using assms(2-4) g request_fields [OF assms(1)] request_fields(2) [OF assms(1), of _ _ "[]"] written_nonempty [OF assms(1)]
      runtime_laws(4) [OF assms(1)]
    by (auto simp: request_InternalSerialize_def)
  then obtain q' where "parse_loop (request_turn rt) (request_Clear rt q0) (request_InternalSerialize rt q) = Some (Returns (q', None, 0))" by blast
  then show ?thesis using runtime_laws(7) [OF assms(1)]
    by (simp add: request_ParseFromString_def request_InternalParse_def)
qed

text \<open>A copy of a message without unknown fields is equal to it.\<close>

lemma CopyFrom_equal:
  assumes "pb_runtime_ok rt" "same \<Longrightarrow> m = f" "req_unknown f = no_unknown_fields rt" "same \<Longrightarrow> r' = r" "rsp_unknown r = no_unknown_fields rt"
  shows "request_CopyFrom rt same f m = f" "response_CopyFrom rt same r r' = r"
  using assms merge_cleared [OF assms(1)] by (simp_all add: request_CopyFrom_def response_CopyFrom_def)

section \<open>The laws can hold\<close>

text \<open>A library for the examples: numbers in groups of seven bits, the lowest first; it knows ASCII only and refuses unknown fields.\<close>

fun put_varint :: "nat \<Rightarrow> string" where
  "put_varint n = (if n < 128 then [char_of n] else char_of (n mod 128 + 128) # put_varint (n div 128))"

declare put_varint.simps [simp del]

fun get_varint :: "string \<Rightarrow> (nat \<times> string) option" where
  "get_varint [] = None"
| "get_varint (c # s) =
     (if of_char c < (128 :: nat) then Some (of_char c, s)
      else map_option (\<lambda>(n, r). (of_char c - 128 + 128 * n, r)) (get_varint s))"

lemma get_put_varint [simp]: "get_varint (put_varint n @ s) = Some (n, s)"
proof (induction n rule: put_varint.induct)
  case (1 n)
  show ?case
  proof (cases "n < 128")
    case False
    have "n mod 128 + 128 < 256" by (simp add: algebra_simps)
    then have "of_char (char_of (n mod 128 + 128)) = n mod 128 + 128" by simp
    then show ?thesis using False 1 by (subst put_varint.simps) (simp add: mod_mult_div_eq)
  qed (simp add: put_varint.simps)
qed

lemma get_varint_shorter: "get_varint s = Some (n, r) \<Longrightarrow> length r < length s"
  by (induction s arbitrary: n r rule: get_varint.induct) (auto split: if_splits intro: less_SucI)

lemma put_varint_small: "n < 128 \<Longrightarrow> put_varint n = [char_of n]"
  by (simp add: put_varint.simps)

definition get_word :: "string \<Rightarrow> 32 word \<times> string option" where
  "get_word s = (case get_varint s of None \<Rightarrow> (0, None) | Some (n, r) \<Rightarrow> (word_of_nat n, Some r))"

definition get_string :: "string \<Rightarrow> string \<times> string option" where
  "get_string s = (case get_varint s of None \<Rightarrow> ([], None)
     | Some (n, r) \<Rightarrow> if n \<le> length r then (take n r, Some (drop n r)) else (r, None))"

definition int32_varint :: "int32 \<Rightarrow> string" where
  "int32_varint v = put_varint (unat (scast v :: 64 word))"

definition demo_runtime :: "string pb_runtime" where
  "demo_runtime = \<lparr>
     ReadTag = get_word, ReadVarint32 = get_word, InlineGreedyStringParser = get_string,
     VerifyUTF8 = (\<lambda>s. \<forall>c \<in> set s. of_char c < (128 :: nat)), UnknownFieldParse = (\<lambda>tag u s. (u, None)),
     WriteInt32ToArray = (\<lambda>f v. put_varint (8 * f) @ int32_varint v),
     WriteStringMaybeAliased = (\<lambda>f s. put_varint (8 * f + 2) @ put_varint (length s) @ s),
     Int32SizePlusOne = (\<lambda>v. 1 + length (int32_varint v)), StringSize = (\<lambda>s. length (put_varint (length s)) + length s),
     no_unknown_fields = [], have_unknown_fields = (\<lambda>u. u \<noteq> []), SerializeUnknownFields = (\<lambda>u. u), UnknownFieldsSize = length,
     MergeUnknownFields = (@), accepts_end = (\<lambda>ptr tag. ptr = Some [] \<and> tag = 0), fits_string = (\<lambda>n. n < 2 ^ 31)\<rparr>"

lemma get_int32 [simp]: "get_word (int32_varint v @ s) = (v, Some s)"
proof -
  have "(word_of_nat (unat (scast v :: 64 word)) :: int32) = ucast (scast v :: 64 word)"
    by (simp add: unsigned_of_nat word_of_nat_eq_iff)
  also have "\<dots> = v" by (intro bit_word_eqI) (simp add: bit_unsigned_iff bit_signed_iff)
  finally show ?thesis by (simp add: get_word_def int32_varint_def)
qed

lemma demo_runtime_ok: "pb_runtime_ok demo_runtime"
proof -
  have "get_word (put_varint n @ s) = (word_of_nat n, Some s)" "get_string (put_varint (length str) @ str @ s) = (str, Some s)" for n str s
    by (simp_all add: get_word_def get_string_def)
  then have "writes_back demo_runtime" by (simp add: writes_back_def demo_runtime_def)
  moreover have "put_varint n \<noteq> []" for n by (subst put_varint.simps) simp
  then have "sizes_written demo_runtime" by (simp add: sizes_written_def demo_runtime_def put_varint_small)
  moreover have "parsers_consume demo_runtime"
    by (auto simp: parsers_consume_def demo_runtime_def get_word_def get_string_def dest: get_varint_shorter less_imp_le split: option.splits if_splits)
  ultimately show ?thesis by (simp add: pb_runtime_ok_def) (simp add: demo_runtime_def)
qed

definition apple_request :: "string request_msg" where
  "apple_request = \<lparr>ord_price = 100, ord_goods = ''apple'', req_unknown = []\<rparr>"

definition order_data :: string where
  "order_data = [CHR 0x1A, CHR 0x08] @ ''20231015''"

definition accepted_demo :: "string response_msg" where
  "accepted_demo = \<lparr>ord_ret_code = 0, ord_res_info = [], ord_order_id = ''20231015'', rsp_unknown = []\<rparr>"

lemma demo_sendable: "request_sendable demo_runtime apple_request" "response_sendable demo_runtime accepted_demo"
  by (simp_all add: request_sendable_def response_sendable_def apple_request_def accepted_demo_def demo_runtime_def)

definition apple_data :: string where
  "apple_data = [CHR 0x08, CHR 0x64, CHR 0x12, CHR 0x05] @ ''apple''"

lemma demo_serialized:
  "request_SerializeToString demo_runtime apple_request = Some apple_data"
  "response_SerializeToString demo_runtime accepted_demo = Some order_data"
proof -
  have c: "char_of (8 :: nat) = CHR 0x08" "char_of (100 :: nat) = CHR 0x64" "char_of (18 :: nat) = CHR 0x12" "char_of (5 :: nat) = CHR 0x05"
      "char_of (26 :: nat) = CHR 0x1A"
    by code_simp+
  have s: "put_varint (length ''apple'') = [char_of (5 :: nat)]" "put_varint (length ''20231015'') = [char_of (8 :: nat)]"
    by (simp_all add: put_varint_small)
  show "request_SerializeToString demo_runtime apple_request = Some apple_data"
    by (simp add: request_SerializeToString_def request_ByteSizeLong_def request_InternalSerialize_def apple_request_def demo_runtime_def
        apple_data_def int32_varint_def put_varint_small c s del: list.size) simp
  show "response_SerializeToString demo_runtime accepted_demo = Some order_data"
    by (simp add: response_SerializeToString_def response_ByteSizeLong_def response_InternalSerialize_def accepted_demo_def demo_runtime_def
        order_data_def put_varint_small c s del: list.size) simp
qed

theorem order_messages_roundtrip_witness:
  "request_ParseFromString demo_runtime apple_data (makeOrderRequest_new demo_runtime) = Some (Returns (apple_request, True)) \<and>
   response_ParseFromString demo_runtime order_data (makeOrderResponse_new demo_runtime) = Some (Returns (accepted_demo, True))"
  by (rule order_messages_roundtrip [OF demo_runtime_ok demo_sendable demo_serialized])

theorem message_parsing_returns_witness:
  "\<exists>q ok. request_ParseFromString demo_runtime [CHR 0x08, CHR 0xFF] (makeOrderRequest_new demo_runtime) = Some (Returns (q, ok))"
  using message_parsing_returns [OF demo_runtime_ok] by blast

end
