(* ===== verification/Order_Example.thy ===== *)
theory Order_Example
  imports System_Call High_Avai Order_Pb
begin

text \<open>
  The example programs: the service \<open>Order\<close> as \<^verbatim>\<open>protoc\<close> generates it in \<^verbatim>\<open>test/order.pb.{h,cc}\<close>, its implementation and
  the \<open>main\<close> of \<^verbatim>\<open>test/test_rpc_server.cc\<close>, the call of \<^verbatim>\<open>test/test_rpc_client.cc\<close>.  The messages are those of
  \<open>Order_Pb\<close>.
\<close>

section \<open>The generated service\<close>

text \<open>Names of the serialised descriptor.\<close>

definition Order_full_name :: string where
  "Order_full_name = ''Order''"

definition Order_methods :: "string list" where
  "Order_methods = [''makeOrder'', ''queryOrder'']"

text \<open>
  The virtual methods: each is given the response to fill in, and says what it leaves in the controller and whether it
  runs \<open>done\<close>.
\<close>

type_synonym 'u order_method =
  "rpc_controller \<Rightarrow> 'u request_msg \<Rightarrow> 'u response_msg \<Rightarrow> 'u response_msg \<times> rpc_controller \<times> bool"

record 'u order_impl =
  impl_makeOrder :: "'u order_method"
  impl_queryOrder :: "'u order_method"

definition Order_makeOrder :: "'u order_method" where
  "Order_makeOrder controller request response = (response, SetFailed ''Method makeOrder() not implemented.'' controller, True)"

definition Order_queryOrder :: "'u order_method" where
  "Order_queryOrder controller request response = (response, SetFailed ''Method queryOrder() not implemented.'' controller, True)"

definition Order_base :: "'u order_impl" where
  "Order_base = \<lparr>impl_makeOrder = Order_makeOrder, impl_queryOrder = Order_queryOrder\<rparr>"

text \<open>\<open>None\<close>: a method index that is not in the descriptor ends the process.\<close>

definition Order_CallMethod ::
    "'u order_impl \<Rightarrow> nat \<Rightarrow> rpc_controller \<Rightarrow> 'u request_msg \<Rightarrow> 'u response_msg \<Rightarrow> ('u response_msg \<times> rpc_controller \<times> bool) option" where
  "Order_CallMethod impl index controller request response =
     (if index = 0 then Some (impl_makeOrder impl controller request response)
      else if index = 1 then Some (impl_queryOrder impl controller request response)
      else None)"

definition GetRequestPrototype :: "'u pb_runtime \<Rightarrow> nat \<Rightarrow> 'u request_msg option" where
  "GetRequestPrototype rt index =
     (if index = 0 then Some (makeOrderRequest_new rt) else if index = 1 then Some (makeOrderRequest_new rt) else None)"

definition GetResponsePrototype :: "'u pb_runtime \<Rightarrow> nat \<Rightarrow> 'u response_msg option" where
  "GetResponsePrototype rt index =
     (if index = 0 then Some (makeOrderResponse_new rt) else if index = 1 then Some (makeOrderResponse_new rt) else None)"

text \<open>
  The service as the dispatcher uses it.  It asks only for methods of the descriptor, whose index is below two, and parsing
  always returns (\<open>message_parsing_returns\<close>), so the other cases below do not arise.
\<close>

definition method_index :: "string \<Rightarrow> nat" where
  "method_index m = length (takeWhile (\<lambda>x. x \<noteq> m) Order_methods)"

definition parsed :: "('m \<times> bool) outcome option \<Rightarrow> 'm option" where
  "parsed r = (case r of Some (Returns (m, True)) \<Rightarrow> Some m | _ \<Rightarrow> None)"

definition order_service :: "'u pb_runtime \<Rightarrow> 'u order_impl \<Rightarrow> ('u request_msg, 'u response_msg) pb_service" where
  "order_service rt impl = \<lparr>svc_full_name = Order_full_name, svc_methods = Order_methods,
     svc_parse = (\<lambda>m data. do { request \<leftarrow> GetRequestPrototype rt (method_index m); parsed (request_ParseFromString rt data request) }),
     svc_call = (\<lambda>m controller request.
       let response = (case GetResponsePrototype rt (method_index m) of None \<Rightarrow> makeOrderResponse_new rt | Some response \<Rightarrow> response) in
       (case Order_CallMethod impl (method_index m) controller request response of
          None \<Rightarrow> (response, False)
        | Some (response, controller, runs_done) \<Rightarrow> (response, runs_done))),
     svc_serialize = response_SerializeToString rt\<rparr>"

section \<open>The server\<close>

definition makeOrder :: "'u order_method" where
  "makeOrder controller request response =
     (if ord_price request <s 10
      then (response\<lparr>ord_ret_code := - 1, ord_res_info := ''short balance''\<rparr>, controller, False)
      else (response\<lparr>ord_order_id := ''20231015''\<rparr>, controller, True))"

definition queryOrder :: "'u order_method" where
  "queryOrder controller request response = (response, controller, True)"

definition OrderImpl :: "'u order_impl" where
  "OrderImpl = \<lparr>impl_makeOrder = makeOrder, impl_queryOrder = queryOrder\<rparr>"

text \<open>
  \<open>main\<close>: it exits when the XML file misses a node; otherwise the service is registered and the supervisor is started,
  whose child runs \<open>start_service_func\<close>.  \<open>None\<close>: undefined behaviour.
\<close>

datatype ('req, 'rsp) server_end =
    Bad_Config string
  | Supervised "('req, 'rsp) service_map" "(rc_message \<times> string list \<times> bool) list" bool start_end

definition server_main ::
    "'e xml_api \<Rightarrow> (string \<Rightarrow> 32 word) \<Rightarrow> 'e option \<Rightarrow> string option \<Rightarrow> (nat \<Rightarrow> sd_net) \<Rightarrow> generation_sys \<Rightarrow> 'u pb_runtime \<Rightarrow> string list
       \<Rightarrow> ('u request_msg, 'u response_msg) server_end option" where
  "server_main api inet_addr xml center_conf nets sys rt argv = do {
     r \<leftarrow> SetGlobalConfig api inet_addr (Some (''../conf/talon.xml'', xml)) \<lparr>g_config = None, service_center_map = Map.empty\<rparr>;
     (case r of
        Inl node \<Rightarrow> Some (Bad_Config node)
      | Inr g \<Rightarrow> do {
          let g = setServiceCenterMap center_conf g;
          cfg \<leftarrow> GetGlobalConfig g;
          (smap, msgs) \<leftarrow> registerService (map_index (getServiceCenterMap g) ''control_port'') nets (m_local_ip cfg) (cfg_port cfg)
            (order_service rt OrderImpl) (GetRpcDispatcher None);
          (served, e) \<leftarrow> ha_start sys argv (setRestartCount 10 HighAvai_new);
          Some (Supervised smap msgs served e) }) }"

section \<open>The client\<close>

text \<open>The user's closure: on success it changes the controller; then it stops the client's loop.\<close>

definition order_closure :: "rpc_controller \<Rightarrow> event_loop \<Rightarrow> rpc_controller \<times> event_loop" where
  "order_closure controller l =
     (let controller = (if GetErrorCode controller = 0 then SetTimeout 1000000000 (SetMsgId ''99998888'' controller) else controller)
      in (controller, client_stop l))"

text \<open>The stub: the method of the descriptor called through the channel.\<close>

definition Order_Stub_method ::
    "nat \<Rightarrow> call_env \<Rightarrow> string option \<Rightarrow> nat \<Rightarrow> run_time \<Rightarrow> msg_id_state \<Rightarrow> rpc_channel \<Rightarrow> event_loop
       \<Rightarrow> (rpc_channel \<times> event_loop \<times> msg_id_state \<times> call_end) option" where
  "Order_Stub_method index env request te rt ids channel l =
     CallMethod env (Order_full_name @ ''.'' @ Order_methods ! index) (True, True, True) request te rt ids channel l"

definition Order_Stub_makeOrder ::
    "call_env \<Rightarrow> string option \<Rightarrow> nat \<Rightarrow> run_time \<Rightarrow> msg_id_state \<Rightarrow> rpc_channel \<Rightarrow> event_loop
       \<Rightarrow> (rpc_channel \<times> event_loop \<times> msg_id_state \<times> call_end) option" where
  "Order_Stub_makeOrder = Order_Stub_method 0"

definition Order_Stub_queryOrder ::
    "call_env \<Rightarrow> string option \<Rightarrow> nat \<Rightarrow> run_time \<Rightarrow> msg_id_state \<Rightarrow> rpc_channel \<Rightarrow> event_loop
       \<Rightarrow> (rpc_channel \<times> event_loop \<times> msg_id_state \<times> call_end) option" where
  "Order_Stub_queryOrder = Order_Stub_method 1"

text \<open>\<open>gerOrderID\<close>: the price given is not used.\<close>

definition gerOrderID ::
    "call_env \<Rightarrow> 'u pb_runtime \<Rightarrow> nat \<Rightarrow> run_time \<Rightarrow> msg_id_state \<Rightarrow> event_loop \<Rightarrow> int32 \<Rightarrow> string
       \<Rightarrow> (rpc_channel \<times> event_loop \<times> msg_id_state \<times> call_end) option" where
  "gerOrderID env pb te rt ids l price goods = do {
     response \<leftarrow> response_SerializeToString pb (makeOrderResponse_new pb);
     let request = (makeOrderRequest_new pb)\<lparr>ord_price := 100, ord_goods := goods\<rparr>;
     let channel = channel_Init (Some RpcController_new) True (Some response) True (RpcChannel_new None);
     Order_Stub_makeOrder env (request_SerializeToString pb request) te rt ids channel l }"

text \<open>\<open>ParseFromString\<close> of the client's response object, whose serialised contents are what the channel keeps.\<close>

definition order_parse :: "'u pb_runtime \<Rightarrow> string \<Rightarrow> string option" where
  "order_parse pb data = do {
     response \<leftarrow> parsed (response_ParseFromString pb data (makeOrderResponse_new pb));
     response_SerializeToString pb response }"

definition client_main ::
    "'e xml_api \<Rightarrow> call_env \<Rightarrow> string option \<Rightarrow> 'u pb_runtime \<Rightarrow> nat \<Rightarrow> event_loop \<Rightarrow> (rpc_channel \<times> event_loop \<times> msg_id_state \<times> call_end) option" where
  "client_main api env center_conf pb te l = do {
     r \<leftarrow> SetGlobalConfig api (ce_inet_addr env) None
       (setServiceCenterMap center_conf \<lparr>g_config = None, service_center_map = Map.empty\<rparr>);
     (case r of
        Inl _ \<Rightarrow> None
      | Inr g \<Rightarrow> gerOrderID (env\<lparr>ce_globals := g\<rparr>) pb te RunTime_new msg_id_init l 100 ''apple'') }"

section \<open>Answered and unanswered requests\<close>

text \<open>A method that returns without running \<open>done\<close> leaves the request without an answer.\<close>

definition unanswered :: "('req, 'rsp) service_map \<Rightarrow> tiny_pb \<Rightarrow> tcp_connection \<Rightarrow> bool" where
  "unanswered smap req c = (case parseServiceFullName (m_method_name req) of
     None \<Rightarrow> True
   | Some (s, x) \<Rightarrow> (case map_of smap s of
       None \<Rightarrow> True
     | Some service \<Rightarrow> x \<notin> set (svc_methods service) \<or> (case svc_parse service x (m_pb_data req) of
         None \<Rightarrow> True
       | Some rq \<Rightarrow> \<not> snd (svc_call service x (dispatch_controller req c) rq))))"

lemma rpc_dispatch_unanswered:
  assumes "unanswered smap req c"
  shows "\<exists>rsp' rt'. rpc_dispatch fd_ok tid smap req rsp rt c l = Some (rsp', c, l, rt')"
  using assms by (auto simp: unanswered_def rpc_dispatch_def Let_def split: option.splits prod.splits)

lemma unanswered_conn [simp]: "unanswered smap req (c\<lparr>m_out_buffer := b\<rparr>) = unanswered smap req c"
proof -
  have d: "dispatch_controller req (c\<lparr>m_out_buffer := b\<rparr>) = dispatch_controller req c"
    by (simp add: dispatch_controller_def getPeerAddr_def getLocalAddr_def)
  show ?thesis unfolding unanswered_def d by (rule refl)
qed

text \<open>Of a batch the requests with \<open>P\<close> are answered in order, the others not at all.\<close>

lemma excute_all_partly:
  assumes "conn_ready c l" "\<forall>r \<in> set reqs. if P r then call_result smap r c = Some (ans r) \<and> wire_ok (response_of r (ans r)) else unanswered smap r c"
    and "buf_room (m_out_buffer c) (length (answer_bytes ans (filter P reqs)))"
  shows "\<exists>ob l' rt'. excute_all fd_ok tid smap reqs rt c l = Some (c\<lparr>m_out_buffer := ob\<rparr>, l', rt') \<and>
    conn_ready (c\<lparr>m_out_buffer := ob\<rparr>) l' \<and> contents ob = contents (m_out_buffer c) @ answer_bytes ans (filter P reqs)"
  using assms
proof (induction reqs arbitrary: rt c l)
  case Nil
  then show ?case by (intro exI [of _ "m_out_buffer c"] exI) simp
next
  case (Cons r reqs)
  show ?case
  proof (cases "P r")
    case True
    have "\<exists>ob l1 rt1. excute_all fd_ok tid smap [r] rt c l = Some (c\<lparr>m_out_buffer := ob\<rparr>, l1, rt1) \<and> conn_ready (c\<lparr>m_out_buffer := ob\<rparr>) l1 \<and>
        contents ob = contents (m_out_buffer c) @ answer_bytes ans [r] \<and> buf_room ob (length (answer_bytes ans (filter P reqs)))"
      by (rule excute_all_ok [OF Cons.prems(1)]) (use True Cons.prems(2,3) in simp_all)
    then obtain ob l1 rsp1 rt1 where r: "rpc_dispatch fd_ok tid smap r TinyPBProtocol_new rt c l = Some (rsp1, c\<lparr>m_out_buffer := ob\<rparr>, l1, rt1)"
        "conn_ready (c\<lparr>m_out_buffer := ob\<rparr>) l1" "contents ob = contents (m_out_buffer c) @ answer_bytes ans [r]"
        "buf_room ob (length (answer_bytes ans (filter P reqs)))"
      by (auto simp: bind_eq_Some_conv)
    from Cons.IH [OF r(2), of rt1] Cons.prems(2) r True show ?thesis by auto
  next
    case False
    then obtain rsp1 rt1 where "rpc_dispatch fd_ok tid smap r TinyPBProtocol_new rt c l = Some (rsp1, c, l, rt1)"
      using rpc_dispatch_unanswered [of smap r c fd_ok tid TinyPBProtocol_new rt l] Cons.prems(2) by auto
    with Cons.IH [OF Cons.prems(1), of rt1] Cons.prems(2,3) False show ?thesis by auto
  qed
qed

section \<open>Properties\<close>

text \<open>What a client sends for an order, and the response it is given.\<close>

definition client_request :: "'u pb_runtime \<Rightarrow> int32 \<times> string \<Rightarrow> 'u request_msg" where
  "client_request rt pg = (makeOrderRequest_new rt)\<lparr>ord_price := fst pg, ord_goods := snd pg\<rparr>"

definition order_msg :: "'u pb_runtime \<Rightarrow> string \<times> int32 \<times> string \<Rightarrow> tiny_pb" where
  "order_msg rt io = TinyPBProtocol_new\<lparr>m_msg_id := fst io, m_method_name := ''Order.makeOrder'',
     m_pb_data := request_InternalSerialize rt (client_request rt (snd io))\<rparr>"

definition accepted_response :: "'u pb_runtime \<Rightarrow> 'u response_msg" where
  "accepted_response rt = (makeOrderResponse_new rt)\<lparr>ord_order_id := ''20231015''\<rparr>"

definition order_accepted :: "'u pb_runtime \<Rightarrow> string \<times> int32 \<times> string \<Rightarrow> bool" where
  "order_accepted rt io \<longleftrightarrow> 10 \<le>s fst (snd io) \<and> VerifyUTF8 rt (snd (snd io))"

lemma method_index_eval [simp]: "method_index ''makeOrder'' = 0" "method_index ''queryOrder'' = 1"
  by (simp_all add: method_index_def Order_methods_def)

lemma order_name_parts [simp]: "parseServiceFullName ''Order.makeOrder'' = Some (''Order'', ''makeOrder'')"
  "parseServiceFullName ''Order.queryOrder'' = Some (''Order'', ''queryOrder'')"
  using parseServiceFullName_dot [of "''Order''" "''makeOrder''"] parseServiceFullName_dot [of "''Order''" "''queryOrder''"] by simp_all

lemma client_request_parsed:
  assumes "pb_runtime_ok rt" "length (snd pg) \<le> 2 ^ 30"
  shows "parsed (request_ParseFromString rt (request_InternalSerialize rt (client_request rt pg)) m) =
    (if VerifyUTF8 rt (snd pg) then Some (client_request rt pg) else None)"
proof -
  let ?q = "client_request rt pg"
  have q: "ord_goods ?q = snd pg" "req_unknown ?q = no_unknown_fields rt" by (simp_all add: client_request_def makeOrderRequest_new_def)
  have "\<exists>m'. request_ParseFromString rt (request_InternalSerialize rt ?q) m = Some (Returns (m', VerifyUTF8 rt (snd pg))) \<and> (VerifyUTF8 rt (snd pg) \<longrightarrow> m' = ?q)"
    using request_written_parsed [OF assms(1), of ?q m] invalid_text_not_parsed [OF assms(1), of ?q m] assms(2) q
    by (cases "VerifyUTF8 rt (snd pg)") (auto simp: request_sendable_def)
  then show ?thesis by (auto simp: parsed_def)
qed

lemma order_msg_answer:
  assumes "pb_runtime_ok rt" "map_of smap ''Order'' = Some (order_service rt OrderImpl)"
    and "response_SerializeToString rt (accepted_response rt) = Some data" "length (snd (snd io)) \<le> 2 ^ 30"
  shows "if order_accepted rt io then call_result smap (order_msg rt io) c = Some data else unanswered smap (order_msg rt io) c"
proof -
  have p: "ord_price (client_request rt (snd io)) = fst (snd io)" by (simp add: client_request_def)
  have "10 \<le>s fst (snd io) \<longleftrightarrow> \<not> fst (snd io) <s 10" by (simp add: word_sle_eq word_sless_alt not_less)
  then show ?thesis using assms(2,3) p client_request_parsed [OF assms(1,4)]
    by (auto simp: order_msg_def call_result_def unanswered_def order_service_def makeOrder_def accepted_response_def Order_methods_def OrderImpl_def
        GetRequestPrototype_def GetResponsePrototype_def Order_CallMethod_def order_accepted_def)
qed

text \<open>
  C31. The example server answers exactly the orders it accepts: of the orders that arrive on a connection those with a price of
  at least ten and goods in UTF-8 are answered, in order, each with its message id and the order number.  Those below ten get no answer,
  although \<open>makeOrder\<close> has filled in an error for them, because it returns without running \<open>done\<close>; nor do those whose goods
  are not UTF-8, which the client has serialised without complaint.
\<close>

theorem orders_below_ten_get_no_answer:
  assumes "pb_runtime_ok rt" "map_of smap ''Order'' = Some (order_service rt OrderImpl)" "conn_ready c l"
    and "response_SerializeToString rt (accepted_response rt) = Some data"
    and "\<forall>io \<in> set orders. length (snd (snd io)) \<le> 2 ^ 30 \<and> wire_ok (response_of (order_msg rt io) data)"
    and "accepted = filter (order_accepted rt) orders"
    and "buf_room (m_out_buffer c) (length (answer_bytes (\<lambda>_. data) (map (order_msg rt) accepted)))"
  shows "\<exists>ob l' rtm. excute_all fd_ok tid smap (map (order_msg rt) orders) run c l = Some (c\<lparr>m_out_buffer := ob\<rparr>, l', rtm) \<and>
    contents ob = contents (m_out_buffer c) @ answer_bytes (\<lambda>_. data) (map (order_msg rt) accepted)"
proof -
  let ?P = "\<lambda>m. case parsed (request_ParseFromString rt (m_pb_data m) (makeOrderRequest_new rt)) of None \<Rightarrow> False | Some q \<Rightarrow> 10 \<le>s ord_price q"
  have p: "?P (order_msg rt io) \<longleftrightarrow> order_accepted rt io" if "io \<in> set orders" for io
    using client_request_parsed [OF assms(1)] that assms(5) by (simp add: order_msg_def order_accepted_def client_request_def)
  then have f: "filter ?P (map (order_msg rt) orders) = map (order_msg rt) accepted"
    unfolding assms(6) filter_map by (simp cong: filter_cong)
  have b: "buf_room (m_out_buffer c) (length (answer_bytes (\<lambda>_. data) (filter ?P (map (order_msg rt) orders))))"
    unfolding f by (rule assms(7))
  have "if ?P r then call_result smap r c = Some data \<and> wire_ok (response_of r data) else unanswered smap r c"
    if "r \<in> set (map (order_msg rt) orders)" for r
    using that order_msg_answer [OF assms(1,2,4)] assms(5) p by (fastforce split: if_splits)
  then have "\<forall>r \<in> set (map (order_msg rt) orders). if ?P r then call_result smap r c = Some data \<and> wire_ok (response_of r data) else unanswered smap r c"
    by blast
  from excute_all_partly [OF assms(3) this b, of fd_ok tid run] show ?thesis unfolding f by blast
qed

lemma accepted_demo_response: "accepted_response demo_runtime = accepted_demo"
  by (simp add: accepted_response_def accepted_demo_def makeOrderResponse_new_def demo_runtime_def)

lemma accepted_data: "response_SerializeToString demo_runtime (accepted_response demo_runtime) = Some order_data"
  unfolding accepted_demo_response by (rule demo_serialized(2))

theorem orders_below_ten_get_no_answer_witness:
  "\<exists>ob l' rtm. excute_all (\<lambda>_. True) 1 [(''Order'', order_service demo_runtime OrderImpl)]
      (map (order_msg demo_runtime) [(''1'', 5, ''pear''), (''2'', 100, ''apple''), (''3'', 100, [CHR 0xFF])]) RunTime_new demo_conn demo_loop =
      Some (demo_conn\<lparr>m_out_buffer := ob\<rparr>, l', rtm) \<and>
    contents ob = contents (m_out_buffer demo_conn) @ answer_bytes (\<lambda>_. order_data) (map (order_msg demo_runtime) [(''2'', 100, ''apple'')])"
proof (rule orders_below_ten_get_no_answer [OF demo_runtime_ok _ demo_conn_ready accepted_data])
  show "buf_room (m_out_buffer demo_conn) (length (answer_bytes (\<lambda>_. order_data) (map (order_msg demo_runtime) [(''2'', 100, ''apple'')])))"
    by (simp add: buf_room_def demo_conn_def demo_buffer_def frame_size_def response_of_def order_msg_def order_data_def TinyPBProtocol_new_def)
qed (simp_all add: wire_ok_def frame_size_def response_of_def order_msg_def order_data_def TinyPBProtocol_new_def word_sle_eq order_accepted_def
  demo_runtime_def)

text \<open>
  What a method says in its controller is lost.  A method that is not overridden sets the controller failed, and the caller is told that the
  call succeeded: the server answers with error code 0 and an empty message, and the client's channel stores the new message of the empty string and runs
  the closure with the controller's state as it was.
\<close>

lemma empty_response:
  assumes "pb_runtime_ok rt"
  shows "response_SerializeToString rt (makeOrderResponse_new rt) = Some []"
    "response_ParseFromString rt [] m = Some (Returns (makeOrderResponse_new rt, True))"
proof -
  let ?r = "makeOrderResponse_new rt"
  have r: "response_InternalSerialize rt ?r = []" "response_ByteSizeLong rt ?r = 0" "response_sendable rt ?r"
    using runtime_laws(4) [OF assms] runtime_laws(8) [OF assms, of "[]"]
    by (simp_all add: response_InternalSerialize_def response_ByteSizeLong_def makeOrderResponse_new_def response_sendable_def)
  show "response_SerializeToString rt ?r = Some []"
    using r runtime_laws(9) [OF assms, of 0] by (simp add: response_SerializeToString_def)
  show "response_ParseFromString rt [] m = Some (Returns (?r, True))"
    using response_written_parsed [OF assms r(3), of m] r(1) by simp
qed

lemma base_service_result:
  assumes "pb_runtime_ok rt" "map_of smap ''Order'' = Some (order_service rt Order_base)"
    and "m_method_name req = ''Order.makeOrder'' \<or> m_method_name req = ''Order.queryOrder''"
    and "request_ParseFromString rt (m_pb_data req) (makeOrderRequest_new rt) = Some (Returns (q, True))"
  shows "call_result smap req c = Some []"
  using assms(2-4) empty_response(1) [OF assms(1)]
  by (auto simp: call_result_def order_service_def Order_methods_def GetRequestPrototype_def GetResponsePrototype_def Order_CallMethod_def
      Order_base_def Order_makeOrder_def Order_queryOrder_def parsed_def)

text \<open>
  C33. A method that is not implemented is a success to its caller: the generated method sets the controller failed and runs \<open>done\<close>,
  the dispatcher looks at the controller no more and answers with error code 0 and an empty message, and the channel
  that gets this answer sets no error and runs the closure.
\<close>

theorem unimplemented_method_succeeds:
  assumes "pb_runtime_ok rt" "map_of smap ''Order'' = Some (order_service rt Order_base)" "conn_ready c l"
    and "m_method_name req = ''Order.makeOrder'' \<or> m_method_name req = ''Order.queryOrder''"
    and "request_ParseFromString rt (m_pb_data req) (makeOrderRequest_new rt) = Some (Returns (q, True))"
    and "wire_ok (response_of req [])" "buf_room (m_out_buffer c) (length (frame_bytes (response_of req [])))" "ch_response ch \<noteq> None"
  shows "Order_CallMethod Order_base 0 ctl q r = Some (r, SetFailed ''Method makeOrder() not implemented.'' ctl, True) \<and>
    (\<exists>ob l' rtm. excute_all fd_ok tid smap [req] run c l = Some (c\<lparr>m_out_buffer := ob\<rparr>, l', rtm) \<and>
      contents ob = contents (m_out_buffer c) @ frame_bytes (response_of req [])) \<and> m_err_code (response_of req []) = 0 \<and>
    on_response False (order_parse rt) (response_of req []) ch = callBack (ch\<lparr>ch_response := Some []\<rparr>)"
proof (intro conjI)
  show "Order_CallMethod Order_base 0 ctl q r = Some (r, SetFailed ''Method makeOrder() not implemented.'' ctl, True)"
    by (simp add: Order_CallMethod_def Order_base_def Order_makeOrder_def)
  show "\<exists>ob l' rtm. excute_all fd_ok tid smap [req] run c l = Some (c\<lparr>m_out_buffer := ob\<rparr>, l', rtm) \<and>
      contents ob = contents (m_out_buffer c) @ frame_bytes (response_of req [])"
    using excute_all_ok [OF assms(3), of "[req]" smap "\<lambda>_. []" 0 fd_ok tid run] base_service_result [OF assms(1,2,4,5)] assms(6,7)
    by (auto simp del: excute_all.simps)
  show "on_response False (order_parse rt) (response_of req []) ch = callBack (ch\<lparr>ch_response := Some []\<rparr>)"
    using assms(8) empty_response [OF assms(1)] by (auto simp: on_response_def log_addrs_def order_parse_def parsed_def response_of_def)
qed (simp add: response_of_def)

theorem unimplemented_method_succeeds_witness:
  "\<exists>ob l' rtm. excute_all (\<lambda>_. True) 1 [(''Order'', order_service demo_runtime Order_base)] [order_msg demo_runtime (''7'', 100, ''apple'')] RunTime_new
      demo_conn demo_loop = Some (demo_conn\<lparr>m_out_buffer := ob\<rparr>, l', rtm) \<and>
    contents ob = contents (m_out_buffer demo_conn) @ frame_bytes (response_of (order_msg demo_runtime (''7'', 100, ''apple'')) [])"
proof -
  let ?q = "order_msg demo_runtime (''7'', 100, ''apple'')"
  have q: "client_request demo_runtime (100, ''apple'') = apple_request"
    by (simp add: client_request_def apple_request_def makeOrderRequest_new_def demo_runtime_def)
  have r: "map_of [(''Order'', order_service demo_runtime Order_base)] ''Order'' = Some (order_service demo_runtime Order_base)"
    "m_method_name ?q = ''Order.makeOrder'' \<or> m_method_name ?q = ''Order.queryOrder''"
    "request_ParseFromString demo_runtime (m_pb_data ?q) (makeOrderRequest_new demo_runtime) = Some (Returns (apple_request, True))"
    using request_written_parsed [OF demo_runtime_ok demo_sendable(1)] by (simp_all add: order_msg_def q)
  have w: "wire_ok (response_of ?q [])" "buf_room (m_out_buffer demo_conn) (length (frame_bytes (response_of ?q [])))"
    by (simp_all add: wire_ok_def frame_size_def response_of_def order_msg_def TinyPBProtocol_new_def buf_room_def demo_conn_def demo_buffer_def)
  have c: "ch_response demo_channel \<noteq> None" by simp
  from unimplemented_method_succeeds [OF demo_runtime_ok r(1) demo_conn_ready r(2,3) w c] show ?thesis by blast
qed

section \<open>The programs of the example together\<close>

text \<open>The client's call for apples, with the message id of a random source that delivers twenty times the same byte.\<close>

definition order_ids :: urandom where
  "order_ids = \<lparr>ur_open = 5, ur_read = Some (replicate 20 (CHR ''2''))\<rparr>"

definition order_call :: tiny_pb where
  "order_call = order_msg demo_runtime (replicate 20 (CHR ''0''), 100, ''apple'')"

definition order_env :: "(rc_message \<times> string list \<times> bool) list \<Rightarrow> call_env" where
  "order_env msgs = demo_call_env\<lparr>ce_verbose := False, ce_urandom := order_ids,
     ce_net := net_up (handle_query (centre_after [] msgs) ''Order.makeOrder'')\<rparr>"

definition order_channel :: rpc_channel where
  "order_channel = channel_Init (Some RpcController_new) True (Some []) True (RpcChannel_new None)"

definition order_closures :: call_closures where
  "order_closures = demo_closures\<lparr>cc_req := order_call, cc_parse := order_parse demo_runtime, cc_user := (\<lambda>l. snd (order_closure RpcController_new l))\<rparr>"

lemma apple_client_request: "client_request demo_runtime (100, ''apple'') = apple_request"
  by (simp add: client_request_def apple_request_def makeOrderRequest_new_def demo_runtime_def)

lemma order_call_data: "m_pb_data order_call = apple_data" "request_InternalSerialize demo_runtime apple_request = apple_data"
  using demo_serialized(1) by (simp_all add: order_call_def order_msg_def apple_client_request request_SerializeToString_def split: if_splits)

lemma gerOrderID_call:
  "gerOrderID env demo_runtime te rt ids l price ''apple'' =
     CallMethod env ''Order.makeOrder'' (True, True, True) (Some (m_pb_data order_call)) te rt ids order_channel l"
proof -
  have e: "response_SerializeToString demo_runtime (makeOrderResponse_new demo_runtime) = Some []"
    by (simp add: response_SerializeToString_def response_InternalSerialize_def response_ByteSizeLong_def makeOrderResponse_new_def demo_runtime_def)
  have q: "(makeOrderRequest_new demo_runtime)\<lparr>ord_price := 100, ord_goods := ''apple''\<rparr> = apple_request"
    using apple_client_request by (simp add: client_request_def)
  show ?thesis unfolding gerOrderID_def e
    by (simp add: q demo_serialized(1) order_channel_def order_call_data Order_Stub_makeOrder_def Order_Stub_method_def Order_full_name_def Order_methods_def)
qed

lemma order_id_chosen:
  "\<exists>ids'. choose_msg_id order_ids RunTime_new msg_id_init RpcController_new =
     Some (replicate 20 (CHR ''0''), SetMsgId (replicate 20 (CHR ''0'')) RpcController_new, ids')"
proof -
  have "random_digit (CHR ''2'') = CHR ''0''" by (simp add: random_digit_def char_of_def bit_Suc_0_iff)
  then show ?thesis
    by (simp add: choose_msg_id_def GetMsgId_def RpcController_new_def RunTime_new_def GenMsgID_def msg_id_init_def order_ids_def Let_def del: replicate.simps)
qed

lemma order_service_accepts: "service_answers (order_service demo_runtime OrderImpl) ''makeOrder'' (m_pb_data order_call) order_data"
proof -
  have "parsed (request_ParseFromString demo_runtime apple_data (makeOrderRequest_new demo_runtime)) = Some apple_request"
    using client_request_parsed [OF demo_runtime_ok, of "(100, ''apple'')"] unfolding apple_client_request order_call_data(2)
    by (simp add: demo_runtime_def)
  then show ?thesis using accepted_data unfolding order_call_data
    by (simp add: service_answers_def order_service_def makeOrder_def accepted_response_def word_sless_alt Order_full_name_def Order_methods_def
        GetRequestPrototype_def GetResponsePrototype_def Order_CallMethod_def OrderImpl_def apple_request_def)
qed

lemma order_sizes: "wire_ok order_call" "wire_ok (response_of order_call order_data)" "frame_size order_call = 70"
  "frame_size (response_of order_call order_data) = 71"
proof -
  have c: "order_call = TinyPBProtocol_new\<lparr>m_msg_id := replicate 20 (CHR ''0''), m_method_name := ''Order.makeOrder'', m_pb_data := apple_data\<rparr>"
    by (simp add: order_call_def order_msg_def apple_client_request order_call_data(2) del: replicate.simps)
  show "wire_ok order_call" "wire_ok (response_of order_call order_data)" "frame_size order_call = 70"
    "frame_size (response_of order_call order_data) = 71"
    by (simp_all add: c order_data_def apple_data_def response_of_def TinyPBProtocol_new_def wire_ok_def frame_size_def)
qed

lemma order_parse_data: "order_parse demo_runtime order_data = Some order_data"
  using response_written_parsed [OF demo_runtime_ok demo_sendable(2)] demo_serialized(2)
  by (simp add: order_parse_def parsed_def response_SerializeToString_def split: if_splits)

lemma order_server_accepts: "can_accept 2 (demo_node_env\<lparr>ne_order := [4, 9]\<rparr>) 9 (demo_world demo_server)"
proof -
  have w: "el_kernel demo_loop 4 = Some (1, Some Wakeup_Event)" "ev_at demo_loop Wakeup_Event \<noteq> None"
    by (simp_all add: demo_loop_def Eventloop_new_def demo_sys_loop_def initWakeUpFdEevent_def initTimer_def addEpollEvent_def isInLoopThread_def
        add_to_epoll_def ev_at_def epoll_ctl_def getFd_def getEpollEvent_def fd_listen_def Fd_Event_new_def Timer_new_def fd_event.defs Let_def)
  have n: "next_loop demo_server = demo_loop" by (simp add: next_loop_def next_thread_def demo_server_def)
  have "(9 :: int) \<notin> dom (el_kernel demo_loop)" by (simp add: demo_loop_eval(3))
  then have "el_kernel demo_loop 9 = None" by blast
  then have "unused_fd 9 demo_loop" by (simp add: unused_fd_def unused_entry_def demo_loop_eval FdEventGroup_new_def)
  then have "thread_ready 9 demo_loop" using w
    by (simp add: thread_ready_def demo_loop_eval demo_loop_fds group_inv_new int_ok_def)
  moreover have "server_ok 2 demo_server"
    using n by (simp add: server_ok_def demo_loop_eval group_inv_new isInLoopThread_def) (simp add: demo_server_def)
  ultimately show ?thesis unfolding can_accept_def
    by (simp add: demo_world_def n accept_pass_def demo_node_env_def demo_loop_fds)
qed

end
