(* ===== verification/Order_Restart.thy ===== *)
theory Order_Restart
  imports Order_Example
begin

text \<open>
  The example server over its restarts: every generation of the supervised process (\<^verbatim>\<open>common/high_availability.h\<close>) is a run of
  \<open>main\<close> of \<^verbatim>\<open>test/test_rpc_server.cc\<close> from its beginning, which reads the configuration and registers the service
  again before the supervisor looks at the number of restarts.  The history of a program is the list of what its generations sent to
  the discovery centre.
\<close>

section \<open>The program\<close>

lemma server_main_starts:
  assumes "server_main api inet_addr xml center_conf nets sys rt argv = Some (Supervised smap msgs served e)"
  shows "ha_start sys argv (setRestartCount 10 HighAvai_new) = Some (served, e)"
proof -
  from assms obtain r where "SetGlobalConfig api inet_addr (Some (''../conf/talon.xml'', xml)) \<lparr>g_config = None, service_center_map = Map.empty\<rparr> = Some r"
    by (auto simp: server_main_def bind_eq_Some_conv)
  then show ?thesis using assms by (cases r) (auto simp: server_main_def bind_eq_Some_conv Let_def)
qed

text \<open>\<open>nets g\<close> and \<open>sys g\<close>: network and system in generation \<open>g\<close>.  The result: the history, the number of servers run and the exit status.\<close>

function program_run ::
    "'e xml_api \<Rightarrow> (string \<Rightarrow> 32 word) \<Rightarrow> 'e option \<Rightarrow> string option \<Rightarrow> (nat \<Rightarrow> nat \<Rightarrow> sd_net) \<Rightarrow> (nat \<Rightarrow> generation_sys) \<Rightarrow> 'u pb_runtime
       \<Rightarrow> nat \<Rightarrow> string list \<Rightarrow> ((rc_message \<times> string list \<times> bool) list list \<times> nat \<times> int) option" where
  "program_run api inet_addr xml center_conf nets sys rt gen argv =
     (case server_main api inet_addr xml center_conf (nets gen) (sys gen) rt argv of
        None \<Rightarrow> None
      | Some (Bad_Config _) \<Rightarrow> Some ([], 0, 0)
      | Some (Supervised _ msgs served (Exits status)) \<Rightarrow> Some ([msgs], if served then 1 else 0, status)
      | Some (Supervised _ msgs served (Execs argv')) \<Rightarrow>
          map_option (\<lambda>(history, n, status). (msgs # history, if served then n + 1 else n, status))
            (program_run api inet_addr xml center_conf nets sys rt (Suc gen) argv'))"
  by pat_completeness auto

termination
  by (relation "measure (\<lambda>(api, inet_addr, xml, center_conf, nets, sys, rt, gen, argv). generation_measure (setRestartCount 10 HighAvai_new) argv)")
     (auto intro: ha_start_decreases dest: server_main_starts)

declare program_run.simps [simp del]

section \<open>What the centre knows\<close>

text \<open>The configuration of the node: its address, and a port for the centre's commands.\<close>

definition node_configured ::
    "'e xml_api \<Rightarrow> (string \<Rightarrow> 32 word) \<Rightarrow> 'e option \<Rightarrow> string option \<Rightarrow> string \<Rightarrow> int \<Rightarrow> bool" where
  "node_configured api inet_addr xml center_conf ip port \<longleftrightarrow>
     (\<exists>g cfg p. SetGlobalConfig api inet_addr (Some (''../conf/talon.xml'', xml)) \<lparr>g_config = None, service_center_map = Map.empty\<rparr> = Some (Inr g) \<and>
        GetGlobalConfig (setServiceCenterMap center_conf g) = Some cfg \<and> m_local_ip cfg = ip \<and> cfg_port cfg = port \<and>
        atoi (map_index (getServiceCenterMap (setServiceCenterMap center_conf g)) ''control_port'') = Some p)"

lemma centre_after_append [simp]: "centre_after m (a @ b) = centre_after (centre_after m a) b"
  by (simp add: centre_after_def)

lemma server_main_configured:
  assumes "node_configured api inet_addr xml center_conf ip port"
  obtains control p where "atoi control = Some p"
    "\<And>nets sys rt argv. server_main api inet_addr xml center_conf nets sys rt argv = do {
       (smap, msgs) \<leftarrow> registerService control nets ip port (order_service rt OrderImpl) (GetRpcDispatcher None);
       (served, e) \<leftarrow> ha_start sys argv (setRestartCount 10 HighAvai_new);
       Some (Supervised smap msgs served e) }"
  using assms by (fastforce simp: node_configured_def server_main_def intro: that)

text \<open>As long as the centre answers, each generation sends the same commands, and the program ends as the supervisor does.\<close>

lemma program_run_history:
  assumes "\<And>s argv. server_main api inet_addr xml center_conf (\<lambda>_. nt) s rt argv =
      map_option (\<lambda>(served, e). Supervised smap msgs served e) (ha_start s argv (setRestartCount 10 HighAvai_new))"
    and "all_ok sys" "ha_run sys gen argv h = Some (n, status)" "h = setRestartCount 10 HighAvai_new"
  shows "program_run api inet_addr xml center_conf (\<lambda>_ _. nt) sys rt gen argv = Some (replicate (Suc n) msgs, n, status)"
  using assms(2-4)
proof (induction sys gen argv h arbitrary: n rule: ha_run.induct)
  case (1 sys gen argv h)
  obtain served e where s: "ha_start (sys gen) argv h = Some (served, e)"
    using 1(3) by (subst (asm) ha_run.simps) (auto split: option.splits)
  have m: "server_main api inet_addr xml center_conf (\<lambda>_. nt) (sys gen) rt argv = Some (Supervised smap msgs served e)"
    using assms(1) s 1(4) by simp
  show ?case
  proof (cases e)
    case (Exits st)
    then have "\<not> served" using s 1(2) by (auto simp: ha_start_def all_ok_def bind_eq_Some_conv split: if_splits)
    then have "n = 0" "status = st" using 1(3) s Exits by (subst (asm) ha_run.simps; simp)+
    then show ?thesis using m Exits \<open>\<not> served\<close> by (simp add: program_run.simps)
  next
    case (Execs argv')
    then have "served" using s by (auto simp: ha_start_def bind_eq_Some_conv split: if_splits)
    then obtain k where k: "ha_run sys (Suc gen) argv' h = Some (k, status)" "n = k + 1"
      using 1(3) s Execs by (subst (asm) ha_run.simps) auto
    have "program_run api inet_addr xml center_conf (\<lambda>_ _. nt) sys rt (Suc gen) argv' = Some (replicate (Suc k) msgs, k, status)"
      using 1(1) [OF s refl Execs 1(2) k(1) 1(4)] .
    then show ?thesis using m Execs \<open>served\<close> k(2) by (simp add: program_run.simps [of _ _ _ _ _ _ _ gen])
  qed
qed

text \<open>
  C34. What restarts do to the centre's table.  A server that crashes, or ends in any other way, is restarted ten times; each of the twelve
  processes registers the service first, the last one only to find that it must not start again and to exit with status 2.
  So from the first registration on both methods resolve to the node at every restart; and they still do when the
  supervisor has given up and no server is left: nothing removes the registration.
\<close>

theorem restarts_keep_registration:
  assumes "node_configured api inet_addr xml center_conf ip port" "all_ok sys" "nt = net_up ''add service success''"
  shows "\<exists>history. program_run api inet_addr xml center_conf (\<lambda>_ _. nt) sys rt 0 [program] = Some (history, 11, 2) \<and> length history = 12 \<and>
    (\<forall>k \<in> {1..12}. \<forall>x \<in> set Order_methods.
       handle_query (centre_after m (concat (take k history))) (''Order.'' @ x) = ip @ '':'' @ to_string port)"
proof -
  obtain control p where c: "atoi control = Some p"
    and main: "\<And>nets s argv. server_main api inet_addr xml center_conf nets s rt argv = do {
       (smap, msgs) \<leftarrow> registerService control nets ip port (order_service rt OrderImpl) (GetRpcDispatcher None);
       (served, e) \<leftarrow> ha_start s argv (setRestartCount 10 HighAvai_new);
       Some (Supervised smap msgs served e) }"
    by (rule server_main_configured [OF assms(1)]) (rule that)
  have w: "word_ok (svc_full_name (order_service rt OrderImpl))" "\<forall>x \<in> set (svc_methods (order_service rt OrderImpl)). word_ok x"
    by (simp_all add: order_service_def word_ok_def Order_full_name_def Order_methods_def)
  obtain smap msgs where r: "registerService control (\<lambda>_. nt) ip port (order_service rt OrderImpl) (GetRpcDispatcher None) = Some (smap, msgs)"
    using register_methods_texts [of "\<lambda>_. nt" 0 "svc_full_name (order_service rt OrderImpl)" ip port "svc_methods (order_service rt OrderImpl)"] assms(3) c
    by (auto simp: registerService_def)
  have same: "server_main api inet_addr xml center_conf (\<lambda>_. nt) s rt argv =
      map_option (\<lambda>(served, e). Supervised smap msgs served e) (ha_start s argv (setRestartCount 10 HighAvai_new))" for s argv
    unfolding main r by (cases "ha_start s argv (setRestartCount 10 HighAvai_new)") auto
  have ha: "ha_run sys 0 [program] (setRestartCount 10 HighAvai_new) = Some (11, 2)"
    using supervisor_restarts [OF assms(2), of "setRestartCount 10 HighAvai_new" 0 program] by (simp add: setRestartCount_def)
  have run: "program_run api inet_addr xml center_conf (\<lambda>_ _. nt) sys rt 0 [program] = Some (replicate 12 msgs, 11, 2)"
    using program_run_history [OF same assms(2) ha refl] by (simp del: replicate.simps)
  have "handle_query (centre_after m (concat (take k (replicate 12 msgs)))) (''Order.'' @ x) = ip @ '':'' @ to_string port"
    if k: "k \<in> {1..12}" and x: "x \<in> set Order_methods" for k x
  proof -
    obtain j where "k = Suc j" "j \<le> 11" using k by (cases k) auto
    then have "take k (replicate 12 msgs) = replicate j msgs @ [msgs]" by (simp add: replicate_append_same min_def)
    then show ?thesis using registered_resolves(1) [OF r _ w, of x] x assms(3)
      by (simp add: order_service_def Order_full_name_def)
  qed
  then show ?thesis using run by auto
qed

lemma example_configured:
  "node_configured tree_api (\<lambda>_. 0) (Some talon_xml) (Some ''control_port = 9090'') ''172.16.66.102'' 9999"
proof -
  have "map_index (ConfigReader_new (Some ''control_port = 9090'')) ''control_port'' = ''9090''" by code_simp
  then show ?thesis
    by (simp add: node_configured_def SetGlobalConfig_def talon_xml_loads GetGlobalConfig_def setServiceCenterMap_def getServiceCenterMap_def
        talon_eval)
qed

text \<open>With the XML file of the repository.\<close>

theorem restarts_keep_registration_witness:
  "\<exists>history. program_run tree_api (\<lambda>_. 0) (Some talon_xml) (Some ''control_port = 9090'') (\<lambda>_ _. net_up ''add service success'')
      (\<lambda>g. \<lparr>gs_sigaction = 0, gs_fork = 17, gs_status = 0, gs_exec_ok = True\<rparr>) demo_runtime 0 [''rpc_server''] = Some (history, 11, 2) \<and>
    handle_query (centre_after [] (concat (take 12 history))) ''Order.makeOrder'' = ''172.16.66.102:9999''"
proof -
  have ok: "all_ok (\<lambda>g. \<lparr>gs_sigaction = 0, gs_fork = 17, gs_status = 0, gs_exec_ok = True\<rparr>)" by (simp add: all_ok_def)
  have a: "''172.16.66.102'' @ '':'' @ to_string 9999 = ''172.16.66.102:9999''" by (simp add: talon_eval)
  from restarts_keep_registration [OF example_configured ok refl, of demo_runtime "''rpc_server''" "[]", unfolded a]
  show ?thesis by (elim exE conjE) (intro exI conjI, assumption, force simp: Order_methods_def)
qed

end
