(* ===== verification/Call_Failures.thy ===== *)
theory Call_Failures
  imports System_Call
begin

text \<open>
  Calls that fail in their loop: the node refuses the connection or cannot be reached; and the later call of a thread whose socket has the
  descriptor number of an earlier one, which \<open>TcpClient\<close> has left in the loop's set (\<^verbatim>\<open>net/tcp/tcp_client.cc\<close>, \<^verbatim>\<open>net/eventloop.cc\<close>).
\<close>

section \<open>The failure is reported\<close>

text \<open>What \<open>epoll_wait\<close> says of a socket whose connection has failed: writable, and usually in error.\<close>

definition reports_failure :: "call_loop_env \<Rightarrow> nat \<Rightarrow> event_loop \<Rightarrow> bool" where
  "reports_failure env i l \<longleftrightarrow> ne_order env = [int i] \<and> ne_writable env (int i) \<and> int i \<noteq> el_wakeup_fd l \<and> int i \<noteq> fde_fd (el_timer l)"

lemma failure_is_queued:
  assumes "watching 4 None (Some t) i (cn_loop nd)" "m_pending_tasks (cn_loop nd) = []" "reports_failure env i (cn_loop nd)"
    and "regs_exist (cn_loop nd)"
  shows "\<exists>l'. call_round env k nd = Some (Returns (nd\<lparr>cn_loop := l'\<rparr>)) \<and> m_pending_tasks l' = [Some t] \<and> ev_at l' (Group_Event i) \<noteq> None \<and>
    m_is_looping l' = m_is_looping (cn_loop nd) \<and> m_stop_flag l' = m_stop_flag (cn_loop nd) \<and> regs_exist l'"
proof -
  let ?env = "node_env.truncate env" and ?l = "cn_loop nd" and ?p = "Group_Event i"
  let ?m = "4 OR (if ne_error env (int i) then 8 else 0) :: int32"
  have t: "ne_order ?env = ne_order env" "ne_writable ?env = ne_writable env" "ne_error ?env = ne_error env" "ne_fd_ok ?env = ne_fd_ok env"
    by (simp_all add: node_env.truncate_def)
  have q: "nd\<lparr>cn_loop := ?l\<lparr>m_pending_tasks := []\<rparr>\<rparr> = nd" using assms(2) by simp
  have k: "el_kernel ?l (int i) = Some (4, Some ?p)" "int i \<in> m_listen_fds ?l" using assms(1) by (simp_all add: watching_def)
  have "fd_report ?env (call_view nd) (int i) = [(?m, Some ?p)]"
    using assms(3) by (simp add: reports_failure_def k t fd_report_def fd_readable_def call_view_def)
  then have ew: "epoll_wait ?env (call_view nd) = [(?m, Some ?p)]" using assms(3) t by (simp add: epoll_wait_def reports_failure_def)
  obtain e where e: "ev_at ?l ?p = Some e" "m_write_callback e = Some t" "m_error_callback e = None" "fde_fd e = int i"
    using assms(1) by (simp add: watching_def)
  have c: "call_round env k nd = then_outcome (lift_outcome (dispatch_all (loop_env_of ?env) (el_thread_id ?l) [(?m, Some ?p)] ?l))
      (\<lambda>l. put_call nd (cn_channel nd, l))"
    unfolding call_round_def q assms(2) using ew by simp
  show ?thesis
  proof (cases "ne_error env (int i)")
    case False
    then have d: "dispatch_all (loop_env_of ?env) (el_thread_id ?l) [(?m, Some ?p)] ?l = Some (?l\<lparr>m_pending_tasks := [Some t]\<rparr>)"
      using e(1,2) assms(2) by (simp add: dispatch_def handler_def addTask_def)
    have "regs_exist (?l\<lparr>m_pending_tasks := [Some t]\<rparr>)" "ev_at (?l\<lparr>m_pending_tasks := [Some t]\<rparr>) ?p = Some e"
      using assms(4) e(1) by (simp_all add: regs_exist_def)
    then show ?thesis unfolding c d
      by (intro exI [of _ "?l\<lparr>m_pending_tasks := [Some t]\<rparr>"]) (simp add: lift_outcome_def put_call_def)
  next
    case True
    define l' where "l' = ?l\<lparr>m_pending_tasks := [Some t], el_kernel := (el_kernel ?l)(int i := None), m_listen_fds := m_listen_fds ?l - {int i}\<rparr>"
    have ev: "ev_at l' = ev_at ?l" by (rule ext) (simp add: l'_def ev_at_def split: ev_ptr.split)
    have d: "dispatch_all (loop_env_of ?env) (el_thread_id ?l) [(?m, Some ?p)] ?l = Some l'"
      using True e assms(2) k
      by (simp add: dispatch_def handler_def addTask_def deleteEpollEvent_def isInLoopThread_def delete_from_epoll_def getFd_def epoll_ctl_def l'_def Let_def)
    have "regs_exist l'" using assms(4) ev by (auto simp: regs_exist_def) (simp add: l'_def split: if_splits)
    then show ?thesis unfolding c d using ev e(1)
      by (intro exI [of _ l']) (simp add: lift_outcome_def put_call_def, simp add: l'_def)
  qed
qed

section \<open>The failure ends the call\<close>

definition connect_failed :: "connect_result \<Rightarrow> bool" where
  "connect_failed r \<longleftrightarrow> (\<exists>e. r = Conn_Refused e \<or> r = Conn_Failed e)"

definition failure_code :: "connect_result \<Rightarrow> int" where
  "failure_code r = (case r of Conn_Refused _ \<Rightarrow> ERROR_PEER_CLOSED | _ \<Rightarrow> ERROR_FAILED_CONNECT)"

definition failure_info :: "connect_result \<Rightarrow> string" where
  "failure_info r = (case r of
     Conn_Refused e \<Rightarrow> ''connect refused, sys error = '' @ e
   | Conn_Failed e \<Rightarrow> ''connect unkonwn error, sys error = '' @ e
   | _ \<Rightarrow> [])"

lemma failure_code_nonzero: "failure_code r \<noteq> 0"
  by (simp add: failure_code_def err_codes split: connect_result.split)

lemma deleteEpollEvent_exists:
  assumes "ev_at l p \<noteq> None" "regs_exist l"
  shows "\<exists>l'. deleteEpollEvent fd_ok (el_thread_id l) p l = Some l' \<and> ev_at l' = ev_at l \<and> regs_exist l' \<and>
    m_is_looping l' = m_is_looping l"
proof -
  define l' where "l' = the (delete_from_epoll fd_ok p l)"
  obtain e where e: "ev_at l p = Some e" using assms(1) by blast
  then have d: "deleteEpollEvent fd_ok (el_thread_id l) p l = Some l'"
    by (simp add: l'_def deleteEpollEvent_def isInLoopThread_def delete_from_epoll_def case_prod_beta)
  obtain k f where k: "l' = l\<lparr>el_kernel := k, m_listen_fds := f\<rparr>" "\<And>fd x. k fd = Some x \<Longrightarrow> el_kernel l fd = Some x"
    using deleteEpollEvent_in_loop [OF d] by (fastforce split: if_splits)
  have "ev_at l' = ev_at l" by (simp add: k(1))
  moreover have "el_kernel l' = k" by (simp add: k(1))
  ultimately have "regs_exist l'" using assms(2) k(2) unfolding regs_exist_def by fastforce
  then show ?thesis using d k(1) by simp
qed

lemma failed_connect_done:
  assumes "client_of i ch cl c" "connect_failed (ne_connect env)" "ev_at l (Group_Event i) \<noteq> None" "regs_exist l" "m_is_looping l"
    and "ch_controller ch = Some ctl" "\<not> Finished ctl" "ch_closure ch" "cc_user k = client_stop"
    and "ctl' = SetFinished True (SetError (failure_code (ne_connect env)) (failure_info (ne_connect env)) ctl)"
  shows "\<exists>ch' l'. connect_done env k ch l = Some (ch', l') \<and> ch_runs ch' = ch_runs ch + 1 \<and> ch_controller ch' = Some ctl' \<and>
    ch_response ch' = ch_response ch \<and> m_stop_flag l' \<and> regs_exist l'"
proof -
  let ?r = "ne_connect env"
  define l1 where "l1 = l\<lparr>el_kernel := (el_kernel l)(cli_fd cl := None)\<rparr>"
  have l1: "ev_at l1 (Group_Event i) \<noteq> None" "regs_exist l1" "m_is_looping l1" "el_thread_id l1 = el_thread_id l"
    using assms(3-5) by (auto simp: l1_def regs_exist_def split: if_splits)
  obtain l2 where l2: "deleteEpollEvent (ne_fd_ok env) (el_thread_id l) (Group_Event i) l1 = Some l2" "ev_at l2 = ev_at l1" "regs_exist l2"
      "m_is_looping l2"
    using deleteEpollEvent_exists [OF l1(1,2), of "ne_fd_ok env"] l1(3,4) by auto
  define cl' where "cl' = cl\<lparr>cli_connect_error_code := failure_code ?r, cli_connect_error_info := failure_info ?r, cli_fd := ne_new_fd env\<rparr>"
  have cl: "ch_client ch = Some cl" "cli_fd_event cl = i" using assms(1) by (simp_all add: client_of_def)
  have w: "connect_writable (ne_fd_ok env) (el_thread_id l) (ne_inet_ntoa env) (ne_sockname env) ?r (ne_new_fd env) cl l = Some (cl', l2)"
    using assms(2) cl(2) l2(1) by (auto simp: connect_writable_def connect_failed_def cl'_def failure_code_def failure_info_def l1_def)
  let ?ctl = "SetError (failure_code ?r) (failure_info ?r) ctl"
  let ?ch = "ch\<lparr>ch_client := Some cl', ch_controller := Some ctl', ch_runs := ch_runs ch + 1\<rparr>"
  have "on_connected (cc_verbose k) (ne_fd_ok env) (el_thread_id l2) (cc_req k) (cc_done_write k) (ch\<lparr>ch_client := Some cl'\<rparr>) l2 = Some (?ch, l2)"
    using assms(6-8,10) failure_code_nonzero
    by (simp add: on_connected_def getConnectErrorCode_def getConnectErrorInfo_def cl'_def channel_SetError_def callBack_def)
  then have "connect_done env k ch l = Some (?ch, client_stop l2)"
    using cl(1) w assms(9) by (simp add: connect_done_def run_user_def)
  moreover have "regs_exist (client_stop l2)" "m_stop_flag (client_stop l2)"
    using l2(3,4) client_stop_loop by (simp_all add: regs_exist_def)
  ultimately show ?thesis by (intro exI [of _ ?ch] exI [of _ "client_stop l2"]) simp
qed

section \<open>A descriptor used before\<close>

text \<open>
  A loop that hears only its wake-up descriptor and its timer, so far without the user's closure having run more than \<open>n\<close> times.
\<close>

definition inner_task :: "task option \<Rightarrow> bool" where
  "inner_task t \<longleftrightarrow> t \<in> {None, Some Read_Wakeup_Fd, Some On_Timer}"

definition deaf :: "event_loop \<Rightarrow> bool" where
  "deaf l \<longleftrightarrow> \<not> m_stop_flag l \<and> (\<forall>t \<in> set (m_pending_tasks l). inner_task t) \<and>
     (\<forall>fd m d. el_kernel l fd = Some (m, d) \<longrightarrow> d = Some Wakeup_Event \<or> d = Some Timer_Event) \<and>
     (\<forall>p e. ev_at l p = Some e \<and> (p = Wakeup_Event \<or> p = Timer_Event) \<longrightarrow> ev_typed p e)"

lemma deaf_frame:
  assumes "deaf l" "m_stop_flag l' = m_stop_flag l" "ev_at l' = ev_at l" "el_kernel l' = el_kernel l" "\<forall>t \<in> set (m_pending_tasks l'). inner_task t"
  shows "deaf l'"
  using assms by (simp add: deaf_def)

text \<open>The timeout marks the controller finished before \<open>callBack\<close> sees it.\<close>

lemma on_timeout_runs: "on_timeout ch = Some ch' \<Longrightarrow> ch_runs ch' = ch_runs ch"
  by (auto simp: on_timeout_def callBack_def bind_eq_Some_conv split: if_splits)

lemma run_timeouts_runs: "run_timeouts k ts ch l = Some (ch', l') \<Longrightarrow> ch_runs ch' = ch_runs ch \<and> l' = l"
proof (induction ts arbitrary: ch)
  case (Cons t ts)
  then obtain ch1 where "on_timeout ch = Some ch1" "run_timeouts k ts ch1 (run_user k ch ch1 l) = Some (ch', l')"
    by (auto simp: bind_eq_Some_conv split: if_splits)
  then show ?case using Cons.IH [of ch1] on_timeout_runs [of ch ch1] by (simp add: run_user_def)
qed simp

lemma call_task_deaf:
  assumes "deaf (cn_loop nd)" "inner_task (Some t)" "call_task env k t nd = Some (Returns nd')"
  shows "deaf (cn_loop nd') \<and> ch_runs (cn_channel nd') = ch_runs (cn_channel nd) \<and> cn_sent nd' = cn_sent nd"
proof (cases "t = Read_Wakeup_Fd")
  case True
  then have n: "nd' = nd\<lparr>cn_loop := (cn_loop nd)\<lparr>el_eventfd := 0\<rparr>\<rparr>"
    using assms(3) by (auto simp: call_task_def put_call_def Let_def then_outcome_Returns run_task_def)
  have "deaf ((cn_loop nd)\<lparr>el_eventfd := 0\<rparr>)"
    by (rule deaf_frame [OF assms(1)]) (use assms(1) in \<open>auto simp: deaf_def ev_at_def fun_eq_iff split: ev_ptr.split\<close>)
  then show ?thesis by (simp add: n)
next
  case False
  then have "t = On_Timer" using assms(2) by (simp add: inner_task_def)
  then obtain tm ts ch' l' where t: "onTimer (ne_clock env) (ne_timer_reads env) (el_timer (cn_loop nd)) = Some (tm, ts)"
      "run_timeouts k ts (cn_channel nd) ((cn_loop nd)\<lparr>el_timer := tm\<rparr>) = Some (ch', l')" "nd' = nd\<lparr>cn_channel := ch', cn_loop := l'\<rparr>"
    using assms(3) by (auto simp: call_task_def put_call_def Let_def then_outcome_Returns split: option.splits)
  have "ev_at ((cn_loop nd)\<lparr>el_timer := tm\<rparr>) = ev_at (cn_loop nd)"
    using onTimer_event [OF t(1)] by (auto simp: ev_at_def fun_eq_iff split: ev_ptr.split)
  then have "deaf ((cn_loop nd)\<lparr>el_timer := tm\<rparr>)" by (intro deaf_frame [OF assms(1)]) (use assms(1) in \<open>simp_all add: deaf_def\<close>)
  then show ?thesis using run_timeouts_runs [OF t(2)] by (simp add: t(3))
qed

lemma call_tasks_deaf:
  "call_tasks env k ts nd = Some (Returns nd') \<Longrightarrow> deaf (cn_loop nd) \<Longrightarrow> \<forall>t \<in> set ts. inner_task t \<Longrightarrow>
   deaf (cn_loop nd') \<and> ch_runs (cn_channel nd') = ch_runs (cn_channel nd) \<and> cn_sent nd' = cn_sent nd"
proof (induction env k ts nd rule: call_tasks.induct)
  case (3 env k t ts nd)
  then obtain nd1 where s: "call_task env k t nd = Some (Returns nd1)" "call_tasks env k ts nd1 = Some (Returns nd')"
    by (auto simp: then_outcome_Returns)
  note d = call_task_deaf [OF 3(3) _ s(1)]
  then show ?case using 3(1) [of nd1] 3(4) s(2) by simp
qed simp_all

lemma dispatch_deaf:
  assumes "deaf l" "snd ev = Some Wakeup_Event \<or> snd ev = Some Timer_Event" "dispatch env (el_thread_id l) ev l = Some l'"
  shows "deaf l' \<and> el_thread_id l' = el_thread_id l"
proof -
  obtain p where p: "snd ev = Some p" "p = Wakeup_Event \<or> p = Timer_Event" using assms(2) by blast
  obtain e where e: "ev_at l p = Some e" using assms(3) p(1) by (auto simp: dispatch_def bind_eq_Some_conv)
  have "ev_typed p e" using assms(1) e p(2) by (simp add: deaf_def)
  then have h: "inner_task (handler h e)" "m_error_callback e = None" for h
    using p(2) by (cases h; auto simp: ev_typed_def handler_def inner_task_def)+
  define l1 where "l1 = (if fst ev AND EPOLLIN \<noteq> 0 then addTask (handler IN_EVENT e) False l else l)"
  define l2 where "l2 = (if fst ev AND EPOLLOUT \<noteq> 0 then addTask (handler OUT_EVENT e) False l1 else l1)"
  have add: "deaf (addTask (handler h e) False l0)" if "deaf l0" for h l0
    by (rule deaf_frame [OF that]) (use that h(1) in \<open>auto simp: deaf_def addTask_def\<close>)
  have l2: "deaf l2" "el_thread_id l2 = el_thread_id l" using assms(1) add by (simp_all add: l1_def l2_def)
  have he: "handler ERROR_EVENT e = None" using h(2) by (simp add: handler_def)
  have d: "(if fst ev AND EPOLLERR \<noteq> 0 then do {
        s \<leftarrow> deleteEpollEvent (env_fd_ok env) (el_thread_id l2) p l2;
        if handler ERROR_EVENT e \<noteq> None then Some (addTask (handler OUT_EVENT e) False s) else Some s }
      else Some l2) = Some l'"
    unfolding l2(2) unfolding l2_def l1_def using assms(3) p(1) e by (simp add: dispatch_def Let_def split del: if_split)
  consider "l' = l2" | "deleteEpollEvent (env_fd_ok env) (el_thread_id l2) p l2 = Some l'"
    using d he by (cases "fst ev AND EPOLLERR \<noteq> 0") (auto simp: bind_eq_Some_conv)
  then show ?thesis
  proof cases
    case 2
    obtain k f where k: "l' = l2\<lparr>el_kernel := k, m_listen_fds := f\<rparr>" "\<And>fd x. k fd = Some x \<Longrightarrow> el_kernel l2 fd = Some x"
      using deleteEpollEvent_in_loop [OF 2] by (fastforce split: if_splits)
    have "ev_at l' = ev_at l2" "m_stop_flag l' = m_stop_flag l2" "m_pending_tasks l' = m_pending_tasks l2" "el_kernel l' = k"
      "el_thread_id l' = el_thread_id l2" by (simp_all add: k(1))
    then show ?thesis using l2 k(2) unfolding deaf_def by metis
  qed (use l2 in simp)
qed

lemma dispatch_all_deaf:
  assumes "deaf l" "\<forall>ev \<in> set evs. snd ev = Some Wakeup_Event \<or> snd ev = Some Timer_Event" "dispatch_all env (el_thread_id l) evs l = Some l'"
  shows "deaf l'"
  using assms
proof (induction evs arbitrary: l)
  case (Cons ev evs)
  then obtain l1 where s: "dispatch env (el_thread_id l) ev l = Some l1" "dispatch_all env (el_thread_id l) evs l1 = Some l'"
    by (auto simp: bind_eq_Some_conv)
  then show ?case using dispatch_deaf [OF Cons.prems(1) _ s(1)] Cons.prems(2) Cons.IH [of l1] by simp
qed simp

lemma epoll_wait_deaf:
  assumes "deaf (cn_loop nd)" "ev \<in> set (epoll_wait env (call_view nd))"
  shows "snd ev = Some Wakeup_Event \<or> snd ev = Some Timer_Event"
proof -
  obtain fd where "ev \<in> set (fd_report env (call_view nd) fd)" using in_set_takeD [OF assms(2) [unfolded epoll_wait_def]] by auto
  then obtain m d where "el_kernel (cn_loop nd) fd = Some (m, d)" "snd ev = d"
    by (cases "el_kernel (cn_loop nd) fd") (auto simp: fd_report_def call_view_def Let_def split: if_splits)
  then show ?thesis using assms(1) unfolding deaf_def by blast
qed

lemma call_round_deaf:
  assumes "call_round env k nd = Some (Returns nd')" "deaf (cn_loop nd)"
  shows "deaf (cn_loop nd') \<and> ch_runs (cn_channel nd') = ch_runs (cn_channel nd) \<and> cn_sent nd' = cn_sent nd"
proof -
  let ?nd = "nd\<lparr>cn_loop := (cn_loop nd)\<lparr>m_pending_tasks := []\<rparr>\<rparr>" and ?env = "node_env.truncate env"
  obtain nd1 l where r: "call_tasks env k (m_pending_tasks (cn_loop nd)) ?nd = Some (Returns nd1)"
      "dispatch_all (loop_env_of ?env) (el_thread_id (cn_loop nd1)) (epoll_wait ?env (call_view nd1)) (cn_loop nd1) = Some l"
      "nd' = nd1\<lparr>cn_loop := l\<rparr>"
    using assms(1) by (auto simp: call_round_def put_call_def then_outcome_Returns)
  have "deaf (cn_loop ?nd)" "\<forall>t \<in> set (m_pending_tasks (cn_loop nd)). inner_task t"
    using assms(2) by (simp_all add: deaf_def)
  from call_tasks_deaf [OF r(1) this]
  have d: "deaf (cn_loop nd1)" "ch_runs (cn_channel nd1) = ch_runs (cn_channel nd)" "cn_sent nd1 = cn_sent nd" by simp_all
  then have "deaf l" using dispatch_all_deaf [OF d(1) _ r(2)] epoll_wait_deaf [OF d(1)] by blast
  then show ?thesis using d by (simp add: r(3))
qed

lemma call_rounds_deaf:
  "call_rounds envs k nd = Some (Returns nd') \<Longrightarrow> deaf (cn_loop nd) \<Longrightarrow>
   deaf (cn_loop nd') \<and> ch_runs (cn_channel nd') = ch_runs (cn_channel nd) \<and> cn_sent nd' = cn_sent nd"
  by (induction envs arbitrary: nd) (auto simp: then_outcome_Returns dest: call_round_deaf split: if_splits)

text \<open>
  A descriptor that an answered call has left behind: the loop still counts it among its descriptors, but when the client was destroyed the kernel
  has dropped it from the interest list.
\<close>

definition stale_fd :: "nat \<Rightarrow> event_loop \<Rightarrow> bool" where
  "stale_fd i l \<longleftrightarrow> int i \<in> m_listen_fds l \<and> el_kernel l (int i) = None \<and> (\<exists>e. ev_at l (Group_Event i) = Some e \<and> fde_fd e = int i)"

lemma stale_client_new:
  assumes "stale_fd i l" "m_stop_flag l \<or> \<not> m_is_looping l"
  shows "\<exists>cl c. TcpClient_new fd_ok tid flag (int i) (Some peer) l = Some (cl, l\<lparr>m_stop_flag := False, m_is_looping := False\<rparr>) \<and>
    cli_fd_event cl = i \<and> cli_connection cl = Some c"
proof -
  have l: "(if m_stop_flag l then l\<lparr>m_stop_flag := False, m_is_looping := False\<rparr> else l) = l\<lparr>m_stop_flag := False, m_is_looping := False\<rparr>"
    using assms(2) by (cases l) auto
  have "getFdEvent (int i) (el_group l) = Some (i, el_group l)"
    using assms(1) by (auto simp: stale_fd_def getFdEvent_def ev_at_def split: if_splits)
  then show ?thesis unfolding TcpClient_new_def l
    by (simp add: TcpConnection_new_def setConnectionType_def Let_def)
qed

text \<open>How it comes about: the response ends the loop with the read event still registered, and the client's destructor only closes the descriptor.\<close>

lemma answered_call_leaves_stale_fd:
  assumes "awaiting k i nd" "m_pending_tasks (cn_loop nd) = []" "\<not> m_stop_flag (cn_loop nd)" "m_is_looping (cn_loop nd)"
    and "cn_sock nd = \<lparr>si_chunks = [frame_bytes rsp], si_end = At_Again\<rparr>" "wire_ok rsp" "m_msg_id rsp = m_msg_id (cc_req k)"
    and "\<And>c. channel_conn (cn_channel nd) = Some c \<Longrightarrow> frame_size rsp < free_bytes (m_in_buffer c)"
    and "ch_controller (cn_channel nd) = Some ctl" "\<not> Finished ctl" "ch_closure (cn_channel nd)" "ch_response (cn_channel nd) \<noteq> None"
    and "cc_parse k (m_pb_data rsp) = Some msg" "m_err_code rsp = 0" "serves e4 i (cn_loop nd)" "serves e5 i (cn_loop nd)" "cc_user k = client_stop"
  shows "\<exists>nd'. call_rounds [e4, e5] k nd = Some (Returns nd') \<and> int i \<in> m_listen_fds (cn_loop nd') \<and>
    stale_fd i ((cn_loop nd')\<lparr>el_kernel := (el_kernel (cn_loop nd'))(int i := None)\<rparr>)"
proof -
  obtain nd' where nd': "call_rounds [e4, e5] k nd = Some (Returns nd')" "cn_loop nd' = client_stop (cn_loop nd)"
    using response_leaves_loop [OF assms] by blast
  have "watching 1 (Some (On_Read i)) (Some (On_Write i)) i (cn_loop nd')"
    using assms(1) client_stop_loop by (simp add: nd'(2) awaiting_def watching_def client_stop_keeps)
  then have "int i \<in> m_listen_fds (cn_loop nd') \<and> stale_fd i ((cn_loop nd')\<lparr>el_kernel := (el_kernel (cn_loop nd'))(int i := None)\<rparr>)"
    unfolding watching_def stale_fd_def by (auto simp: ev_at_def split: if_splits)
  then show ?thesis using nd'(1) by blast
qed

text \<open>Registering it again is a modification the kernel refuses.\<close>

lemma stale_connect:
  assumes "stale_fd i l" "cli_fd_event cl = i" "\<not> m_is_looping l" "el_thread_id l = tid"
  shows "\<exists>l'. client_connect fd_ok tid nt sn Conn_In_Progress n cl l = Some (cl, l', Enter_Loop) \<and> el_kernel l' = el_kernel l \<and>
    (\<forall>p. p \<noteq> Group_Event i \<longrightarrow> ev_at l' p = ev_at l p) \<and> m_pending_tasks l' = m_pending_tasks l \<and> m_stop_flag l' = m_stop_flag l \<and>
    m_is_looping l' = m_is_looping l \<and> el_wakeup_fd l' = el_wakeup_fd l \<and> el_timer l' = el_timer l \<and> stale_fd i l'"
proof -
  let ?f = "fd_listen (Group_Event i) OUT_EVENT (Some (Client_Task n)) None"
  obtain e where e: "ev_at l (Group_Event i) = Some e" "fde_fd e = int i" using assms(1) by (auto simp: stale_fd_def)
  obtain l1 where l1: "update_event i ?f l = Some l1" "ev_at l1 (Group_Event i) = Some (?f e)" "el_kernel l1 = el_kernel l" "m_listen_fds l1 = m_listen_fds l"
      "el_thread_id l1 = el_thread_id l" "m_pending_tasks l1 = m_pending_tasks l"
    using update_event_ok [OF e(1), of ?f] by blast
  have s1: "m_stop_flag l1 = m_stop_flag l" "m_is_looping l1 = m_is_looping l" "el_wakeup_fd l1 = el_wakeup_fd l" "el_timer l1 = el_timer l"
    using l1(1) by (auto simp: update_event_def bind_eq_Some_conv)
  have fd: "fde_fd (?f e) = int i" using e(2) by (simp add: fd_listen_def Let_def)
  obtain l' where l': "addEpollEvent fd_ok tid (Group_Event i) l1 = Some l'" using addEpollEvent_ok [OF l1(2)] by blast
  then have "l' = l1" using addEpollEvent_in_loop [of fd_ok l1 "Group_Event i" l'] l1(2-5) assms(1,4) fd
    by (simp add: stale_fd_def insert_absorb)
  then show ?thesis using l1 l' s1 assms ev_at_update_event [OF l1(1)] fd
    by (intro exI [of _ l1]) (auto simp: client_connect_def isLooping_def stale_fd_def Let_def)
qed

lemma unheard_round:
  assumes "m_pending_tasks (cn_loop nd) = []" "el_kernel (cn_loop nd) (int i) = None" "ne_order env = [int i]"
  shows "call_round env k nd = Some (Returns nd)"
proof -
  have "fd_report (node_env.truncate env) (call_view nd) (int i) = []" using assms(2) by (simp add: fd_report_def call_view_def)
  then have e: "epoll_wait (node_env.truncate env) (call_view nd) = []" using assms(3) by (simp add: epoll_wait_def node_env.truncate_def)
  have q: "nd\<lparr>cn_loop := (cn_loop nd)\<lparr>m_pending_tasks := []\<rparr>\<rparr> = nd" using assms(1) by simp
  show ?thesis unfolding call_round_def q assms(1) using e by (simp add: lift_outcome_def put_call_def)
qed

lemma unheard_rounds:
  "m_pending_tasks (cn_loop nd) = [] \<Longrightarrow> el_kernel (cn_loop nd) (int i) = None \<Longrightarrow> ne_order env = [int i] \<Longrightarrow>
   call_rounds (replicate n env) k nd = Some (Returns nd)"
  by (induction n) (simp_all add: unheard_round)

lemma with_timeout_events: "ev_at (with_timeout env te c l) = ev_at l"
proof (rule ext)
  fix p
  have "fd_event.truncate (addTimerEvent clock te t) = fd_event.truncate t" for clock and t :: timer
    by (auto simp: addTimerEvent_def timer_resetArriveTime_def fd_event.truncate_def tick_def Let_def split: list.splits)
  then show "ev_at (with_timeout env te c l) p = ev_at l p"
    by (simp add: with_timeout_def ev_at_def split: ev_ptr.split) (simp add: fd_event.truncate_def tick_def)
qed

text \<open>\<open>call_possible\<close> with a socket whose number was used before, in a thread whose loop is otherwise idle.\<close>

definition reuse_possible :: "call_env \<Rightarrow> string \<Rightarrow> 16 word \<Rightarrow> nat \<Rightarrow> event_loop \<Rightarrow> bool" where
  "reuse_possible env ip p i l \<longleftrightarrow> atoi (map_index (getServiceCenterMap (ce_globals env)) ''query_port'') \<noteq> None \<and>
     CHR '':'' \<notin> set ip \<and> ip \<noteq> [] \<and> p \<noteq> 0 \<and> ce_net env = net_up (ip @ '':'' @ to_string (uint p)) \<and>
     reply_ok (ip @ '':'' @ to_string (uint p)) \<and> ce_sock env = int i \<and> ce_connect env = Conn_In_Progress \<and> ce_tid env = el_thread_id l \<and>
     stale_fd i l \<and> (m_stop_flag l \<or> \<not> m_is_looping l) \<and> m_pending_tasks l = [] \<and> deaf (l\<lparr>m_stop_flag := False\<rparr>)"

section \<open>Properties\<close>

text \<open>
  C10. A call to a node that refuses the connection, or cannot be reached, returns: the first pass of its loop reports the socket, in error or
  not; in the second the closure of \<open>connect\<close> finds out, the controller gets \<open>ERROR_PEER_CLOSED\<close> or
  \<open>ERROR_FAILED_CONNECT\<close> with the system's text and is marked failed and finished, the user's closure runs once and ends the loop.  Nothing has been sent.
\<close>

theorem refused_call_returns:
  assumes "call_possible env ip p i l" "ch_is_init ch" "ch_controller ch = Some c" "choose_msg_id (ce_urandom env) rt ids c = Some (mid, c', ids')"
    and "\<not> Finished c" "ch_closure ch" "req = TinyPBProtocol_new\<lparr>m_msg_id := mid, m_method_name := full_name, m_pb_data := pb\<rparr>"
    and "closures_of env req k" "cc_user k = client_stop" "wire_ok req" "frame_size req \<le> 1431655765"
    and "reports_failure e1 i l" "connect_failed (ne_connect e2)"
  shows "\<exists>ch1 l1 nd ctl. CallMethod env full_name (True, True, True) (Some pb) te rt ids ch l = Some (ch1, l1, ids', Call_Loops req) \<and>
    call_loop [e1, e2] k ch1 l1 = Some (Returns nd) \<and> m_stop_flag (cn_loop nd) \<and> cn_sent nd = [] \<and>
    ch_runs (cn_channel nd) = ch_runs ch + 1 \<and> ch_controller (cn_channel nd) = Some ctl \<and>
    GetErrorCode ctl = failure_code (ne_connect e2) \<and> GetErrorInfo ctl = failure_info (ne_connect e2) \<and> Failed ctl \<and> Finished ctl"
proof -
  define ctl where "ctl = SetFinished True (SetError (failure_code (ne_connect e2)) (failure_info (ne_connect e2)) c')"
  obtain cl l1 nd where m: "CallMethod env full_name (True, True, True) (Some pb) te rt ids ch l =
      Some (ch\<lparr>ch_peer_addr := Some (IPNetAddr_of_ip_port (ce_inet_addr env) ip p), ch_client := Some cl, ch_controller := Some c'\<rparr>, l1, ids', Call_Loops req)"
    and nd: "nd = \<lparr>cn_channel = ch\<lparr>ch_peer_addr := Some (IPNetAddr_of_ip_port (ce_inet_addr env) ip p), ch_client := Some cl, ch_controller := Some c'\<rparr>,
      cn_loop = l1\<lparr>m_is_looping := True\<rparr>, cn_sock = idle_sock, cn_sent = []\<rparr>"
    and s: "connecting k i nd" "m_pending_tasks l1 = []" "\<not> m_stop_flag l1" "regs_exist (cn_loop nd)" "el_wakeup_fd l1 = el_wakeup_fd l"
      "fde_fd (el_timer l1) = fde_fd (el_timer l)"
    using CallMethod_connecting [OF assms(1-4,7,8,10,11), of te] by (elim exE conjE) metis
  let ?ch = "cn_channel nd" and ?t = "Client_Task (cc_connect k)"
  obtain cl0 cn where co: "client_of i ?ch cl0 cn" and w: "watching 4 None (Some ?t) i (cn_loop nd)" using s(1) by (auto simp: connecting_def)
  have rf: "reports_failure e1 i (cn_loop nd)" "m_pending_tasks (cn_loop nd) = []" using assms(12) s(2,5,6) by (simp_all add: reports_failure_def nd)
  obtain l2 where l2: "call_round e1 k nd = Some (Returns (nd\<lparr>cn_loop := l2\<rparr>))" "m_pending_tasks l2 = [Some ?t]" "ev_at l2 (Group_Event i) \<noteq> None"
      "m_is_looping l2" "\<not> m_stop_flag l2" "regs_exist l2"
    using failure_is_queued [OF w rf(2,1) s(4), of k] s(3) by (auto simp: nd)
  let ?l2 = "l2\<lparr>m_pending_tasks := []\<rparr>"
  have fin: "\<not> Finished c'" using assms(5) choose_msg_id_sets [OF assms(4)] by simp
  have l2': "ev_at ?l2 (Group_Event i) \<noteq> None" "regs_exist ?l2" "m_is_looping ?l2" using l2(3,4,6) by (simp_all add: regs_exist_def)
  have cc: "ch_controller ?ch = Some c'" "ch_closure ?ch" "ch_runs ?ch = ch_runs ch" using assms(6) by (simp_all add: nd)
  obtain ch' l3 where d: "connect_done e2 k ?ch ?l2 = Some (ch', l3)" "ch_runs ch' = ch_runs ch + 1" "ch_controller ch' = Some ctl"
      "m_stop_flag l3" "regs_exist l3"
    using failed_connect_done [OF co assms(13) l2' cc(1) fin cc(2) assms(9) ctl_def] cc(3) by auto
  have "call_tasks e2 k (m_pending_tasks (cn_loop (nd\<lparr>cn_loop := l2\<rparr>))) (queue_call [] (nd\<lparr>cn_loop := l2\<rparr>)) =
      Some (Returns (nd\<lparr>cn_channel := ch', cn_loop := l3\<rparr>))"
    using d(1) l2(2) by (simp add: queue_call_def call_task_def lift_outcome_def put_call_def)
  from call_round_any [OF this] d(5) obtain l4 where l4: "call_round e2 k (nd\<lparr>cn_loop := l2\<rparr>) = Some (Returns (nd\<lparr>cn_channel := ch', cn_loop := l4\<rparr>))"
      "m_stop_flag l4 = m_stop_flag l3" by auto
  have "call_loop [e1, e2] k ?ch l1 = call_rounds [e1, e2] k nd" by (simp add: call_loop_def nd del: call_rounds.simps)
  also have "\<dots> = Some (Returns (nd\<lparr>cn_channel := ch', cn_loop := l4\<rparr>))" using l2(1,5) l4(1) s(3) by (simp add: nd)
  finally have r: "call_loop [e1, e2] k ?ch l1 = Some (Returns (nd\<lparr>cn_channel := ch', cn_loop := l4\<rparr>))" .
  have e: "GetErrorCode ctl = failure_code (ne_connect e2)" "GetErrorInfo ctl = failure_info (ne_connect e2)" "Failed ctl" "Finished ctl"
    by (simp_all add: ctl_def controller_defs)
  show ?thesis using m r e d(2-4) l4(2)
    by (intro exI [of _ ?ch] exI [of _ l1] exI [of _ "nd\<lparr>cn_channel := ch', cn_loop := l4\<rparr>"] exI [of _ ctl]) (simp add: nd)
qed

text \<open>
  C39. A later call that is given the descriptor number of an earlier, answered one hangs.  \<open>stop\<close> and the destructor of the client leave the
  number in \<open>m_listen_fds\<close>, so the registration of the new socket is a modification the kernel refuses: however often it is ready, passes of the
  loop do nothing; and whatever else happens, the timeout of the call included, the loop is never stopped, the user's closure never runs and the
  request is never written.
\<close>

theorem reused_descriptor_hangs:
  assumes "reuse_possible env ip p i l" "ch_is_init ch" "ch_controller ch = Some c" "choose_msg_id (ce_urandom env) rt ids c = Some (mid, c', ids')"
    and "req = TinyPBProtocol_new\<lparr>m_msg_id := mid, m_method_name := full_name, m_pb_data := pb\<rparr>"
  shows "\<exists>ch1 l1. CallMethod env full_name (True, True, True) (Some pb) te rt ids ch l = Some (ch1, l1, ids', Call_Loops req) \<and>
    (\<forall>e n. ne_order e = [int i] \<longrightarrow> call_loop (replicate n e) k ch1 l1 = call_loop [] k ch1 l1) \<and>
    (\<forall>envs nd. call_loop envs k ch1 l1 = Some (Returns nd) \<longrightarrow>
       \<not> m_stop_flag (cn_loop nd) \<and> ch_runs (cn_channel nd) = ch_runs ch \<and> cn_sent nd = [])"
proof -
  let ?peer = "IPNetAddr_of_ip_port (ce_inet_addr env) ip p"
  obtain q where env: "atoi (map_index (getServiceCenterMap (ce_globals env)) ''query_port'') = Some q"
      "CHR '':'' \<notin> set ip" "ip \<noteq> []" "p \<noteq> 0" "ce_net env = net_up (ip @ '':'' @ to_string (uint p))" "reply_ok (ip @ '':'' @ to_string (uint p))"
    and e: "ce_sock env = int i" "ce_connect env = Conn_In_Progress" "ce_tid env = el_thread_id l" "stale_fd i l" "m_stop_flag l \<or> \<not> m_is_looping l"
      "m_pending_tasks l = []" "deaf (l\<lparr>m_stop_flag := False\<rparr>)"
    using assms(1) by (auto simp: reuse_possible_def)
  define l1 where "l1 = l\<lparr>m_stop_flag := False, m_is_looping := False\<rparr>"
  obtain cl where cl: "TcpClient_new (ce_fd_ok env) (ce_tid env) (ce_flag env) (ce_sock env) (Some ?peer) l = Some (cl, l1)" "cli_fd_event cl = i"
    unfolding l1_def e(1) using stale_client_new [OF e(4,5)] by blast
  let ?l2 = "with_timeout env te c' l1"
  have st: "stale_fd i ?l2" "\<not> m_is_looping ?l2" "el_thread_id ?l2 = ce_tid env"
    using e(3,4) by (simp_all add: stale_fd_def with_timeout_loop with_timeout_events) (auto simp: l1_def ev_at_def split: if_splits)
  obtain l3 where l3: "client_connect (ce_fd_ok env) (ce_tid env) (ce_inet_ntoa env) (ce_sockname env) Conn_In_Progress (ce_connect_task env) cl ?l2 =
      Some (cl, l3, Enter_Loop)" "el_kernel l3 = el_kernel l" "\<And>p. p \<noteq> Group_Event i \<Longrightarrow> ev_at l3 p = ev_at ?l2 p" "m_pending_tasks l3 = []"
      "\<not> m_stop_flag l3" "\<not> m_is_looping l3" "stale_fd i l3"
    using stale_connect [OF st(1) cl(2) st(2,3), of "ce_fd_ok env" "ce_inet_ntoa env" "ce_sockname env" "ce_connect_task env"] e(6)
    by (auto simp: with_timeout_loop) (auto simp: l1_def)
  let ?ch = "ch\<lparr>ch_peer_addr := Some ?peer, ch_client := Some cl, ch_controller := Some c'\<rparr>"
  have m: "CallMethod env full_name (True, True, True) (Some pb) te rt ids ch l = Some (?ch, l3, ids', Call_Loops req)"
    using CallMethod_found [OF assms(2-4) env cl(1), of te l3 req pb full_name, OF _ assms(5)] l3(1,6) e(2) by (simp add: isLooping_def)
  let ?nd = "\<lparr>cn_channel = ?ch, cn_loop = l3\<lparr>m_is_looping := True\<rparr>, cn_sock = idle_sock, cn_sent = []\<rparr>"
  have lp: "call_loop envs k ?ch l3 = call_rounds envs k ?nd" for envs by (simp add: call_loop_def)
  have "ev_at (cn_loop ?nd) p = ev_at (l\<lparr>m_stop_flag := False\<rparr>) p" if "p \<noteq> Group_Event i" for p
  proof -
    have "ev_at (cn_loop ?nd) p = ev_at l3 p" "ev_at l1 p = ev_at (l\<lparr>m_stop_flag := False\<rparr>) p"
      by (simp_all add: l1_def ev_at_def split: ev_ptr.split)
    then show ?thesis using l3(3) [OF that] by (simp only: with_timeout_events)
  qed
  then have "deaf (cn_loop ?nd)" using e(7) l3(2,4,5) by (auto simp: deaf_def)
  then have d: "\<not> m_stop_flag (cn_loop nd) \<and> ch_runs (cn_channel nd) = ch_runs ch \<and> cn_sent nd = []"
    if "call_loop envs k ?ch l3 = Some (Returns nd)" for envs nd
    using call_rounds_deaf [OF that [unfolded lp]] by (simp add: deaf_def)
  have q: "m_pending_tasks (cn_loop ?nd) = []" "el_kernel (cn_loop ?nd) (int i) = None" using l3(4,7) by (simp_all add: stale_fd_def)
  have r: "call_loop (replicate n e) k ?ch l3 = call_loop [] k ?ch l3" if "ne_order e = [int i]" for e n
    unfolding lp unheard_rounds [OF q that] by simp
  show ?thesis using m r d by (intro exI [of _ ?ch] exI [of _ l3]) blast
qed

section \<open>Witnesses\<close>

definition demo_unreachable :: call_loop_env where
  "demo_unreachable = demo_call_loop_env\<lparr>ne_connect := Conn_Refused ''Connection refused'', ne_error := (\<lambda>_. True)\<rparr>"

lemma demo_call_possible: "call_possible (demo_call_env\<lparr>ce_verbose := False\<rparr>) ''127.0.0.1'' 80 9 demo_loop"
  using demo_caller_ready by (intro caller_ready_possible) (simp_all add: caller_ready_def, simp add: demo_call_env_def)

text \<open>The descriptor 9 has been used before.\<close>

definition demo_used_loop :: event_loop where
  "demo_used_loop = demo_loop\<lparr>m_listen_fds := {4, 5, 9}\<rparr>"

lemma demo_used_loop_deaf: "deaf (demo_used_loop\<lparr>m_stop_flag := False\<rparr>)"
proof -
  have l: "loop_inv {} Map.empty demo_loop" using Eventloop_new_inv [OF demo_loop_new] by simp
  then have "\<And>fd m d. el_kernel demo_loop fd = Some (m, d) \<Longrightarrow> d = Some Wakeup_Event \<or> d = Some Timer_Event"
    by (fastforce simp: loop_inv_def base_inv_def regs_live_def reg_ok_def)
  moreover have "ev_at (demo_used_loop\<lparr>m_stop_flag := False\<rparr>) = ev_at demo_loop"
    by (rule ext) (simp add: demo_used_loop_def ev_at_def split: ev_ptr.split)
  ultimately show ?thesis using events_typed_at [OF demo_loop_typed]
    by (auto simp: deaf_def) (auto simp: demo_used_loop_def demo_loop_eval)
qed

lemma demo_reuse_possible: "reuse_possible (demo_call_env\<lparr>ce_verbose := False\<rparr>) ''127.0.0.1'' 80 9 demo_used_loop"
proof -
  have "(9 :: int) \<notin> dom (el_kernel demo_loop)" by (simp add: demo_loop_eval(3))
  then have "el_kernel demo_loop 9 = None" by blast
  then have "stale_fd 9 demo_used_loop"
    using demo_loop_eval(4) by (auto simp: stale_fd_def demo_used_loop_def ev_at_def Fd_Event_new_def split: if_splits)
  moreover have "m_stop_flag demo_used_loop \<or> \<not> m_is_looping demo_used_loop" "m_pending_tasks demo_used_loop = []"
      "el_thread_id demo_used_loop = el_thread_id demo_loop"
    using demo_caller_ready by (simp_all add: caller_ready_def loop_idle_def demo_used_loop_def)
  ultimately show ?thesis using demo_call_possible demo_used_loop_deaf by (simp add: call_possible_def reuse_possible_def)
qed

theorem refused_call_returns_witness:
  "\<exists>ch1 l1 nd ctl. CallMethod (demo_call_env\<lparr>ce_verbose := False\<rparr>) ''Order.makeOrder'' (True, True, True) (Some (m_pb_data demo_msg)) 0 RunTime_new
      msg_id_init (demo_channel\<lparr>ch_controller := Some (SetMsgId ''17'' RpcController_new)\<rparr>) demo_loop = Some (ch1, l1, msg_id_init, Call_Loops demo_msg) \<and>
    call_loop [demo_unreachable, demo_unreachable] demo_closures ch1 l1 = Some (Returns nd) \<and> m_stop_flag (cn_loop nd) \<and> cn_sent nd = [] \<and>
    ch_runs (cn_channel nd) = 1 \<and> ch_controller (cn_channel nd) = Some ctl \<and> GetErrorCode ctl = ERROR_PEER_CLOSED"
proof -
  let ?c = "SetMsgId ''17'' RpcController_new"
  let ?env = "demo_call_env\<lparr>ce_verbose := False\<rparr>" and ?ch = "demo_channel\<lparr>ch_controller := Some ?c\<rparr>"
  have id: "GetMsgId ?c \<noteq> []" "GetMsgId ?c = ''17''" by (simp_all add: GetMsgId_def SetMsgId_def)
  note ids = choose_given_id [OF id(1), unfolded id(2), of "ce_urandom ?env" RunTime_new msg_id_init]
  have ch: "ch_is_init ?ch" "ch_controller ?ch = Some ?c" "\<not> Finished ?c" "ch_closure ?ch" "ch_runs ?ch + 1 = 1"
    by (simp_all add: Finished_def RpcController_new_def SetMsgId_def)
  have req: "demo_msg = TinyPBProtocol_new\<lparr>m_msg_id := ''17'', m_method_name := ''Order.makeOrder'', m_pb_data := m_pb_data demo_msg\<rparr>"
    by (simp add: demo_msg_def)
  have k: "closures_of ?env demo_msg demo_closures" "cc_user demo_closures = client_stop" "frame_size demo_msg \<le> 1431655765"
    by (simp_all add: closures_of_def demo_closures_def demo_call_env_def frame_size_demo_msg)
  have e: "reports_failure demo_unreachable 9 demo_loop" "connect_failed (ne_connect demo_unreachable)"
      "failure_code (ne_connect demo_unreachable) = ERROR_PEER_CLOSED"
    by (simp_all add: reports_failure_def demo_unreachable_def demo_call_loop_env_def demo_loop_fds connect_failed_def failure_code_def)
  from refused_call_returns [OF demo_call_possible ch(1,2) ids ch(3,4) req k(1,2) demo_msg_wire_ok k(3) e(1,2), of 0, unfolded ch(5) e(3)]
  show ?thesis by (elim exE conjE) (intro exI conjI, assumption+)
qed

theorem reused_descriptor_hangs_witness:
  "\<exists>ch1 l1. CallMethod (demo_call_env\<lparr>ce_verbose := False\<rparr>) ''Order.makeOrder'' (True, True, True) (Some (m_pb_data demo_msg)) 0 RunTime_new
      msg_id_init (demo_channel\<lparr>ch_controller := Some (SetMsgId ''17'' RpcController_new)\<rparr>) demo_used_loop = Some (ch1, l1, msg_id_init, Call_Loops demo_msg) \<and>
    (\<forall>e n. ne_order e = [int 9] \<longrightarrow> call_loop (replicate n e) demo_closures ch1 l1 = call_loop [] demo_closures ch1 l1)"
proof -
  let ?c = "SetMsgId ''17'' RpcController_new"
  have id: "GetMsgId ?c \<noteq> []" "GetMsgId ?c = ''17''" by (simp_all add: GetMsgId_def SetMsgId_def)
  note ids = choose_given_id [OF id(1), unfolded id(2), of "ce_urandom (demo_call_env\<lparr>ce_verbose := False\<rparr>)" RunTime_new msg_id_init]
  have ch: "ch_is_init (demo_channel\<lparr>ch_controller := Some ?c\<rparr>)" "ch_controller (demo_channel\<lparr>ch_controller := Some ?c\<rparr>) = Some ?c" by simp_all
  have req: "demo_msg = TinyPBProtocol_new\<lparr>m_msg_id := ''17'', m_method_name := ''Order.makeOrder'', m_pb_data := m_pb_data demo_msg\<rparr>"
    by (simp add: demo_msg_def)
  from reused_descriptor_hangs [OF demo_reuse_possible ch ids req] show ?thesis by blast
qed

end
