(* ===== verification/Call_Sequence.thy ===== *)
theory Call_Sequence
  imports System_Call
begin

text \<open>
  Calls one after the other on a thread: \<open>CallMethod\<close> of \<^verbatim>\<open>net/rpc/rpc_channel.cc\<close> is called again when the loop of an earlier
  call has been left.  \<^verbatim>\<open>net/eventloop.cc\<close> keeps the earlier call's descriptor registered and its timeout pending; as long as
  every call has a descriptor of its own, none disturbs the next.
\<close>

section \<open>A call with its passes\<close>

text \<open>
  What a call is made with: its environment, the channel and the argument of the method, the closures, the passes of its
  loop (three until the request is written, two for the response) and the response that arrives.  The controller has a message id.
\<close>

record a_call =
  ac_env :: call_env
  ac_ip :: string
  ac_port :: "16 word"
  ac_fd :: nat
  ac_channel :: rpc_channel
  ac_name :: string
  ac_arg :: string
  ac_timer :: nat
  ac_rt :: run_time
  ac_ids :: msg_id_state
  ac_closures :: call_closures
  ac_passes :: "call_loop_env list"
  ac_answer :: "call_loop_env list"
  ac_data :: string

definition ac_request :: "a_call \<Rightarrow> tiny_pb" where
  "ac_request a = TinyPBProtocol_new\<lparr>m_msg_id := GetMsgId (the (ch_controller (ac_channel a))), m_method_name := ac_name a, m_pb_data := ac_arg a\<rparr>"

text \<open>A call in the loop \<open>l\<close> up to the return of \<open>CallMethod\<close>: the channel and the loop it leaves.\<close>

definition run_call :: "a_call \<Rightarrow> event_loop \<Rightarrow> (rpc_channel \<times> event_loop) option" where
  "run_call a l = (case CallMethod (ac_env a) (ac_name a) (True, True, True) (Some (ac_arg a)) (ac_timer a) (ac_rt a) (ac_ids a) (ac_channel a) l of
     Some (ch1, l1, _, Call_Loops req) \<Rightarrow>
       (case call_loop (ac_passes a) (ac_closures a) ch1 l1 of
          Some (Returns nd) \<Rightarrow>
            (case call_rounds (ac_answer a) (ac_closures a) (arrive_call (frame_bytes (response_of req (ac_data a))) nd) of
               Some (Returns nd) \<Rightarrow> if m_stop_flag (cn_loop nd) then Some (cn_channel nd, cn_loop nd) else None
             | _ \<Rightarrow> None)
        | _ \<Rightarrow> None)
   | _ \<Rightarrow> None)"

fun run_calls :: "a_call list \<Rightarrow> event_loop \<Rightarrow> (rpc_channel list \<times> event_loop) option" where
  "run_calls [] l = Some ([], l)"
| "run_calls (a # cs) l = do {
     (ch, l) \<leftarrow> run_call a l;
     (chs, l) \<leftarrow> run_calls cs l;
     Some (ch # chs, l) }"

text \<open>What \<open>client_call\<close> asks of a call; \<open>answerable\<close> has the part that concerns the loop.\<close>

definition call_ok :: "a_call \<Rightarrow> bool" where
  "call_ok a \<longleftrightarrow> (\<exists>c e1 e2 e3 e4 e5. ch_is_init (ac_channel a) \<and> ch_controller (ac_channel a) = Some c \<and> GetMsgId c \<noteq> [] \<and> \<not> Finished c \<and>
     ch_closure (ac_channel a) \<and> ch_response (ac_channel a) \<noteq> None \<and> closures_of (ac_env a) (ac_request a) (ac_closures a) \<and>
     cc_user (ac_closures a) = client_stop \<and> wire_ok (ac_request a) \<and> frame_size (ac_request a) \<le> 1431655765 \<and>
     ac_passes a = [e1, e2, e3] \<and> ac_answer a = [e4, e5] \<and> (\<forall>e \<in> {e1, e2, e3}. good_passes (ac_closures a) (ac_fd a) e) \<and>
     wire_ok (response_of (ac_request a) (ac_data a)) \<and> frame_size (response_of (ac_request a) (ac_data a)) < 128 \<and>
     cc_parse (ac_closures a) (ac_data a) \<noteq> None)"

definition answerable :: "a_call \<Rightarrow> event_loop \<Rightarrow> bool" where
  "answerable a l \<longleftrightarrow> call_ok a \<and> call_possible (ac_env a) (ac_ip a) (ac_port a) (ac_fd a) l \<and>
     (\<forall>e \<in> set (ac_passes a @ ac_answer a). serves e (ac_fd a) l)"

text \<open>The channel a call leaves: its closure has run once more, with the response in place.\<close>

definition answered :: "a_call \<Rightarrow> rpc_channel \<Rightarrow> bool" where
  "answered a ch \<longleftrightarrow> ch_runs ch = ch_runs (ac_channel a) + 1 \<and> ch_response ch = cc_parse (ac_closures a) (ac_data a) \<and>
     (\<exists>c. ch_controller ch = Some c \<and> Finished c \<and> GetErrorCode c = GetErrorCode (the (ch_controller (ac_channel a))))"

lemma run_call_answered:
  assumes "answerable a l"
  shows "\<exists>ch l'. run_call a l = Some (ch, l') \<and> answered a ch \<and> ready_again (ac_fd a) l l'"
proof -
  let ?k = "ac_closures a" and ?rsp = "response_of (ac_request a) (ac_data a)"
  obtain c e1 e2 e3 e4 e5 msg where c: "ch_is_init (ac_channel a)" "ch_controller (ac_channel a) = Some c" "GetMsgId c \<noteq> []" "\<not> Finished c"
      "ch_closure (ac_channel a)" "ch_response (ac_channel a) \<noteq> None" "closures_of (ac_env a) (ac_request a) ?k" "cc_user ?k = client_stop"
      "wire_ok (ac_request a)" "frame_size (ac_request a) \<le> 1431655765" "wire_ok ?rsp" "frame_size ?rsp < 128"
    and p: "ac_passes a = [e1, e2, e3]" "ac_answer a = [e4, e5]" "\<forall>e \<in> {e1, e2, e3}. good_passes ?k (ac_fd a) e"
    and msg: "cc_parse ?k (ac_data a) = Some msg"
    using assms by (auto simp: answerable_def call_ok_def)
  have l: "call_possible (ac_env a) (ac_ip a) (ac_port a) (ac_fd a) l" "\<forall>e \<in> {e1, e2, e3}. serves e (ac_fd a) l \<and> good_passes ?k (ac_fd a) e"
      "serves e4 (ac_fd a) l" "serves e5 (ac_fd a) l"
    using assms p by (auto simp: answerable_def)
  have req: "ac_request a = TinyPBProtocol_new\<lparr>m_msg_id := GetMsgId c, m_method_name := ac_name a, m_pb_data := ac_arg a\<rparr>"
    by (simp add: ac_request_def c(2))
  have rsp: "m_msg_id ?rsp = m_msg_id (ac_request a)" "m_err_code ?rsp = 0" "m_pb_data ?rsp = ac_data a" by (simp_all add: response_of_def)
  note ids = choose_given_id [OF c(3), of "ce_urandom (ac_env a)" "ac_rt a" "ac_ids a"]
  obtain ch1 l1 nd1 nd2 where r: "CallMethod (ac_env a) (ac_name a) (True, True, True) (Some (ac_arg a)) (ac_timer a) (ac_rt a) (ac_ids a) (ac_channel a) l =
      Some (ch1, l1, ac_ids a, Call_Loops (ac_request a))" "call_loop [e1, e2, e3] ?k ch1 l1 = Some (Returns nd1)"
      "call_rounds [e4, e5] ?k (arrive_call (frame_bytes ?rsp) nd1) = Some (Returns nd2)" "m_stop_flag (cn_loop nd2)"
      "ch_runs (cn_channel nd2) = ch_runs (ac_channel a) + 1" "ch_response (cn_channel nd2) = Some msg"
      "ch_controller (cn_channel nd2) = Some (SetFinished True c)" "ready_again (ac_fd a) l (cn_loop nd2)"
    using client_call [OF l(1) c(1,2) ids c(4-6) req c(7-10) l(2,3) c(11) rsp(1) c(12) rsp(2), of msg "ac_timer a" e5] msg rsp(3) l(4)
    by auto
  have "run_call a l = Some (cn_channel nd2, cn_loop nd2)"
    using r(1-4) by (simp add: run_call_def p del: call_rounds.simps)
  moreover have "answered a (cn_channel nd2)"
    using r(5-7) msg by (simp add: answered_def c(2) Finished_def SetFinished_def GetErrorCode_def)
  ultimately show ?thesis using r(8) by blast
qed

text \<open>What a call leaves is as good for another call as what it found.\<close>

lemma answerable_again:
  assumes "ready_again i l l'" "answerable a l" "ac_fd a \<noteq> i"
  shows "answerable a l'"
  using assms by (auto simp: answerable_def ready_again_def call_possible_def serves_def)

text \<open>
  C11. A thread can make any number of calls one after the other: when each of them would be answered if it were the only one, and no two
  have the same descriptor, then all are answered, in order, each in the loop the ones before have left; every closure runs exactly
  once, with the response of its own call and the error code the controller had, and the loop is ready for yet another call.
  The passes are those in which only the descriptor of the call itself reports something: no timeout of an earlier call
  becomes due and no earlier connection is closed by its peer during a later call.
\<close>

theorem calls_in_a_row:
  assumes "\<forall>a \<in> set cs. answerable a l" "distinct (map ac_fd cs)" "loop_idle l"
  shows "\<exists>chs l'. run_calls cs l = Some (chs, l') \<and> list_all2 answered cs chs \<and> loop_idle l' \<and>
    (\<forall>j. j \<notin> ac_fd ` set cs \<longrightarrow> unused_fd j l \<longrightarrow> unused_fd j l')"
  using assms
proof (induction cs arbitrary: l)
  case (Cons a cs)
  obtain ch l1 where r: "run_call a l = Some (ch, l1)" "answered a ch" "ready_again (ac_fd a) l l1"
    using run_call_answered Cons.prems(1) by fastforce
  have "\<forall>b \<in> set cs. answerable b l1"
  proof
    fix b assume b: "b \<in> set cs"
    then have "ac_fd b \<in> ac_fd ` set cs" by simp
    then have "ac_fd b \<noteq> ac_fd a" using Cons.prems(2) by (metis distinct.simps(2) list.map(2) set_map)
    then show "answerable b l1" using answerable_again [OF r(3)] Cons.prems(1) b by simp
  qed
  moreover have "distinct (map ac_fd cs)" "loop_idle l1" using r(3) Cons.prems(2) by (simp_all add: ready_again_def)
  ultimately have "\<exists>chs l'. run_calls cs l1 = Some (chs, l') \<and> list_all2 answered cs chs \<and> loop_idle l' \<and>
      (\<forall>j. j \<notin> ac_fd ` set cs \<longrightarrow> unused_fd j l1 \<longrightarrow> unused_fd j l')"
    by (rule Cons.IH)
  then obtain chs l' where s: "run_calls cs l1 = Some (chs, l')" "list_all2 answered cs chs" "loop_idle l'"
      "\<forall>j. j \<notin> ac_fd ` set cs \<longrightarrow> unused_fd j l1 \<longrightarrow> unused_fd j l'"
    by blast
  have "unused_fd j l'" if "j \<notin> ac_fd ` set (a # cs)" "unused_fd j l" for j
    using that r(3) s(4) by (simp add: ready_again_def)
  moreover have "run_calls (a # cs) l = Some (ch # chs, l')" using r(1) s(1) by simp
  moreover have "list_all2 answered (a # cs) (ch # chs)" using r(2) s(2) by simp
  ultimately show ?case using s(3) by blast
qed simp

section \<open>Two calls\<close>

definition demo_a_call :: "nat \<Rightarrow> a_call" where
  "demo_a_call i = (let e = demo_call_loop_env\<lparr>ne_order := [int i]\<rparr> in
     \<lparr>ac_env = demo_call_env\<lparr>ce_verbose := False, ce_sock := int i\<rparr>, ac_ip = ''127.0.0.1'', ac_port = 80, ac_fd = i,
      ac_channel = demo_channel\<lparr>ch_controller := Some (SetMsgId ''17'' RpcController_new)\<rparr>, ac_name = ''Order.makeOrder'',
      ac_arg = m_pb_data demo_msg, ac_timer = i, ac_rt = RunTime_new, ac_ids = msg_id_init, ac_closures = demo_closures,
      ac_passes = [e, e, e], ac_answer = [e, e], ac_data = m_pb_data demo_msg\<rparr>)"

lemma demo_a_call_request: "ac_request (demo_a_call i) = demo_msg"
  by (simp add: ac_request_def demo_a_call_def demo_msg_def GetMsgId_def SetMsgId_def Let_def)

lemma demo_a_call_ok: "call_ok (demo_a_call i)"
  unfolding call_ok_def demo_a_call_request
  using demo_msg_wire_ok demo_response_ok frame_size_demo_msg
  by (simp add: demo_a_call_def Let_def good_passes_def demo_closures_def closures_of_def demo_call_env_def demo_call_loop_env_def
      Finished_def GetMsgId_def SetMsgId_def RpcController_new_def)

lemma call_possible_at:
  assumes "call_possible env ip p j l" "unused_fd i l" "int_ok (3 * int i div 2)" "ce_fd_ok env (int i)"
  shows "call_possible (env\<lparr>ce_sock := int i\<rparr>) ip p i l"
  using assms by (simp add: call_possible_def)

lemma demo_a_call_answerable:
  assumes "i = 9 \<or> i = 10"
  shows "answerable (demo_a_call i) demo_loop"
proof -
  have l: "call_possible (demo_call_env\<lparr>ce_verbose := False\<rparr>) ''127.0.0.1'' 80 9 demo_loop"
    using demo_caller_ready by (intro caller_ready_possible) (simp_all add: caller_ready_def, simp add: demo_call_env_def)
  have "int i \<notin> dom (el_kernel demo_loop)" using assms by (auto simp: demo_loop_eval(3))
  then have "el_kernel demo_loop (int i) = None" by blast
  then have "unused_fd i demo_loop" using assms by (auto simp: unused_fd_def unused_entry_def demo_loop_eval FdEventGroup_new_def)
  from call_possible_at [OF l this] have "call_possible (ac_env (demo_a_call i)) ''127.0.0.1'' 80 i demo_loop"
    using assms by (auto simp: demo_a_call_def Let_def demo_call_env_def int_ok_def)
  then show ?thesis
    using demo_a_call_ok [of i] assms by (auto simp: answerable_def serves_def demo_a_call_def Let_def demo_call_loop_env_def demo_loop_fds)
qed

theorem calls_in_a_row_witness:
  "\<exists>chs l'. run_calls [demo_a_call 9, demo_a_call 10] demo_loop = Some (chs, l') \<and> list_all2 answered [demo_a_call 9, demo_a_call 10] chs \<and>
    loop_idle l' \<and> (\<forall>j. j \<notin> ac_fd ` set [demo_a_call 9, demo_a_call 10] \<longrightarrow> unused_fd j demo_loop \<longrightarrow> unused_fd j l')"
proof (rule calls_in_a_row)
  show "\<forall>a \<in> set [demo_a_call 9, demo_a_call 10]. answerable a demo_loop" by (simp add: demo_a_call_answerable)
  show "distinct (map ac_fd [demo_a_call 9, demo_a_call 10])" by (simp add: demo_a_call_def Let_def)
  show "loop_idle demo_loop" using demo_caller_ready by (simp add: caller_ready_def)
qed

end
