(* ===== verification/Server_Interleave.thy ===== *)
theory Server_Interleave
  imports Server_World
begin

text \<open>
  IO threads do not interfere: a pass of a loop reads and changes only its own loop, the connections of its own thread and
  their sockets, so passes of different threads give the same result in either order.
\<close>

section \<open>What a pass depends on\<close>

definition local_eq :: "nat set \<Rightarrow> io_node \<Rightarrow> io_node \<Rightarrow> bool" where
  "local_eq A nd nd2 \<longleftrightarrow> nd_loop nd2 = nd_loop nd \<and> nd_rt nd2 = nd_rt nd \<and>
     (\<forall>i \<in> A. nd_conns nd2 i = nd_conns nd i \<and> nd_socks nd2 i = nd_socks nd i)"

text \<open>A step from \<open>nd\<close> to \<open>nd'\<close> that sends \<open>out\<close> and leaves the rest of the world alone.\<close>

definition outside_eq :: "nat set \<Rightarrow> io_node \<Rightarrow> (nat \<times> byte list) list \<Rightarrow> io_node \<Rightarrow> bool" where
  "outside_eq A nd out nd' \<longleftrightarrow> (\<forall>j. j \<notin> A \<longrightarrow> nd_conns nd' j = nd_conns nd j \<and> nd_socks nd' j = nd_socks nd j) \<and>
     nd_sent nd' = nd_sent nd @ out \<and> fst ` set out \<subseteq> A"

lemma outside_eq_refl: "outside_eq A nd [] nd"
  by (simp add: outside_eq_def)

lemma outside_eq_trans: "outside_eq A nd o1 nd1 \<Longrightarrow> outside_eq A nd1 o2 nd2 \<Longrightarrow> outside_eq A nd (o1 @ o2) nd2"
  by (auto simp: outside_eq_def)

lemma local_eq_sym: "local_eq A nd nd2 \<Longrightarrow> local_eq A nd2 nd"
  by (simp add: local_eq_def)

lemma node_task_local:
  assumes "task_ok A (nd_conns nd) ts t" "local_eq A nd nd2" "node_task env smap t nd = Some (Returns nd')"
  shows "\<exists>nd2' out. node_task env smap t nd2 = Some (Returns nd2') \<and> local_eq A nd' nd2' \<and> outside_eq A nd out nd' \<and> outside_eq A nd2 out nd2'"
proof -
  have e: "nd_loop nd2 = nd_loop nd" "nd_rt nd2 = nd_rt nd" using assms(2) by (auto simp: local_eq_def)
  have quiet: ?thesis if "\<And>nd. node_task env smap t nd = then_outcome (f (nd_loop nd)) (\<lambda>l. Some (Returns (nd\<lparr>nd_loop := l\<rparr>)))" for f
    using assms(2,3) that e by (auto simp: then_outcome_Returns local_eq_def outside_eq_def)
  show ?thesis
  proof (cases t)
    case (On_Read i)
    then have i: "i \<in> A" "nd_conns nd2 i = nd_conns nd i" "nd_socks nd2 i = nd_socks nd i"
      using assms(1,2) by (auto simp: task_ok_def local_eq_def)
    then obtain c c' l' rt calls where c: "nd_conns nd i = Some c"
        "onRead (ne_fd_ok env) (el_thread_id (nd_loop nd)) smap (nd_rt nd) (nd_socks nd i) c (nd_loop nd) = Some (Returns (c', l', rt, calls))"
        "nd' = nd\<lparr>nd_loop := l', nd_conns := (nd_conns nd)(i \<mapsto> c'), nd_rt := rt,
           nd_socks := (nd_socks nd)(i := sock_rest c (nd_socks nd i))\<rparr>"
      using assms(3) On_Read by (auto simp: node_task_def Let_def then_outcome_Returns split: option.splits)
    let ?nd2 = "nd2\<lparr>nd_loop := l', nd_conns := (nd_conns nd2)(i \<mapsto> c'), nd_rt := rt,
           nd_socks := (nd_socks nd2)(i := sock_rest c (nd_socks nd i))\<rparr>"
    have "node_task env smap t nd2 = Some (Returns ?nd2)" using On_Read c(1,2) i e by (simp add: node_task_def)
    moreover have "local_eq A nd' ?nd2" "outside_eq A nd [] nd'" "outside_eq A nd2 [] ?nd2"
      using assms(2) i(1) by (auto simp: c(3) local_eq_def outside_eq_def)
    ultimately show ?thesis by blast
  next
    case (On_Write i)
    then have i: "i \<in> A" "nd_conns nd2 i = nd_conns nd i" using assms(1,2) by (auto simp: task_ok_def local_eq_def)
    then obtain c c' l' bytes calls where c: "nd_conns nd i = Some c"
        "onWrite (ne_fd_ok env) (el_thread_id (nd_loop nd)) (ne_writes env i) c (nd_loop nd) = Some (c', l', bytes, calls)"
        "nd' = nd\<lparr>nd_loop := l', nd_conns := (nd_conns nd)(i \<mapsto> c'), nd_sent := nd_sent nd @ (if bytes = [] then [] else [(i, bytes)])\<rparr>"
      using assms(3) On_Write by (auto simp: node_task_def Let_def then_outcome_Returns split: option.splits)
    let ?out = "if bytes = [] then [] else [(i, bytes)]"
    let ?nd2 = "nd2\<lparr>nd_loop := l', nd_conns := (nd_conns nd2)(i \<mapsto> c'), nd_sent := nd_sent nd2 @ ?out\<rparr>"
    have "node_task env smap t nd2 = Some (Returns ?nd2)" using On_Write c(1,2) i e by (simp add: node_task_def lift_outcome_def)
    moreover have "local_eq A nd' ?nd2" "outside_eq A nd ?out nd'" "outside_eq A nd2 ?out ?nd2"
      using assms(2) i(1) by (auto simp: c(3) local_eq_def outside_eq_def)
    ultimately show ?thesis by blast
  qed (rule quiet [of "\<lambda>l. lift_outcome (run_task (loop_env_of env) t l)"], simp add: node_task_def)+
qed

lemma node_tasks_local:
  assumes "batch_inv A nd ts" "local_eq A nd nd2" "node_tasks env smap ts nd = Some (Returns nd')"
  shows "\<exists>nd2' out. node_tasks env smap ts nd2 = Some (Returns nd2') \<and> local_eq A nd' nd2' \<and> outside_eq A nd out nd' \<and> outside_eq A nd2 out nd2'"
  using assms
proof (induction env smap ts nd arbitrary: nd2 rule: node_tasks.induct)
  case (1 env smap nd)
  then show ?case using outside_eq_refl by auto
next
  case (2 env smap ts nd)
  then have "batch_inv A nd ts" by (auto simp: batch_inv_def intro: task_ok_mono)
  then show ?case using 2 by simp
next
  case (3 env smap t ts nd)
  then obtain nd1 where s: "node_task env smap t nd = Some (Returns nd1)" "node_tasks env smap ts nd1 = Some (Returns nd')"
    by (auto simp: then_outcome_Returns)
  have "task_ok A (nd_conns nd) (Some t # ts) t" using 3(2) by (simp add: batch_inv_def)
  from node_task_local [OF this 3(3) s(1)] obtain nd21 o1 where n1: "node_task env smap t nd2 = Some (Returns nd21)" "local_eq A nd1 nd21"
      "outside_eq A nd o1 nd1" "outside_eq A nd2 o1 nd21" by blast
  have "batch_inv A nd1 ts" using node_task_inv [OF 3(2) s(1)] by simp
  from 3(1) [OF this n1(2) s(2)] obtain nd2' o2 where "node_tasks env smap ts nd21 = Some (Returns nd2')" "local_eq A nd' nd2'"
      "outside_eq A nd1 o2 nd'" "outside_eq A nd21 o2 nd2'" by blast
  then show ?case using n1 outside_eq_trans by (auto intro!: exI [of _ "o1 @ o2"])
qed

lemma epoll_wait_local:
  assumes "regs_live A (nd_conns nd) (nd_loop nd)" "local_eq A nd nd2"
  shows "epoll_wait env nd2 = epoll_wait env nd"
proof -
  have "fd_report env nd2 fd = fd_report env nd fd" for fd
  proof (cases "el_kernel (nd_loop nd) fd")
    case None
    then show ?thesis using assms(2) by (simp add: fd_report_def local_eq_def)
  next
    case (Some r)
    then have "reg_ok A (nd_conns nd) (nd_loop nd) fd (snd r)" using assms(1) by (cases r) (simp add: regs_live_def)
    then have "fd_readable env nd2 fd = fd_readable env nd fd" using assms(2) by (auto simp: reg_ok_def fd_readable_def local_eq_def)
    then show ?thesis using assms(2) Some by (cases r) (simp add: fd_report_def local_eq_def)
  qed
  then show ?thesis by (simp add: epoll_wait_def fun_eq_iff [symmetric] cong: map_cong)
qed

lemma node_round_local:
  assumes "loop_inv A (nd_conns nd) (nd_loop nd)" "local_eq A nd nd2" "node_round env smap nd = Some (Returns nd')"
  shows "\<exists>nd2' out. node_round env smap nd2 = Some (Returns nd2') \<and> local_eq A nd' nd2' \<and> outside_eq A nd out nd' \<and> outside_eq A nd2 out nd2'"
proof -
  let ?clear = "\<lambda>nd. nd\<lparr>nd_loop := (nd_loop nd)\<lparr>m_pending_tasks := []\<rparr>\<rparr>"
  obtain nd1 l where r: "node_tasks env smap (m_pending_tasks (nd_loop nd)) (?clear nd) = Some (Returns nd1)"
      "dispatch_all (loop_env_of env) (el_thread_id (nd_loop nd1)) (epoll_wait env nd1) (nd_loop nd1) = Some l"
      "nd' = nd1\<lparr>nd_loop := l\<rparr>"
    using assms(3) by (auto simp: node_round_def then_outcome_Returns)
  have e: "nd_loop nd2 = nd_loop nd" using assms(2) by (simp add: local_eq_def)
  have b: "batch_inv A (?clear nd) (m_pending_tasks (nd_loop nd))" using loop_inv_batch [OF assms(1)] .
  have "local_eq A (?clear nd) (?clear nd2)" using assms(2) by (simp add: local_eq_def)
  from node_tasks_local [OF b this r(1)] obtain nd21 out where n: "node_tasks env smap (m_pending_tasks (nd_loop nd)) (?clear nd2) = Some (Returns nd21)"
      "local_eq A nd1 nd21" "outside_eq A (?clear nd) out nd1" "outside_eq A (?clear nd2) out nd21" by blast
  have "regs_live A (nd_conns nd1) (nd_loop nd1)" using node_tasks_inv [OF b r(1)] by (simp add: base_inv_def)
  from epoll_wait_local [OF this n(2)] have w: "epoll_wait env nd21 = epoll_wait env nd1" .
  have l: "nd_loop nd21 = nd_loop nd1" using n(2) by (simp add: local_eq_def)
  have "node_round env smap nd2 = Some (Returns (nd21\<lparr>nd_loop := l\<rparr>))"
    using n(1) r(2) by (simp add: node_round_def e w l lift_outcome_def)
  then show ?thesis using n r(3) by (intro exI [of _ "nd21\<lparr>nd_loop := l\<rparr>"] exI [of _ out]) (simp add: local_eq_def outside_eq_def)
qed

section \<open>Passes of two threads\<close>

text \<open>Two worlds that differ at most in how the bytes sent to different connections are interleaved.\<close>

definition sent_to :: "nat \<Rightarrow> server_world \<Rightarrow> byte list list" where
  "sent_to i w = map snd (filter (\<lambda>p. fst p = i) (sw_sent w))"

definition world_eq :: "server_world \<Rightarrow> server_world \<Rightarrow> bool" where
  "world_eq w w' \<longleftrightarrow> sw_server w' = sw_server w \<and> sw_rts w' = sw_rts w \<and> sw_socks w' = sw_socks w \<and> sw_fds w' = sw_fds w \<and>
     (\<forall>i. sent_to i w' = sent_to i w)"

lemma node_of_other:
  assumes "j \<noteq> k" "outside_eq A (node_of w j) out nd" "A \<inter> B = {}"
  shows "local_eq B (node_of w k) (node_of (put_node j nd w) k)"
  using assms
  by (auto simp: local_eq_def outside_eq_def node_of_def put_node_def thread_loop_def update_thread_loop_def getEventLoop_def)

lemma put_node_swap:
  assumes "j \<noteq> k" "A \<inter> B = {}" "outside_eq A (node_of w j) out1 a" "outside_eq B (node_of (put_node j a w) k) out2 b"
    and "outside_eq B (node_of w k) out2 b'" "outside_eq A (node_of (put_node k b' w) j) out1 a'" "local_eq A a a'" "local_eq B b b'"
  shows "world_eq (put_node k b (put_node j a w)) (put_node j a' (put_node k b' w))"
proof -
  let ?w1 = "put_node k b (put_node j a w)" and ?w2 = "put_node j a' (put_node k b' w)"
  note defs = outside_eq_def local_eq_def node_of_def put_node_def
  have o: "\<And>i. i \<notin> A \<Longrightarrow> nd_conns a i = srv_conns (sw_server w) i \<and> nd_socks a i = sw_socks w i"
      "\<And>i. i \<notin> B \<Longrightarrow> nd_conns b i = nd_conns a i \<and> nd_socks b i = nd_socks a i"
      "\<And>i. i \<notin> B \<Longrightarrow> nd_conns b' i = srv_conns (sw_server w) i \<and> nd_socks b' i = sw_socks w i"
      "\<And>i. i \<notin> A \<Longrightarrow> nd_conns a' i = nd_conns b' i \<and> nd_socks a' i = nd_socks b' i"
      "\<And>i. i \<in> A \<Longrightarrow> nd_conns a' i = nd_conns a i \<and> nd_socks a' i = nd_socks a i"
      "\<And>i. i \<in> B \<Longrightarrow> nd_conns b' i = nd_conns b i \<and> nd_socks b' i = nd_socks b i"
    using assms(3-8) by (simp_all add: defs)
  have "nd_conns a' i = nd_conns b i \<and> nd_socks a' i = nd_socks b i" for i
    using o [of i] assms(2) by (cases "i \<in> A"; cases "i \<in> B") auto
  then have c: "nd_conns a' = nd_conns b" "nd_socks a' = nd_socks b" by auto
  have l: "nd_loop a' = nd_loop a" "nd_loop b' = nd_loop b" "nd_rt a' = nd_rt a" "nd_rt b' = nd_rt b"
    using assms(7,8) by (auto simp: local_eq_def)
  have s: "nd_sent b = sw_sent w @ out1 @ out2" "nd_sent a' = sw_sent w @ out2 @ out1" "fst ` set out1 \<subseteq> A" "fst ` set out2 \<subseteq> B"
    using assms(3-6) by (simp_all add: defs)
  have "filter (\<lambda>p. fst p = i) out1 = [] \<or> filter (\<lambda>p. fst p = i) out2 = []" for i
    using s(3,4) assms(2) by (auto simp: filter_empty_conv)
  then have "filter (\<lambda>p. fst p = i) out2 @ filter (\<lambda>p. fst p = i) out1 = filter (\<lambda>p. fst p = i) out1 @ filter (\<lambda>p. fst p = i) out2" for i
    by (metis append_Nil append_Nil2)
  then have "sent_to i ?w2 = sent_to i ?w1" for i
    using s(1,2) by (simp add: sent_to_def put_node_def flip: map_append)
  moreover have "sw_server ?w2 = sw_server ?w1"
    using c l assms(1) by (simp add: put_node_def update_thread_loop_def list_update_swap)
  moreover have "sw_rts ?w2 = sw_rts ?w1" by (simp add: put_node_def l) (rule fun_upd_twist [OF assms(1), symmetric])
  ultimately show ?thesis using c by (simp add: world_eq_def) (simp add: put_node_def)
qed

lemma server_inv_disjoint:
  assumes "server_inv main_tid w" "j \<noteq> k"
  shows "owned (sw_server w) j \<inter> owned (sw_server w) k = {}"
proof -
  have "(j, i) = (k, i)" if "(j, i) \<in> set (m_client (sw_server w))" "(k, i) \<in> set (m_client (sw_server w))" for i
    using that assms(1) by (intro inj_onD [of snd "set (m_client (sw_server w))"]) (auto simp: server_inv_def Let_def distinct_map)
  then show ?thesis using assms(2) by (auto simp: owned_def)
qed

section \<open>Properties\<close>

text \<open>
  C5. Passes of different IO threads commute: in every reachable state, running a pass of thread \<open>j\<close> and then one of
  thread \<open>k\<close> is equivalent to running them in the other order; the threads, connections, sockets and the bytes sent to each
  connection end up the same.
\<close>

theorem passes_commute:
  assumes "fresh_server main_tid (sw_server w0)" "server_runs smap main_tid w0 w" "j \<noteq> k"
    and "j < thread_count (sw_server w)" "k < thread_count (sw_server w)"
    and "node_round env1 smap (node_of w j) = Some (Returns a)" "node_round env2 smap (node_of (put_node j a w) k) = Some (Returns b)"
  shows "\<exists>a' b'. node_round env2 smap (node_of w k) = Some (Returns b') \<and> node_round env1 smap (node_of (put_node k b' w) j) = Some (Returns a') \<and>
    world_eq (put_node k b (put_node j a w)) (put_node j a' (put_node k b' w))"
proof -
  let ?A = "owned (sw_server w) j" and ?B = "owned (sw_server w) k"
  have inv: "server_inv main_tid w" using server_runs_inv [OF assms(2) fresh_server_inv [OF assms(1)]] .
  have dj: "?A \<inter> ?B = {}" "?B \<inter> ?A = {}" using server_inv_disjoint [OF inv] assms(3) by auto
  have lj: "loop_inv ?A (nd_conns (node_of w j)) (nd_loop (node_of w j))" and lk: "loop_inv ?B (nd_conns (node_of w k)) (nd_loop (node_of w k))"
    using inv assms(4,5) by (simp_all add: server_inv_def Let_def node_of_def)
  have self: "local_eq A nd nd" for A nd by (simp add: local_eq_def)
  obtain out1 where o1: "outside_eq ?A (node_of w j) out1 a" using node_round_local [OF lj self assms(6)] by blast
  note n = node_of_other [OF assms(3) o1 dj(1)]
  have "loop_inv ?B (nd_conns (node_of (put_node j a w) k)) (nd_loop (node_of (put_node j a w) k))"
    by (rule loop_inv_change [of ?B "nd_conns (node_of w k)"])
       (use n lk loop_inv_conn_ok [OF lk] in \<open>auto simp: local_eq_def\<close>)
  from node_round_local [OF this local_eq_sym [OF n] assms(7)] obtain b' out2 where b': "node_round env2 smap (node_of w k) = Some (Returns b')"
      "local_eq ?B b b'" "outside_eq ?B (node_of (put_node j a w) k) out2 b" "outside_eq ?B (node_of w k) out2 b'" by blast
  note n2 = node_of_other [OF assms(3) [symmetric] b'(4) dj(2)]
  from node_round_local [OF lj n2 assms(6)] obtain a' out1' where a': "node_round env1 smap (node_of (put_node k b' w) j) = Some (Returns a')"
      "local_eq ?A a a'" "outside_eq ?A (node_of w j) out1' a" "outside_eq ?A (node_of (put_node k b' w) j) out1' a'" by blast
  from put_node_swap [OF assms(3) dj(1) a'(3) b'(3,4) a'(4,2) b'(2)] show ?thesis using a'(1) b'(1) by blast
qed

text \<open>A server with two IO threads; nothing has happened yet in either.\<close>

definition demo_server2 :: tcp_server where
  "demo_server2 = demo_server\<lparr>srv_threads := (srv_threads demo_server)\<lparr>itg_size := 2,
     m_io_thread_groups := m_io_thread_groups (srv_threads demo_server) @ m_io_thread_groups (srv_threads demo_server)\<rparr>\<rparr>"

lemma demo_server2_fresh: "fresh_server 2 demo_server2"
proof -
  have "IOThreadGroup_new (\<lambda>fd. 0 \<le> fd) (FdEventGroup_new 128) (\<lambda>_. demo_sys_loop) 2 = Some (srv_threads demo_server2\<lparr>m_index := 0\<rparr>)"
    using demo_loop_new by (simp add: IOThreadGroup_new_def IOThread_new_def demo_server_def demo_server2_def numeral_2_eq_2) (simp add: demo_sys_loop_def)
  then show ?thesis unfolding fresh_server_def
    by (intro conjI exI) (assumption | simp add: demo_server_def demo_server2_def demo_sys_loop_def)+
qed

lemma idle_pass:
  assumes "m_pending_tasks (nd_loop nd) = []" "ne_order env = []"
  shows "node_round env smap nd = Some (Returns nd)"
  using assms by (simp add: node_round_def epoll_wait_def lift_outcome_def)

theorem passes_commute_witness:
  "\<exists>a' b'. node_round (demo_node_env\<lparr>ne_order := []\<rparr>) [(''Order'', demo_service)] (node_of (demo_world demo_server2) 1) = Some (Returns b') \<and>
     node_round (demo_node_env\<lparr>ne_order := []\<rparr>) [(''Order'', demo_service)] (node_of (put_node 1 b' (demo_world demo_server2)) 0) = Some (Returns a')"
proof -
  let ?w = "demo_world demo_server2" and ?env = "demo_node_env\<lparr>ne_order := []\<rparr>"
  let ?a = "node_of ?w 0"
  let ?b = "node_of (put_node 0 ?a ?w) 1"
  have l: "m_pending_tasks (nd_loop ?a) = []" "m_pending_tasks (nd_loop ?b) = []"
    by (simp_all add: node_of_def demo_world_def thread_loop_def getEventLoop_def demo_server2_def demo_server_def put_node_def
        update_thread_loop_def demo_loop_eval)
  have f: "fresh_server 2 (sw_server ?w)" using demo_server2_fresh by (simp add: demo_world_def)
  have c: "0 < thread_count (sw_server ?w)" "1 < thread_count (sw_server ?w)"
    by (simp_all add: demo_world_def thread_count_def demo_server2_def demo_server_def)
  have p: "node_round ?env [(''Order'', demo_service)] ?a = Some (Returns ?a)" "node_round ?env [(''Order'', demo_service)] ?b = Some (Returns ?b)"
    using l by (simp_all add: idle_pass)
  from passes_commute [OF f Starts _ c p] show ?thesis by auto
qed

end
