(* ===== verification/Scope_Mutex.thy ===== *)
theory Scope_Mutex
  imports Talon_Prelude
begin

text \<open>
  \<open>Mutex\<close> and the guard \<open>ScopeMutex\<close>, \<^verbatim>\<open>common/mutex.h\<close>.  First the operations, where unlocking a mutex the
  thread does not hold is undefined, \<open>None\<close> (as for \<open>pthread_mutex_unlock\<close>); then the step relation
  of threads that run these operations around a critical section, with or without the early \<open>unlock()\<close>
  the sources call before the guard goes out of scope.
\<close>

section \<open>Operations\<close>

type_synonym mutex_state = "nat option"

text \<open>\<open>None\<close> when the lock is held: by this thread a deadlock, by another one a wait.\<close>

definition mutex_lock :: "nat \<Rightarrow> mutex_state \<Rightarrow> mutex_state option" where
  "mutex_lock tid m = (case m of None \<Rightarrow> Some (Some tid) | Some _ \<Rightarrow> None)"

definition mutex_unlock :: "nat \<Rightarrow> mutex_state \<Rightarrow> mutex_state option" where
  "mutex_unlock tid m = (if m = Some tid then Some None else None)"

record scope_mutex =
  m_is_lock :: bool

definition ScopeMutex_new :: "nat \<Rightarrow> mutex_state \<Rightarrow> (scope_mutex \<times> mutex_state) option" where
  "ScopeMutex_new tid m = do { m1 \<leftarrow> mutex_lock tid m; Some (\<lparr>m_is_lock = True\<rparr>, m1) }"

definition ScopeMutex_delete :: "nat \<Rightarrow> scope_mutex \<times> mutex_state \<Rightarrow> mutex_state option" where
  "ScopeMutex_delete tid g = mutex_unlock tid (snd g)"

definition ScopeMutex_lock :: "nat \<Rightarrow> scope_mutex \<times> mutex_state \<Rightarrow> (scope_mutex \<times> mutex_state) option" where
  "ScopeMutex_lock tid g =
     (if \<not> m_is_lock (fst g) then do { m1 \<leftarrow> mutex_lock tid (snd g); Some (fst g, m1) } else Some g)"

definition ScopeMutex_unlock :: "nat \<Rightarrow> scope_mutex \<times> mutex_state \<Rightarrow> (scope_mutex \<times> mutex_state) option" where
  "ScopeMutex_unlock tid g =
     (if m_is_lock (fst g) then do { m1 \<leftarrow> mutex_unlock tid (snd g); Some (fst g, m1) } else Some g)"

section \<open>Threads\<close>

text \<open>
  Where a thread is: outside the guard's scope, in the critical section, or in the scope after
  \<open>unlock()\<close>.  A step is one operation of the guard of one thread, taken when the operation is defined
  and need not wait.  \<open>early\<close>: the code calls \<open>unlock()\<close> before the end of the scope.
\<close>

datatype guard_pc = Outside | Critical | After_Unlock

record lock_state =
  ls_mutex :: mutex_state
  ls_guard :: "nat \<rightharpoonup> scope_mutex"
  ls_pc :: "nat \<Rightarrow> guard_pc"

inductive guard_step :: "bool \<Rightarrow> lock_state \<Rightarrow> lock_state \<Rightarrow> bool" for early where
  gs_construct: "ls_pc s t = Outside \<Longrightarrow> ScopeMutex_new t (ls_mutex s) = Some (g, m) \<Longrightarrow>
    guard_step early s (s\<lparr>ls_mutex := m, ls_guard := (ls_guard s)(t \<mapsto> g), ls_pc := (ls_pc s)(t := Critical)\<rparr>)"
| gs_unlock: "early \<Longrightarrow> ls_pc s t = Critical \<Longrightarrow> ls_guard s t = Some g \<Longrightarrow>
    ScopeMutex_unlock t (g, ls_mutex s) = Some (g', m) \<Longrightarrow>
    guard_step early s (s\<lparr>ls_mutex := m, ls_guard := (ls_guard s)(t \<mapsto> g'), ls_pc := (ls_pc s)(t := After_Unlock)\<rparr>)"
| gs_destruct: "ls_pc s t = (if early then After_Unlock else Critical) \<Longrightarrow> ls_guard s t = Some g \<Longrightarrow>
    ScopeMutex_delete t (g, ls_mutex s) = Some m \<Longrightarrow>
    guard_step early s (s\<lparr>ls_mutex := m, ls_guard := (ls_guard s)(t := None), ls_pc := (ls_pc s)(t := Outside)\<rparr>)"

inductive_cases guard_stepE: "guard_step early s s'"

definition guard_init :: lock_state where
  "guard_init = \<lparr>ls_mutex = None, ls_guard = Map.empty, ls_pc = (\<lambda>_. Outside)\<rparr>"

inductive guard_reachable :: "bool \<Rightarrow> lock_state \<Rightarrow> bool" for early where
  gr_init: "guard_reachable early guard_init"
| gr_step: "guard_reachable early s \<Longrightarrow> guard_step early s s' \<Longrightarrow> guard_reachable early s'"

section \<open>Properties\<close>

lemmas guard_defs = ScopeMutex_new_def ScopeMutex_unlock_def ScopeMutex_delete_def mutex_lock_def mutex_unlock_def

text \<open>
  A guard that lives to the end of its scope takes a free mutex and gives it back; but
  \<open>unlock()\<close> does not clear \<open>m_is_lock\<close> and the destructor unlocks unconditionally, so after an early
  \<open>unlock()\<close> the destructor unlocks a mutex the thread does not hold, from every state.
\<close>

theorem early_unlock_unlocks_twice:
  "do { g \<leftarrow> ScopeMutex_new tid None; ScopeMutex_delete tid g } = Some None \<and>
   do { g \<leftarrow> ScopeMutex_new tid m; g \<leftarrow> ScopeMutex_unlock tid g; ScopeMutex_delete tid g } = None"
  by (cases m) (simp_all add: guard_defs)

text \<open>The owner is the one thread in its critical section, if any; a guard in scope says it is locked.\<close>

definition guard_inv :: "bool \<Rightarrow> lock_state \<Rightarrow> bool" where
  "guard_inv early s \<longleftrightarrow> (\<forall>t. (ls_pc s t = Critical \<longleftrightarrow> ls_mutex s = Some t) \<and>
     (ls_pc s t \<noteq> Outside \<longrightarrow> ls_guard s t = Some \<lparr>m_is_lock = True\<rparr>) \<and> (ls_pc s t = After_Unlock \<longrightarrow> early))"

lemma guard_invD:
  assumes "guard_inv early s"
  shows "ls_pc s t = Critical \<longleftrightarrow> ls_mutex s = Some t"
    and "ls_pc s t \<noteq> Outside \<Longrightarrow> ls_guard s t = Some \<lparr>m_is_lock = True\<rparr>"
    and "ls_pc s t = After_Unlock \<Longrightarrow> early"
  using assms unfolding guard_inv_def by blast+

lemma guard_inv_step: "guard_step early s s' \<Longrightarrow> guard_inv early s \<Longrightarrow> guard_inv early s'"
proof (erule guard_stepE)
  fix t g m
  assume inv: "guard_inv early s" and s': "s' = s\<lparr>ls_mutex := m, ls_guard := (ls_guard s)(t \<mapsto> g), ls_pc := (ls_pc s)(t := Critical)\<rparr>"
    and "ScopeMutex_new t (ls_mutex s) = Some (g, m)"
  then have "ls_mutex s = None" "g = \<lparr>m_is_lock = True\<rparr>" "m = Some t" by (auto simp: guard_defs split: option.splits)
  then show "guard_inv early s'" using inv by (auto simp: s' guard_inv_def)
next
  fix t g g' m
  assume inv: "guard_inv early s" and s': "s' = s\<lparr>ls_mutex := m, ls_guard := (ls_guard s)(t \<mapsto> g'), ls_pc := (ls_pc s)(t := After_Unlock)\<rparr>"
    and early and c: "ls_pc s t = Critical" "ls_guard s t = Some g" and u: "ScopeMutex_unlock t (g, ls_mutex s) = Some (g', m)"
  have "ls_mutex s = Some t" "g = \<lparr>m_is_lock = True\<rparr>" using guard_invD [OF inv, of t] c by auto
  moreover from this u have "g' = g" "m = None" by (auto simp: guard_defs)
  ultimately show "guard_inv early s'" using inv \<open>early\<close> by (auto simp: s' guard_inv_def)
next
  fix t g m
  assume inv: "guard_inv early s" and s': "s' = s\<lparr>ls_mutex := m, ls_guard := (ls_guard s)(t := None), ls_pc := (ls_pc s)(t := Outside)\<rparr>"
    and "ScopeMutex_delete t (g, ls_mutex s) = Some m"
  then have "ls_mutex s = Some t" "m = None" by (auto simp: guard_defs split: if_splits)
  then show "guard_inv early s'" using inv by (auto simp: s' guard_inv_def)
qed

lemma guard_reachable_inv: "guard_reachable early s \<Longrightarrow> guard_inv early s"
proof (induction rule: guard_reachable.induct)
  case gr_init
  show ?case by (simp add: guard_inv_def guard_init_def)
qed (blast intro: guard_inv_step)

text \<open>Thread 0 enters and unlocks, thread 1 enters while thread 0 is still in its scope.\<close>

lemma early_unlock_run:
  "\<exists>s. guard_reachable True s \<and> ls_pc s 0 = After_Unlock \<and> ls_pc s 1 = Critical \<and> ls_mutex s = Some 1"
proof -
  let ?g = "\<lparr>m_is_lock = True\<rparr>"
  let ?s1 = "\<lparr>ls_mutex = Some 0, ls_guard = [0 \<mapsto> ?g], ls_pc = (\<lambda>_. Outside)(0 := Critical)\<rparr>"
  let ?s2 = "\<lparr>ls_mutex = None, ls_guard = [0 \<mapsto> ?g], ls_pc = (\<lambda>_. Outside)(0 := After_Unlock)\<rparr>"
  let ?s3 = "\<lparr>ls_mutex = Some 1, ls_guard = [0 \<mapsto> ?g, 1 \<mapsto> ?g], ls_pc = (\<lambda>_. Outside)(0 := After_Unlock, 1 := Critical)\<rparr>"
  have "guard_step True guard_init ?s1"
    using gs_construct [of guard_init 0 ?g "Some 0" True] by (simp add: guard_init_def guard_defs)
  moreover have "guard_step True ?s1 ?s2"
    using gs_unlock [of True ?s1 0 ?g ?g None] by (simp add: guard_defs)
  moreover have "guard_step True ?s2 ?s3"
    using gs_construct [of ?s2 1 ?g "Some 1" True] by (simp add: guard_defs)
  ultimately have "guard_reachable True ?s3" by (meson gr_init gr_step)
  then show ?thesis by (intro exI [of _ ?s3]) simp
qed

text \<open>
  C25. Mutual exclusion, for any interleaving of the guards' operations: no two threads are ever in the
  critical section together, with or without the early \<open>unlock()\<close>, as long as every operation run
  so far was defined.  With guards that live to the end of their scope the destructor always is, and it
  frees the mutex; after the early \<open>unlock()\<close> of the sources the destructor of the same guard
  is undefined in every state (it unlocks a mutex its thread does not hold), and there are runs in which
  another thread holds the mutex then.
\<close>

theorem guard_mutual_exclusion:
  "(\<forall>s t u. guard_reachable early s \<longrightarrow> ls_pc s t = Critical \<longrightarrow> ls_pc s u = Critical \<longrightarrow> t = u) \<and>
   (\<forall>s t. guard_reachable False s \<longrightarrow> ls_pc s t \<noteq> Outside \<longrightarrow>
      (\<exists>g. ls_guard s t = Some g \<and> ScopeMutex_delete t (g, ls_mutex s) = Some None)) \<and>
   (\<forall>s t. guard_reachable True s \<longrightarrow> ls_pc s t = After_Unlock \<longrightarrow>
      (\<exists>g. ls_guard s t = Some g \<and> ScopeMutex_delete t (g, ls_mutex s) = None)) \<and>
   (\<exists>s t u. guard_reachable True s \<and> ls_pc s t = After_Unlock \<and> ls_mutex s = Some u \<and> u \<noteq> t)"
proof (intro conjI allI impI)
  fix s t u assume "guard_reachable early s" "ls_pc s t = Critical" "ls_pc s u = Critical"
  then show "t = u" using guard_reachable_inv by (fastforce simp: guard_inv_def)
next
  fix s t assume "guard_reachable False s" "ls_pc s t \<noteq> Outside"
  then have "ls_guard s t = Some \<lparr>m_is_lock = True\<rparr>" "ls_mutex s = Some t"
    using guard_invD [of False s t] guard_reachable_inv by (cases "ls_pc s t"; simp)+
  then show "\<exists>g. ls_guard s t = Some g \<and> ScopeMutex_delete t (g, ls_mutex s) = Some None"
    by (simp add: guard_defs)
next
  fix s t assume "guard_reachable True s" "ls_pc s t = After_Unlock"
  then have "ls_guard s t = Some \<lparr>m_is_lock = True\<rparr>" "ls_mutex s \<noteq> Some t"
    using guard_invD [of True s t] guard_reachable_inv by auto
  then show "\<exists>g. ls_guard s t = Some g \<and> ScopeMutex_delete t (g, ls_mutex s) = None"
    by (simp add: guard_defs)
next
  show "\<exists>s t u. guard_reachable True s \<and> ls_pc s t = After_Unlock \<and> ls_mutex s = Some u \<and> u \<noteq> t"
    using early_unlock_run by (metis zero_neq_one)
qed

theorem guard_mutual_exclusion_witness:
  "\<exists>s. guard_reachable True s \<and> ls_pc s 0 = After_Unlock \<and> ls_pc s 1 = Critical \<and> ls_pc s 2 \<noteq> Critical \<and>
     (\<exists>g. ls_guard s 0 = Some g \<and> ScopeMutex_delete 0 (g, ls_mutex s) = None)"
proof -
  obtain s where s: "guard_reachable True s" "ls_pc s 0 = After_Unlock" "ls_pc s 1 = Critical"
    using early_unlock_run by blast
  have "(1 :: nat) \<noteq> 2" by simp
  then show ?thesis using s guard_mutual_exclusion [of True] by metis
qed

end
