(* ===== verification/Async_Log.thy ===== *)
theory Async_Log
  imports Event_Loop Rpc_Base Config_File
begin

text \<open>
  Logging, \<^verbatim>\<open>common/log.{h,cc}\<close>, and the process and thread ids of \<^verbatim>\<open>common/util.cc\<close>: the levels and the macros that test
  them, the \<open>Logger\<close> that collects messages, its periodic \<open>syncLoop\<close>, and the \<open>AsyncLogger\<close> thread that writes
  them.  Times are texts given as arguments; what is written to the standard output is part of the results.  A null
  logger that is dereferenced makes an operation \<open>None\<close>.
\<close>

section \<open>Levels\<close>

datatype log_level = Unknown | Debug | Info | Error

fun level_number :: "log_level \<Rightarrow> nat" where
  "level_number Unknown = 0"
| "level_number Debug = 1"
| "level_number Info = 2"
| "level_number Error = 3"

lemma level_number_inject [simp]: "level_number a = level_number b \<longleftrightarrow> a = b"
  by (cases a; cases b) simp_all

instantiation log_level :: linorder
begin

definition less_eq_log_level :: "log_level \<Rightarrow> log_level \<Rightarrow> bool" where
  "less_eq_log_level a b \<longleftrightarrow> level_number a \<le> level_number b"

definition less_log_level :: "log_level \<Rightarrow> log_level \<Rightarrow> bool" where
  "less_log_level a b \<longleftrightarrow> level_number a < level_number b"

instance
  by standard (auto simp: less_eq_log_level_def less_log_level_def)

end

definition LogLevelToString :: "log_level \<Rightarrow> string" where
  "LogLevelToString level = (case level of
     Debug \<Rightarrow> ''DEBUG'' | Info \<Rightarrow> ''INFO'' | Error \<Rightarrow> ''ERROR'' | Unknown \<Rightarrow> ''UNKNOWN'')"

definition StringToLogLevel :: "string \<Rightarrow> log_level" where
  "StringToLogLevel log_level =
     (if log_level = ''DEBUG'' then Debug
      else if log_level = ''INFO'' then Info
      else if log_level = ''ERROR'' then Error
      else Unknown)"

section \<open>Ids\<close>

text \<open>The cached ids are never set, so the system is asked each time.\<close>

definition get_pid :: "int \<Rightarrow> int \<Rightarrow> int" where
  "get_pid g_pid getpid = (if g_pid \<noteq> 0 then g_pid else getpid)"

definition get_thread_id :: "int \<Rightarrow> int \<Rightarrow> int" where
  "get_thread_id t_thread_id gettid = (if t_thread_id \<noteq> 0 then t_thread_id else gettid)"

section \<open>LogEvent\<close>

record log_env =
  le_time :: string
  le_usec :: int
  le_pid :: int
  le_tid :: int

abbreviation bracketed :: "string \<Rightarrow> string" where "bracketed s \<equiv> ''['' @ s @ '']'' @ [CHR 0x09]"

definition LogEvent_toString :: "log_env \<Rightarrow> run_time \<Rightarrow> log_level \<Rightarrow> string" where
  "LogEvent_toString env rt level =
     (let time_str = le_time env @ ''.'' @ to_string (le_usec env div 1000) in
      bracketed (LogLevelToString level) @
      bracketed time_str @
      bracketed (to_string (get_pid 0 (le_pid env)) @ '':'' @ to_string (get_thread_id 0 (le_tid env))) @
      (if rt_msgid rt \<noteq> [] then bracketed (rt_msgid rt) else []) @
      (if rt_method_name rt \<noteq> [] then bracketed (rt_method_name rt) else []))"

section \<open>AsyncLogger\<close>

text \<open>\<open>as_ended\<close>: the function \<open>Loop\<close> of \<open>m_thread\<close> has returned.\<close>

record async_logger =
  as_buffer :: "string list list"
  as_file_name :: string
  as_file_path :: string
  as_max_file_size :: int
  as_date :: string
  as_file_hanlder :: "string option"
  as_reopen_flag :: bool
  as_no :: int
  as_stop_flag :: bool
  as_ended :: bool

definition AsyncLogger_new :: "string \<Rightarrow> string \<Rightarrow> int \<Rightarrow> async_logger" where
  "AsyncLogger_new file_name file_path max_size = \<lparr>as_buffer = [], as_file_name = file_name, as_file_path = file_path,
     as_max_file_size = max_size, as_date = [], as_file_hanlder = None, as_reopen_flag = False, as_no = 0, as_stop_flag = False,
     as_ended = False\<rparr>"

definition pushLogBuffer :: "string list \<Rightarrow> async_logger \<Rightarrow> async_logger" where
  "pushLogBuffer vec a = a\<lparr>as_buffer := as_buffer a @ [vec]\<rparr>"

definition async_stop :: "async_logger \<Rightarrow> async_logger" where
  "async_stop a = a\<lparr>as_stop_flag := True\<rparr>"

text \<open>\<open>printf("%s", i.c_str())\<close> for the messages that are not empty.\<close>

definition written :: "string list \<Rightarrow> string list" where
  "written tmp = map (takeWhile (\<lambda>c. c \<noteq> NUL)) (filter (\<lambda>i. i \<noteq> []) tmp)"

definition log_file_name :: "string \<Rightarrow> async_logger \<Rightarrow> string" where
  "log_file_name date a = as_file_path a @ as_file_name a @ ''_'' @ date @ ''_log.'' @ to_string (as_no a)"

definition check_date :: "string \<Rightarrow> async_logger \<Rightarrow> async_logger" where
  "check_date date a =
     (let a = (if date \<noteq> as_date a then a\<lparr>as_no := 0, as_reopen_flag := True, as_date := date\<rparr> else a) in
      if as_file_hanlder a = None then a\<lparr>as_reopen_flag := True\<rparr> else a)"

text \<open>\<open>fopen_ok\<close>: whether \<open>fopen\<close> succeeds.  The handle is named by its file.\<close>

definition reopen :: "string \<Rightarrow> bool \<Rightarrow> async_logger \<Rightarrow> async_logger" where
  "reopen date fopen_ok a =
     (if as_reopen_flag a
      then a\<lparr>as_file_hanlder := (if fopen_ok then Some (log_file_name date a) else None), as_reopen_flag := False\<rparr>
      else a)"

text \<open>One round of \<open>Loop\<close>: it waits for a batch, or writes the first batch and goes on or ends.\<close>

datatype loop_result = Loop_Waits | Loop_On async_logger "string list" | Loop_Ends async_logger "string list"

definition async_Loop :: "string \<Rightarrow> bool \<Rightarrow> async_logger \<Rightarrow> loop_result" where
  "async_Loop date fopen_ok a = (case as_buffer a of
     [] \<Rightarrow> Loop_Waits
   | tmp # rest \<Rightarrow>
       let a = reopen date fopen_ok (check_date date (a\<lparr>as_buffer := rest\<rparr>)) in
       if as_stop_flag a then Loop_Ends a (written tmp) else Loop_On a (written tmp))"

text \<open>
  The thread, with the date and the result of \<open>fopen\<close> for each round it has time for, and what it writes in
  them.  A thread that has ended does nothing, one that waits wakes up when a batch is pushed.
\<close>

type_synonym log_rounds = "(string \<times> bool) list"

fun async_run :: "log_rounds \<Rightarrow> async_logger \<Rightarrow> async_logger \<times> string list" where
  "async_run [] a = (a, [])"
| "async_run ((date, ok) # rounds) a =
     (if as_ended a then (a, [])
      else case async_Loop date ok a of
        Loop_Waits \<Rightarrow> (a, [])
      | Loop_Ends a' out \<Rightarrow> (a'\<lparr>as_ended := True\<rparr>, out)
      | Loop_On a' out \<Rightarrow> (let (a'', out') = async_run rounds a' in (a'', out @ out')))"

section \<open>Logger\<close>

record logger =
  m_set_level :: log_level
  lg_buffer :: "string list"
  m_app_buffer :: "string list"
  m_asnyc_logger :: "async_logger option"
  m_asnyc_app_logger :: "async_logger option"
  lg_type :: int

text \<open>The global configuration is dereferenced unless the type is 0.\<close>

definition Logger_new :: "config option \<Rightarrow> log_level \<Rightarrow> int \<Rightarrow> logger option" where
  "Logger_new cfg level type =
     (let lg = \<lparr>m_set_level = level, lg_buffer = [], m_app_buffer = [], m_asnyc_logger = None, m_asnyc_app_logger = None, lg_type = type\<rparr> in
      if type = 0 then Some lg
      else do {
        c \<leftarrow> cfg;
        Some (lg\<lparr>m_asnyc_logger := Some (AsyncLogger_new (m_log_file_name c @ ''_rpc'') (m_log_file_path c) (m_log_max_file_size c)),
          m_asnyc_app_logger := Some (AsyncLogger_new (m_log_file_name c @ ''_app'') (m_log_file_path c) (m_log_max_file_size c))\<rparr>) })"

definition getLogLevel :: "logger \<Rightarrow> log_level" where
  "getLogLevel lg = m_set_level lg"

text \<open>
  Signal dispositions.  \<open>signal(2)\<close> refuses \<open>SIGKILL\<close> and \<open>SIGSTOP\<close>, whose default action cannot be changed.
\<close>

datatype sig_action = SIG_DFL | Coredump_Handler

abbreviation SIGINT :: int where "SIGINT \<equiv> 2"
abbreviation SIGABRT :: int where "SIGABRT \<equiv> 6"
abbreviation SIGKILL :: int where "SIGKILL \<equiv> 9"
abbreviation SIGSEGV :: int where "SIGSEGV \<equiv> 11"
abbreviation SIGTERM :: int where "SIGTERM \<equiv> 15"
abbreviation SIGSTKFLT :: int where "SIGSTKFLT \<equiv> 16"
abbreviation SIGSTOP :: int where "SIGSTOP \<equiv> 19"

definition sys_signal :: "int \<Rightarrow> sig_action \<Rightarrow> (int \<Rightarrow> sig_action) \<Rightarrow> int \<Rightarrow> sig_action" where
  "sys_signal n act sigs = (if n = SIGKILL \<or> n = SIGSTOP then sigs else sigs(n := act))"

text \<open>
  \<open>init\<close> schedules \<open>syncLoop\<close>, the closure \<open>sync_task\<close>, in the current loop, at address \<open>te\<close> of the timer's heap, and
  installs the signal handler.
\<close>

definition Logger_init ::
    "(nat \<Rightarrow> int) \<Rightarrow> config option \<Rightarrow> nat \<Rightarrow> task \<Rightarrow> logger \<Rightarrow> event_loop \<Rightarrow> (int \<Rightarrow> sig_action) \<Rightarrow> (event_loop \<times> (int \<Rightarrow> sig_action)) option" where
  "Logger_init clock cfg te sync_task lg l sigs =
     (if lg_type lg = 0 then Some (l, sigs)
      else do {
        c \<leftarrow> cfg;
        let tm = el_timer l;
        let tm = (tick tm)\<lparr>tm_heap := (tm_heap tm)(te := TimerEvent_new (clock (tm_ticks tm)) (m_log_sync_inteval c) True (Some sync_task))\<rparr>;
        let sigs = foldl (\<lambda>s n. sys_signal n Coredump_Handler s) sigs [SIGSEGV, SIGABRT, SIGTERM, SIGKILL, SIGINT, SIGSTKFLT];
        Some (loop_addTimerEvent clock te (l\<lparr>el_timer := tm\<rparr>), sigs) })"

text \<open>A null asynchronous logger is dereferenced only when there is something to push.\<close>

definition push_batch :: "string list \<Rightarrow> async_logger option \<Rightarrow> async_logger option option" where
  "push_batch tmp_vec a = (if tmp_vec = [] then Some a else do { x \<leftarrow> a; Some (Some (pushLogBuffer tmp_vec x)) })"

definition syncLoop :: "logger \<Rightarrow> logger option" where
  "syncLoop lg = do {
     let tmp_vec = lg_buffer lg;
     let lg = lg\<lparr>lg_buffer := []\<rparr>;
     a \<leftarrow> push_batch tmp_vec (m_asnyc_logger lg);
     let lg = lg\<lparr>m_asnyc_logger := a\<rparr>;
     let tmp_vec2 = m_app_buffer lg;
     let lg = lg\<lparr>m_app_buffer := []\<rparr>;
     a2 \<leftarrow> push_batch tmp_vec2 (m_asnyc_app_logger lg);
     Some (lg\<lparr>m_asnyc_app_logger := a2\<rparr>) }"

text \<open>
  \<open>flush\<close>, with the rounds the two writing threads have time for between \<open>syncLoop\<close> and their \<open>stop()\<close>; the result has
  what they write in them.
\<close>

definition logger_flush :: "log_rounds \<Rightarrow> log_rounds \<Rightarrow> logger \<Rightarrow> (logger \<times> string list \<times> string list) option" where
  "logger_flush rounds app_rounds lg = do {
     lg \<leftarrow> syncLoop lg;
     a \<leftarrow> m_asnyc_logger lg;
     let (a, out) = async_run rounds a;
     a2 \<leftarrow> m_asnyc_app_logger lg;
     let (a2, app) = async_run app_rounds a2;
     Some (lg\<lparr>m_asnyc_logger := Some (async_stop a), m_asnyc_app_logger := Some (async_stop a2)\<rparr>, out, app) }"

definition InitGlobalLogger ::
    "config option \<Rightarrow> (nat \<Rightarrow> int) \<Rightarrow> nat \<Rightarrow> task \<Rightarrow> int \<Rightarrow> event_loop \<Rightarrow> (int \<Rightarrow> sig_action)
       \<Rightarrow> (logger \<times> event_loop \<times> (int \<Rightarrow> sig_action)) option" where
  "InitGlobalLogger cfg clock te sync_task type l sigs = do {
     c \<leftarrow> cfg;
     lg \<leftarrow> Logger_new cfg (StringToLogLevel (m_log_level c)) type;
     (l, sigs) \<leftarrow> Logger_init clock cfg te sync_task lg l sigs;
     Some (lg, l, sigs) }"

text \<open>\<open>printf\<close> with the message as its format and no arguments: a conversion other than \<open>%%\<close> is undefined.\<close>

fun printf_plain :: "string \<Rightarrow> string option" where
  "printf_plain [] = Some []"
| "printf_plain (c # cs) =
     (if c = NUL then Some []
      else if c \<noteq> CHR ''%'' then map_option ((#) c) (printf_plain cs)
      else (case cs of
          [] \<Rightarrow> None
        | d # ds \<Rightarrow> if d = CHR ''%'' then map_option ((#) d) (printf_plain ds) else None))"

definition pushLog :: "string \<Rightarrow> logger \<Rightarrow> (logger \<times> string) option" where
  "pushLog msg lg =
     (if lg_type lg = 0 then do { out \<leftarrow> printf_plain (msg @ ''\<newline>''); Some (lg, out) }
      else Some (lg\<lparr>lg_buffer := lg_buffer lg @ [msg]\<rparr>, []))"

definition pushAppLog :: "string \<Rightarrow> logger \<Rightarrow> logger" where
  "pushAppLog msg lg = lg\<lparr>m_app_buffer := m_app_buffer lg @ [msg]\<rparr>"

section \<open>The macros\<close>

text \<open>
  \<open>snprintf\<close> for the conversions the sources use, \<open>%d\<close>, \<open>%lld\<close>, \<open>%s\<close> and \<open>%%\<close>.  \<open>None\<close>: the behaviour is undefined, for another
  conversion, a missing argument or one of another type.  \<open>formatString\<close> calls it twice, for the length and
  for the text.
\<close>

datatype fmt_arg = Fmt_Int int | Fmt_Long int | Fmt_Str string

definition c_str :: "string \<Rightarrow> string" where
  "c_str s = takeWhile (\<lambda>c. c \<noteq> NUL) s"

fun snprintf :: "string \<Rightarrow> fmt_arg list \<Rightarrow> string option" where
  "snprintf [] args = Some []"
| "snprintf (c # cs) args =
     (if c = NUL then Some []
      else if c \<noteq> CHR ''%'' then map_option ((#) c) (snprintf cs args)
      else (case (cs, args) of
          (CHR ''%'' # ds, _) \<Rightarrow> map_option ((#) c) (snprintf ds args)
        | (CHR ''d'' # ds, Fmt_Int i # as) \<Rightarrow> map_option ((@) (to_string i)) (snprintf ds as)
        | (CHR ''l'' # CHR ''l'' # CHR ''d'' # ds, Fmt_Long i # as) \<Rightarrow> map_option ((@) (to_string i)) (snprintf ds as)
        | (CHR ''s'' # ds, Fmt_Str s # as) \<Rightarrow> map_option ((@) (c_str s)) (snprintf ds as)
        | _ \<Rightarrow> None))"

definition formatString :: "string \<Rightarrow> fmt_arg list \<Rightarrow> string option" where
  "formatString str args = do {
     text \<leftarrow> snprintf str args;
     let size = length text;
     let result = [];
     if size > 0 then Some (take size text) else Some result }"

text \<open>\<open>place\<close> is the text of \<^verbatim>\<open>__FILE__:__LINE__\<close> and \<open>text\<close> what \<open>formatString\<close> makes of the arguments.\<close>

definition log_message :: "log_env \<Rightarrow> run_time \<Rightarrow> log_level \<Rightarrow> string \<Rightarrow> string \<Rightarrow> string" where
  "log_message env rt level place text = LogEvent_toString env rt level @ bracketed place @ text @ ''\<newline>''"

definition DEBUGLOG :: "log_env \<Rightarrow> run_time \<Rightarrow> string \<Rightarrow> string \<Rightarrow> logger option \<Rightarrow> (logger \<times> string) option" where
  "DEBUGLOG env rt place text g_logger = do {
     lg \<leftarrow> g_logger;
     if getLogLevel lg \<noteq> Unknown \<and> getLogLevel lg \<le> Debug
     then pushLog (log_message env rt Debug place text) lg else Some (lg, []) }"

definition INFOLOG :: "log_env \<Rightarrow> run_time \<Rightarrow> string \<Rightarrow> string \<Rightarrow> logger option \<Rightarrow> (logger \<times> string) option" where
  "INFOLOG env rt place text g_logger = do {
     lg \<leftarrow> g_logger;
     if getLogLevel lg \<le> Info then pushLog (log_message env rt Info place text) lg else Some (lg, []) }"


definition APPLOG :: "log_level \<Rightarrow> log_env \<Rightarrow> run_time \<Rightarrow> string \<Rightarrow> string \<Rightarrow> logger option \<Rightarrow> logger option" where
  "APPLOG level env rt place text g_logger = do {
     lg \<leftarrow> g_logger;
     if getLogLevel lg \<le> level then Some (pushAppLog (log_message env rt level place text) lg) else Some lg }"

section \<open>The signal handler\<close>



section \<open>Lemmas\<close>

lemma StringToLogLevel_LogLevelToString: "StringToLogLevel (LogLevelToString l) = l"
  by (cases l) (simp_all add: LogLevelToString_def StringToLogLevel_def)

lemma written_append [simp]: "written (xs @ ys) = written xs @ written ys"
  by (simp add: written_def)

lemma written_Nil [simp]: "written [] = []"
  by (simp add: written_def)

lemma check_reopen_simps [simp]:
  "as_buffer (reopen d ok a) = as_buffer a" "as_stop_flag (reopen d ok a) = as_stop_flag a"
  "as_buffer (check_date d a) = as_buffer a" "as_stop_flag (check_date d a) = as_stop_flag a"
  "as_ended (reopen d ok a) = as_ended a" "as_ended (check_date d a) = as_ended a"
  by (simp_all add: reopen_def check_date_def Let_def)

text \<open>The file of the current date is open; the number in its name stays 0.\<close>

definition file_inv :: "async_logger \<Rightarrow> bool" where
  "file_inv a \<longleftrightarrow> as_no a = 0 \<and> \<not> as_reopen_flag a \<and>
     (case as_file_hanlder a of None \<Rightarrow> True | Some f \<Rightarrow> f = log_file_name (as_date a) a)"

lemma round_file:
  assumes "file_inv a"
  shows "file_inv (reopen d ok (check_date d a))" "ok \<Longrightarrow> as_file_hanlder (reopen d ok (check_date d a)) = Some (log_file_name d a)"
  using assms by (auto simp: file_inv_def reopen_def check_date_def log_file_name_def Let_def split: option.split)

lemma async_run_written:
  "async_run rounds a = (a', out) \<Longrightarrow> out @ written (concat (as_buffer a')) = written (concat (as_buffer a))"
proof (induction rounds a arbitrary: a' out rule: async_run.induct)
  case (2 date ok rounds a)
  then show ?case
    by (cases "as_buffer a") (auto simp: async_Loop_def Let_def split: if_splits prod.splits)
qed simp

lemma async_run_ended: "as_ended a \<Longrightarrow> async_run rounds a = (a, [])"
  by (cases rounds) auto

text \<open>What \<open>syncLoop\<close> leaves in the queue of an asynchronous logger.\<close>

definition batches :: "async_logger option \<Rightarrow> string list \<Rightarrow> string list list" where
  "batches a buffer = (case a of None \<Rightarrow> [] | Some x \<Rightarrow> as_buffer x) @ (if buffer = [] then [] else [buffer])"

definition on_duty :: "async_logger \<Rightarrow> bool" where
  "on_duty a \<longleftrightarrow> \<not> as_stop_flag a \<and> \<not> as_ended a"

text \<open>Before \<open>stop()\<close> every round writes a batch; afterwards the thread writes one more, and ends only if there is one.\<close>

lemma async_run_on_duty:
  "on_duty a \<Longrightarrow> \<exists>a'. async_run rounds a = (a', written (concat (take (length rounds) (as_buffer a)))) \<and> on_duty a' \<and>
     as_buffer a' = drop (length rounds) (as_buffer a)"
proof (induction rounds a rule: async_run.induct)
  case (2 date ok rounds a)
  show ?case
  proof (cases "as_buffer a")
    case (Cons b bs)
    let ?a = "reopen date ok (check_date date (a\<lparr>as_buffer := bs\<rparr>))"
    have l: "async_Loop date ok a = Loop_On ?a (written b)"
      using Cons 2(2) by (simp add: async_Loop_def Let_def on_duty_def)
    have "\<not> as_ended a" "on_duty ?a" using 2(2) by (simp_all add: on_duty_def)
    then show ?thesis using 2(1) [OF _ l] l Cons by auto
  qed (use 2(2) in \<open>simp add: async_Loop_def on_duty_def\<close>)
qed simp

lemma async_run_stopped:
  assumes "as_stop_flag a" "\<not> as_ended a" "rounds \<noteq> []"
  shows "\<exists>a'. async_run rounds a = (a', written (concat (take 1 (as_buffer a)))) \<and>
    as_buffer a' = drop 1 (as_buffer a) \<and> (as_ended a' \<longleftrightarrow> as_buffer a \<noteq> [])"
proof -
  obtain d ok rs where "rounds = (d, ok) # rs" using assms(3) by (cases rounds) auto
  then show ?thesis using assms(1,2) by (cases "as_buffer a") (auto simp: async_Loop_def Let_def)
qed

text \<open>A thread over its whole life: \<open>r1\<close> rounds, \<open>stop()\<close>, then \<open>r2\<close> rounds.\<close>

lemma async_run_stop_run:
  assumes "on_duty a" "r2 \<noteq> []"
  shows "\<exists>a1 o1 a2 o2. async_run r1 a = (a1, o1) \<and> async_run r2 (async_stop a1) = (a2, o2) \<and>
    o1 @ o2 = written (concat (take (length r1 + 1) (as_buffer a))) \<and>
    as_buffer a2 = drop (length r1 + 1) (as_buffer a) \<and> (as_ended a2 \<longleftrightarrow> length r1 < length (as_buffer a))"
proof -
  obtain a1 where a1: "async_run r1 a = (a1, written (concat (take (length r1) (as_buffer a))))" "on_duty a1"
      "as_buffer a1 = drop (length r1) (as_buffer a)" using async_run_on_duty [OF assms(1)] by blast
  have "as_stop_flag (async_stop a1)" "\<not> as_ended (async_stop a1)" "as_buffer (async_stop a1) = as_buffer a1"
    using a1(2) by (simp_all add: async_stop_def on_duty_def)
  from async_run_stopped [OF this(1,2) assms(2)] this(3) obtain a2 where
    "async_run r2 (async_stop a1) = (a2, written (concat (take 1 (as_buffer a1))))"
    "as_buffer a2 = drop 1 (as_buffer a1)" "as_ended a2 \<longleftrightarrow> as_buffer a1 \<noteq> []" by auto
  moreover have "written (concat (take (length r1 + 1) (as_buffer a))) =
      written (concat (take (length r1) (as_buffer a))) @ written (concat (take 1 (as_buffer a1)))"
    unfolding take_add a1(3) by simp
  ultimately show ?thesis using a1(1,3) by auto
qed

section \<open>Properties\<close>

text \<open>
  What may happen to a logger: messages, the periodic synchronisation, \<open>flush\<close>, and rounds of the two threads.
  Every operation on a buffer or a queue is taken to exclude the others, as its mutex is meant to.
\<close>

datatype log_op = Op_Log string | Op_App_Log string | Op_Sync | Op_Flush log_rounds log_rounds
  | Op_Rounds log_rounds | Op_App_Rounds log_rounds

text \<open>The result has the messages each thread has written.\<close>

fun log_step :: "log_op \<Rightarrow> logger \<Rightarrow> (logger \<times> string list \<times> string list) option" where
  "log_step (Op_Log msg) lg = do { (lg, _) \<leftarrow> pushLog msg lg; Some (lg, [], []) }"
| "log_step (Op_App_Log msg) lg = Some (pushAppLog msg lg, [], [])"
| "log_step Op_Sync lg = do { lg \<leftarrow> syncLoop lg; Some (lg, [], []) }"
| "log_step (Op_Flush rounds app_rounds) lg = logger_flush rounds app_rounds lg"
| "log_step (Op_Rounds rounds) lg = do {
     a \<leftarrow> m_asnyc_logger lg;
     let (a', out) = async_run rounds a;
     Some (lg\<lparr>m_asnyc_logger := Some a'\<rparr>, out, []) }"
| "log_step (Op_App_Rounds rounds) lg = do {
     a \<leftarrow> m_asnyc_app_logger lg;
     let (a', out) = async_run rounds a;
     Some (lg\<lparr>m_asnyc_app_logger := Some a'\<rparr>, [], out) }"

fun log_steps :: "log_op list \<Rightarrow> logger \<Rightarrow> (logger \<times> string list \<times> string list) option" where
  "log_steps [] lg = Some (lg, [], [])"
| "log_steps (op # ops) lg = do {
     (lg1, o1, p1) \<leftarrow> log_step op lg;
     (lg2, o2, p2) \<leftarrow> log_steps ops lg1;
     Some (lg2, o1 @ o2, p1 @ p2) }"

definition logged :: "log_op list \<Rightarrow> string list" where
  "logged ops = concat (map (\<lambda>op. case op of Op_Log m \<Rightarrow> [m] | _ \<Rightarrow> []) ops)"

definition app_logged :: "log_op list \<Rightarrow> string list" where
  "app_logged ops = concat (map (\<lambda>op. case op of Op_App_Log m \<Rightarrow> [m] | _ \<Rightarrow> []) ops)"

definition no_flush :: "log_op list \<Rightarrow> bool" where
  "no_flush ops \<longleftrightarrow> list_all (\<lambda>op. case op of Op_Flush _ _ \<Rightarrow> False | _ \<Rightarrow> True) ops"

definition queue :: "async_logger option \<Rightarrow> string list list" where
  "queue a = (case a of None \<Rightarrow> [] | Some x \<Rightarrow> as_buffer x)"

definition waiting :: "logger \<Rightarrow> string list" where
  "waiting lg = concat (queue (m_asnyc_logger lg)) @ lg_buffer lg"

definition app_waiting :: "logger \<Rightarrow> string list" where
  "app_waiting lg = concat (queue (m_asnyc_app_logger lg)) @ m_app_buffer lg"

definition log_ready :: "logger \<Rightarrow> bool" where
  "log_ready lg \<longleftrightarrow> lg_type lg \<noteq> 0 \<and> m_asnyc_logger lg \<noteq> None \<and> m_asnyc_app_logger lg \<noteq> None"

text \<open>Both threads run and have not been told to stop.\<close>

definition log_running :: "logger \<Rightarrow> bool" where
  "log_running lg \<longleftrightarrow> lg_type lg \<noteq> 0 \<and>
     (\<exists>a. m_asnyc_logger lg = Some a \<and> on_duty a) \<and> (\<exists>a. m_asnyc_app_logger lg = Some a \<and> on_duty a)"

lemma log_running_ready: "log_running lg \<Longrightarrow> log_ready lg"
  by (auto simp: log_running_def log_ready_def)

lemma logged_simps [simp]:
  "logged [] = []" "logged [Op_Sync] = []" "logged [Op_Rounds r] = []"
  "logged [Op_App_Rounds r] = []" "logged [Op_Flush r p] = []" "logged [Op_Log m] = [m]" "logged [Op_App_Log m] = []"
  "app_logged [] = []" "app_logged [Op_Sync] = []"
  "app_logged [Op_Rounds r] = []" "app_logged [Op_App_Rounds r] = []" "app_logged [Op_Flush r p] = []"
  "app_logged [Op_Log m] = []" "app_logged [Op_App_Log m] = [m]"
  by (simp_all add: logged_def app_logged_def)

lemma logged_append [simp]:
  "logged (as @ bs) = logged as @ logged bs" "app_logged (as @ bs) = app_logged as @ app_logged bs"
  by (simp_all add: logged_def app_logged_def)

lemma logged_Cons:
  "logged (op # ops) = logged [op] @ logged ops" "app_logged (op # ops) = app_logged [op] @ app_logged ops"
  using logged_append [of "[op]" ops] by simp_all

text \<open>What \<open>syncLoop\<close> leaves in the queues.\<close>

lemma push_batch_queue:
  assumes "a = Some x"
  shows "push_batch v a = Some (Some (x\<lparr>as_buffer := batches a v\<rparr>))"
  using assms by (simp add: push_batch_def pushLogBuffer_def batches_def)

lemma concat_batches: "concat (batches a v) = concat (queue a) @ v"
  by (simp add: batches_def queue_def split: option.split)

lemma length_batches: "length (batches a v) \<le> length (queue a) + 1"
  by (simp add: batches_def queue_def split: option.split)

lemma syncLoop_batches:
  assumes "m_asnyc_logger lg = Some a" "m_asnyc_app_logger lg = Some a2"
  shows "syncLoop lg = Some (lg\<lparr>lg_buffer := [], m_app_buffer := [],
    m_asnyc_logger := Some (a\<lparr>as_buffer := batches (m_asnyc_logger lg) (lg_buffer lg)\<rparr>),
    m_asnyc_app_logger := Some (a2\<lparr>as_buffer := batches (m_asnyc_app_logger lg) (m_app_buffer lg)\<rparr>)\<rparr>)"
  using push_batch_queue [OF assms(1)] push_batch_queue [OF assms(2)] assms by (simp add: syncLoop_def)

lemma log_step_keeps:
  assumes "log_ready lg"
  shows "\<exists>lg' out app. log_step op lg = Some (lg', out, app) \<and> log_ready lg' \<and>
    out @ written (waiting lg') = written (waiting lg @ logged [op]) \<and>
    app @ written (app_waiting lg') = written (app_waiting lg @ app_logged [op])"
proof -
  obtain a a2 where a: "m_asnyc_logger lg = Some a" "m_asnyc_app_logger lg = Some a2" "lg_type lg \<noteq> 0"
    using assms by (auto simp: log_ready_def)
  note sync = syncLoop_batches [OF a(1,2)]
  show ?thesis
  proof (cases op)
    case Op_Sync
    then show ?thesis using a by (simp add: sync waiting_def app_waiting_def log_ready_def concat_batches queue_def)
  next
    case (Op_Flush r p)
    let ?b = "a\<lparr>as_buffer := batches (m_asnyc_logger lg) (lg_buffer lg)\<rparr>"
    let ?b2 = "a2\<lparr>as_buffer := batches (m_asnyc_app_logger lg) (m_app_buffer lg)\<rparr>"
    obtain a' o1 a2' o2 where r: "async_run r ?b = (a', o1)" "async_run p ?b2 = (a2', o2)"
      by (cases "async_run r ?b"; cases "async_run p ?b2")
    have "o1 @ written (concat (as_buffer a')) = written (waiting lg)"
        "o2 @ written (concat (as_buffer a2')) = written (app_waiting lg)"
      using async_run_written [OF r(1)] async_run_written [OF r(2)]
      by (simp_all add: concat_batches waiting_def app_waiting_def)
    then show ?thesis
      using Op_Flush a(3) r
      by (simp add: logger_flush_def sync log_ready_def waiting_def app_waiting_def async_stop_def queue_def)
  next
    case (Op_Rounds rs)
    obtain a' out where r: "async_run rs a = (a', out)" by (cases "async_run rs a")
    from async_run_written [OF r] show ?thesis using a Op_Rounds r
      by (simp add: log_ready_def waiting_def app_waiting_def queue_def flip: append_assoc)
  next
    case (Op_App_Rounds rs)
    obtain a' out where r: "async_run rs a2 = (a', out)" by (cases "async_run rs a2")
    from async_run_written [OF r] show ?thesis using a Op_App_Rounds r
      by (simp add: log_ready_def waiting_def app_waiting_def queue_def flip: append_assoc)
  qed (use assms in \<open>auto simp: pushLog_def pushAppLog_def log_ready_def waiting_def app_waiting_def\<close>)
qed

lemma log_steps_keep:
  assumes "log_ready lg"
  shows "\<exists>lg' out app. log_steps ops lg = Some (lg', out, app) \<and> log_ready lg' \<and>
    out @ written (waiting lg') = written (waiting lg @ logged ops) \<and>
    app @ written (app_waiting lg') = written (app_waiting lg @ app_logged ops)"
  using assms
proof (induction ops arbitrary: lg)
  case (Cons op ops)
  obtain lg1 o1 p1 where s: "log_step op lg = Some (lg1, o1, p1)" "log_ready lg1"
      "o1 @ written (waiting lg1) = written (waiting lg @ logged [op])"
      "p1 @ written (app_waiting lg1) = written (app_waiting lg @ app_logged [op])"
    using log_step_keeps [OF Cons.prems] by blast
  obtain lg2 o2 p2 where t: "log_steps ops lg1 = Some (lg2, o2, p2)" "log_ready lg2"
      "o2 @ written (waiting lg2) = written (waiting lg1 @ logged ops)"
      "p2 @ written (app_waiting lg2) = written (app_waiting lg1 @ app_logged ops)"
    using Cons.IH [OF s(2)] by blast
  have "(o1 @ o2) @ written (waiting lg2) = written (waiting lg @ logged (op # ops))"
      "(p1 @ p2) @ written (app_waiting lg2) = written (app_waiting lg @ app_logged (op # ops))"
    using s(3,4) t(3,4) unfolding logged_Cons [of op ops] by (metis append_assoc written_append)+
  then show ?case using s(1) t(1,2) by simp
qed simp

lemma log_steps_append:
  "log_steps (as @ bs) lg = do {
     (lg1, o1, p1) \<leftarrow> log_steps as lg;
     (lg2, o2, p2) \<leftarrow> log_steps bs lg1;
     Some (lg2, o1 @ o2, p1 @ p2) }"
  by (induction as arbitrary: lg) (auto split: Option.bind_splits prod.splits)

text \<open>Without \<open>flush\<close> the threads stay on duty, and an operation queues at most one batch more.\<close>

lemma log_step_running:
  assumes "log_running lg" "no_flush [op]" "log_step op lg = Some (lg', out, app)"
  shows "log_running lg' \<and> length (queue (m_asnyc_logger lg')) \<le> length (queue (m_asnyc_logger lg)) + 1 \<and>
    length (queue (m_asnyc_app_logger lg')) \<le> length (queue (m_asnyc_app_logger lg)) + 1"
proof -
  obtain a a2 where a: "m_asnyc_logger lg = Some a" "m_asnyc_app_logger lg = Some a2" "lg_type lg \<noteq> 0" "on_duty a" "on_duty a2"
    using assms(1) by (auto simp: log_running_def)
  show ?thesis
  proof (cases op)
    case Op_Sync
    then show ?thesis using a assms(3) length_batches
      by (auto simp: syncLoop_batches log_running_def on_duty_def queue_def batches_def)
  next
    case (Op_Rounds rs)
    then show ?thesis using a assms(3) async_run_on_duty [OF a(4), of rs] by (auto simp: log_running_def queue_def)
  next
    case (Op_App_Rounds rs)
    then show ?thesis using a assms(3) async_run_on_duty [OF a(5), of rs] by (auto simp: log_running_def queue_def)
  qed (use a assms in \<open>auto simp: pushLog_def pushAppLog_def log_running_def no_flush_def\<close>)
qed

lemma log_steps_running:
  "log_running lg \<Longrightarrow> no_flush ops \<Longrightarrow> log_steps ops lg = Some (lg', out, app) \<Longrightarrow>
   log_running lg' \<and> length (queue (m_asnyc_logger lg')) \<le> length (queue (m_asnyc_logger lg)) + length ops \<and>
   length (queue (m_asnyc_app_logger lg')) \<le> length (queue (m_asnyc_app_logger lg)) + length ops"
proof (induction ops arbitrary: lg lg' out app)
  case (Cons op ops)
  obtain lg1 o1 p1 o2 p2 where s: "log_step op lg = Some (lg1, o1, p1)" "log_steps ops lg1 = Some (lg', o2, p2)"
    using Cons.prems(3) by (auto simp: bind_eq_Some_conv)
  have "no_flush [op]" "no_flush ops" using Cons.prems(2) by (simp_all add: no_flush_def)
  then show ?case
    using log_step_running [OF Cons.prems(1) _ s(1)] Cons.IH [OF _ _ s(2)] by fastforce
qed simp

text \<open>A synchronisation and enough rounds of the two threads empty the logger.\<close>

lemma sync_and_rounds_empty:
  assumes "log_running lg" "length (queue (m_asnyc_logger lg)) < length rs" "length (queue (m_asnyc_app_logger lg)) < length ps"
  shows "\<exists>lg' out app. log_steps [Op_Sync, Op_Rounds rs, Op_App_Rounds ps] lg = Some (lg', out, app) \<and>
    waiting lg' = [] \<and> app_waiting lg' = []"
proof -
  obtain a a2 where a: "m_asnyc_logger lg = Some a" "m_asnyc_app_logger lg = Some a2" "on_duty a" "on_duty a2"
    using assms(1) by (auto simp: log_running_def)
  let ?b = "a\<lparr>as_buffer := batches (m_asnyc_logger lg) (lg_buffer lg)\<rparr>"
  let ?b2 = "a2\<lparr>as_buffer := batches (m_asnyc_app_logger lg) (m_app_buffer lg)\<rparr>"
  have "on_duty ?b" "on_duty ?b2" using a by (simp_all add: on_duty_def)
  moreover have "length (as_buffer ?b) \<le> length rs" "length (as_buffer ?b2) \<le> length ps"
    using assms(2,3) length_batches [of "m_asnyc_logger lg" "lg_buffer lg"]
      length_batches [of "m_asnyc_app_logger lg" "m_app_buffer lg"] by simp_all
  ultimately obtain a' a2' o1 o2 where "async_run rs ?b = (a', o1)" "as_buffer a' = []" "async_run ps ?b2 = (a2', o2)" "as_buffer a2' = []"
    using async_run_on_duty [of ?b rs] async_run_on_duty [of ?b2 ps] by auto
  then show ?thesis by (simp add: syncLoop_batches [OF a(1,2)] waiting_def app_waiting_def queue_def)
qed

text \<open>
  C27. The messages of a logger keep their order.  After any sequence of messages, synchronisations, \<open>flush\<close> and rounds
  of the writing threads, what a thread has written followed by what is still queued and buffered
  is what was waiting at first followed by everything logged since: nothing is repeated or reordered, and nothing
  disappears from the buffers without being written.  As long as \<open>flush\<close> is not called everything is also
  written in the end: a further synchronisation and as many rounds as there can be batches write all of it, for
  the framework and for the application.  After \<open>flush\<close> this fails (\<open>flush_writes_one_batch\<close> below).
  Each operation on a buffer or queue is one step, as if the mutexes excluded the others;
  the sources unlock them twice (\<open>guard_mutual_exclusion\<close> in \<^verbatim>\<open>Scope_Mutex\<close>).
\<close>

theorem log_messages_in_order:
  assumes "log_ready lg"
  shows "(\<exists>lg' out app. log_steps ops lg = Some (lg', out, app) \<and>
      out @ written (waiting lg') = written (waiting lg @ logged ops) \<and>
      app @ written (app_waiting lg') = written (app_waiting lg @ app_logged ops)) \<and>
    (log_running lg \<and> no_flush ops \<and> length (queue (m_asnyc_logger lg)) + length ops < length rs \<and>
        length (queue (m_asnyc_app_logger lg)) + length ops < length ps \<longrightarrow>
      (\<exists>lg'. log_steps (ops @ [Op_Sync, Op_Rounds rs, Op_App_Rounds ps]) lg =
        Some (lg', written (waiting lg @ logged ops), written (app_waiting lg @ app_logged ops))))"
proof (intro conjI impI)
  show "\<exists>lg' out app. log_steps ops lg = Some (lg', out, app) \<and>
      out @ written (waiting lg') = written (waiting lg @ logged ops) \<and>
      app @ written (app_waiting lg') = written (app_waiting lg @ app_logged ops)"
    using log_steps_keep [OF assms] by blast
next
  assume r: "log_running lg \<and> no_flush ops \<and> length (queue (m_asnyc_logger lg)) + length ops < length rs \<and>
        length (queue (m_asnyc_app_logger lg)) + length ops < length ps"
  let ?ops = "ops @ [Op_Sync, Op_Rounds rs, Op_App_Rounds ps]"
  obtain lg1 o1 p1 where s: "log_steps ops lg = Some (lg1, o1, p1)" using log_steps_keep [OF assms] by blast
  obtain lg2 o2 p2 where t: "log_steps [Op_Sync, Op_Rounds rs, Op_App_Rounds ps] lg1 = Some (lg2, o2, p2)"
      "waiting lg2 = []" "app_waiting lg2 = []"
    using log_steps_running [OF _ _ s] sync_and_rounds_empty [of lg1 rs ps] r by fastforce
  have e: "log_steps ?ops lg = Some (lg2, o1 @ o2, p1 @ p2)" by (simp add: log_steps_append s t(1) del: log_steps.simps)
  moreover have "logged ?ops = logged ops" "app_logged ?ops = app_logged ops"
    by (simp_all add: logged_Cons [of _ "_ # _"])
  ultimately show "\<exists>lg'. log_steps ?ops lg =
      Some (lg', written (waiting lg @ logged ops), written (app_waiting lg @ app_logged ops))"
    using log_steps_keep [OF assms, of ?ops] t(2,3) by auto
qed

definition demo_logger :: logger where
  "demo_logger = the (Logger_new (Some Config_new) Debug 1)"

lemma demo_logger_ready:
  "log_ready demo_logger" "log_running demo_logger" "waiting demo_logger = []" "app_waiting demo_logger = []"
  "queue (m_asnyc_logger demo_logger) = []" "queue (m_asnyc_app_logger demo_logger) = []"
  "lg_buffer demo_logger = []" "m_app_buffer demo_logger = []"
  by (simp_all add: demo_logger_def Logger_new_def log_ready_def log_running_def on_duty_def waiting_def app_waiting_def
      queue_def AsyncLogger_new_def)

theorem log_messages_in_order_witness:
  "\<exists>lg'. log_steps ([Op_Log ''a'', Op_Sync, Op_Log ''b'', Op_App_Log ''c''] @
      [Op_Sync, Op_Rounds (replicate 5 (''20231001'', True)), Op_App_Rounds (replicate 5 (''20231001'', True))]) demo_logger =
    Some (lg', [''a'', ''b''], [''c''])"
  using log_messages_in_order [OF demo_logger_ready(1), of "[Op_Log ''a'', Op_Sync, Op_Log ''b'', Op_App_Log ''c'']"
      "replicate 5 (''20231001'', True)" "replicate 5 (''20231001'', True)"]
  by (simp add: demo_logger_ready logged_def app_logged_def no_flush_def written_def del: log_steps.simps)

text \<open>
  Shutting down writes at most one batch more: after \<open>stop()\<close> a writing thread writes the first queued batch and ends, so
  the batches behind it, the latest messages among them, are never written; when nothing is queued any more the thread
  waits for ever and does not end.
\<close>

lemma logger_flush_runs:
  assumes "log_running lg" "r2 \<noteq> []" "p2 \<noteq> []"
  shows "\<exists>lg' a a2 o1 o2 q1 q2 b b2. logger_flush r1 p1 lg = Some (lg', o1, q1) \<and>
    m_asnyc_logger lg' = Some a \<and> m_asnyc_app_logger lg' = Some a2 \<and>
    async_run r2 a = (b, o2) \<and> async_run p2 a2 = (b2, q2) \<and>
    (let B = batches (m_asnyc_logger lg) (lg_buffer lg); A = batches (m_asnyc_app_logger lg) (m_app_buffer lg) in
      o1 @ o2 = written (concat (take (length r1 + 1) B)) \<and> as_buffer b = drop (length r1 + 1) B \<and>
      (as_ended b \<longleftrightarrow> length r1 < length B) \<and>
      q1 @ q2 = written (concat (take (length p1 + 1) A)) \<and> as_buffer b2 = drop (length p1 + 1) A \<and>
      (as_ended b2 \<longleftrightarrow> length p1 < length A))"
proof -
  obtain a a2 where a: "m_asnyc_logger lg = Some a" "m_asnyc_app_logger lg = Some a2" "on_duty a" "on_duty a2"
    using assms(1) by (auto simp: log_running_def)
  let ?b = "a\<lparr>as_buffer := batches (m_asnyc_logger lg) (lg_buffer lg)\<rparr>"
  let ?b2 = "a2\<lparr>as_buffer := batches (m_asnyc_app_logger lg) (m_app_buffer lg)\<rparr>"
  have d: "on_duty ?b" "on_duty ?b2" using a by (simp_all add: on_duty_def)
  obtain a1 o1 b o2 where r: "async_run r1 ?b = (a1, o1)" "async_run r2 (async_stop a1) = (b, o2)"
      "o1 @ o2 = written (concat (take (length r1 + 1) (as_buffer ?b)))"
      "as_buffer b = drop (length r1 + 1) (as_buffer ?b)" "as_ended b \<longleftrightarrow> length r1 < length (as_buffer ?b)"
    using async_run_stop_run [OF d(1) assms(2), of r1] by blast
  obtain c1 q1 b2 q2 where p: "async_run p1 ?b2 = (c1, q1)" "async_run p2 (async_stop c1) = (b2, q2)"
      "q1 @ q2 = written (concat (take (length p1 + 1) (as_buffer ?b2)))"
      "as_buffer b2 = drop (length p1 + 1) (as_buffer ?b2)" "as_ended b2 \<longleftrightarrow> length p1 < length (as_buffer ?b2)"
    using async_run_stop_run [OF d(2) assms(3), of p1] by blast
  show ?thesis using r p by (simp add: logger_flush_def syncLoop_batches [OF a(1,2)] Let_def)
qed

theorem flush_writes_one_batch:
  assumes "log_running lg" "r2 \<noteq> []"
  shows "\<exists>lg' a o1 o2 q1 b. logger_flush r1 p1 lg = Some (lg', o1, q1) \<and> m_asnyc_logger lg' = Some a \<and>
    async_run r2 a = (b, o2) \<and>
    (let B = batches (m_asnyc_logger lg) (lg_buffer lg) in
      concat B = waiting lg \<and> o1 @ o2 = written (concat (take (length r1 + 1) B)) \<and>
      (if length r1 < length B then \<forall>r3. async_run r3 b = (b, []) else \<not> as_ended b))"
proof -
  from logger_flush_runs [OF assms assms(2), of r1 p1] obtain lg' a o1 o2 q1 b where
    f: "logger_flush r1 p1 lg = Some (lg', o1, q1)" "m_asnyc_logger lg' = Some a" "async_run r2 a = (b, o2)"
      "o1 @ o2 = written (concat (take (length r1 + 1) (batches (m_asnyc_logger lg) (lg_buffer lg))))"
      "as_ended b \<longleftrightarrow> length r1 < length (batches (m_asnyc_logger lg) (lg_buffer lg))"
    by (auto simp: Let_def)
  then show ?thesis by (auto simp: Let_def concat_batches waiting_def async_run_ended)
qed

theorem flush_writes_one_batch_witness:
  "\<exists>lg1 out app lg' a o1 q1 b. log_steps [Op_Log ''a'', Op_Sync, Op_Log ''b''] demo_logger = Some (lg1, out, app) \<and>
     logger_flush [] [] lg1 = Some (lg', o1, q1) \<and> m_asnyc_logger lg' = Some a \<and>
     async_run [(''20231001'', True)] a = (b, [''a'']) \<and> (\<forall>r3. async_run r3 b = (b, []))"
proof -
  define a where "a = (AsyncLogger_new ''_rpc'' [] 0)\<lparr>as_buffer := [[''a'']]\<rparr>"
  define lg1 where "lg1 = demo_logger\<lparr>lg_buffer := [''b''], m_asnyc_logger := Some a\<rparr>"
  have s: "log_steps [Op_Log ''a'', Op_Sync, Op_Log ''b''] demo_logger = Some (lg1, [], [])"
    by (simp add: lg1_def a_def demo_logger_def Logger_new_def pushLog_def syncLoop_def push_batch_def pushLogBuffer_def
        AsyncLogger_new_def Config_new_def config_init_def)
  have r: "log_running lg1"
    using demo_logger_ready(2) by (auto simp: lg1_def a_def log_running_def on_duty_def AsyncLogger_new_def)
  have b: "batches (m_asnyc_logger lg1) (lg_buffer lg1) = [[''a''], [''b'']]"
    by (simp add: lg1_def a_def batches_def)
  from flush_writes_one_batch [OF r, of "[(''20231001'', True)]" "[]" "[]"] obtain lg' a1 o1 o2 q1 b' where
    f: "logger_flush [] [] lg1 = Some (lg', o1, q1)" "m_asnyc_logger lg' = Some a1"
      "async_run [(''20231001'', True)] a1 = (b', o2)" "o1 @ o2 = [''a'']" "\<forall>r3. async_run r3 b' = (b', [])"
    by (auto simp: b Let_def written_def)
  moreover have "o1 = []" using f(1) by (auto simp: logger_flush_def bind_eq_Some_conv Let_def split: prod.splits)
  ultimately show ?thesis using s by (simp del: log_steps.simps async_run.simps)
qed



end
