(* ===== verification/Spec2Isabelle.thy ===== *)
theory Spec2Isabelle
  imports Order_Restart Call_Failures Call_Sequence Server_Interleave Scope_Mutex Async_Log High_Avai
begin

text \<open>
  A model of TalonRPC, a C++ RPC framework on epoll and protobuf, with the theorems that make its parts correct and
  those that show where they are not.

  \<^bold>\<open>The program.\<close>  A server process (\<^verbatim>\<open>net/tcp/tcp_server.cc\<close>) accepts connections in its main event loop and hands each to an IO
  thread with an event loop of its own (\<^verbatim>\<open>net/iothread.cc\<close>, \<^verbatim>\<open>net/iothreadgroup.cc\<close>, \<^verbatim>\<open>net/eventloop.cc\<close>).  A loop watches descriptor events
  (\<^verbatim>\<open>net/fd_event.cc\<close>, \<^verbatim>\<open>net/fd_event_group.cc\<close>), a wake-up descriptor and a timer (\<^verbatim>\<open>net/timer.cc\<close>), and runs queued tasks.  A connection
  (\<^verbatim>\<open>net/tcp/tcp_connection.cc\<close>) reads bytes into a buffer (\<^verbatim>\<open>net/tcp/tcp_buffer.cc\<close>), decodes TinyPB frames (\<^verbatim>\<open>net/coder/tinypb_coder.cc\<close>) and, on a
  server, gives each request to the dispatcher (\<^verbatim>\<open>net/rpc/rpc_dispatcher.cc\<close>), which calls the protobuf service and replies.  A client calls a
  method through a channel (\<^verbatim>\<open>net/rpc/rpc_channel.cc\<close>): it asks the discovery centre (\<^verbatim>\<open>net/service_discovery/\<close>) for the address, connects
  (\<^verbatim>\<open>net/tcp/tcp_client.cc\<close>), writes the request and waits for the response with the same message id, or for its timeout.  Configuration, logging,
  mutexes and the supervisor that restarts a server are under \<^verbatim>\<open>common/\<close>.

  \<^bold>\<open>Theories\<close>, each over those before it:
  \<^item> \<open>Talon_Prelude\<close>: bytes, raw memory, \<open>int\<close> overflow, \<open>htonl\<close>, \<open>std::string\<close>, \<open>std::to_string\<close>, \<open>atoi\<close>, and the collections
    \<open>talon_ub\<close>, \<open>talon_inv\<close>, \<open>talon_eval\<close>; \<open>Std_Containers\<close>: \<open>std::map\<close> and \<open>std::multimap\<close> (locale \<open>finite_table\<close>, interpretation \<open>smap\<close>).
  \<^item> \<open>Tcp_Buffer\<close> (locale \<open>byte_fifo\<close>, interpretation \<open>tb\<close>): the vector with its two indices implements a queue of bytes.
    \<open>Tinypb_Coder\<close> (\<open>message_coder\<close>, \<open>tpb\<close>), with \<^verbatim>\<open>tinypb_protocol\<close>, \<^verbatim>\<open>abstract_protocol.h\<close> and \<^verbatim>\<open>string_coder.h\<close>: encoding and decoding are inverse,
    also on a stream that arrives in pieces, as long as the unread rest makes the decoder wait; three ways in which \<open>decode\<close> does not
    return or repeats a message.
  \<^item> \<open>Net_Addr\<close>: addresses and their texts.  \<open>Service_Discovery\<close> (\<open>service_registry\<close>, \<open>sdr\<close>): the centre as a state machine;
    \<open>Sd_Client\<close>: its clients, that what is registered is found, and the refinement of a partial map by the centre.
  \<^item> \<open>Msg_Id\<close>: message ids.  \<open>Fd_Event\<close>, \<open>Timer\<close> (\<open>deadline_queue\<close>, \<open>tq\<close>), \<open>Event_Loop\<close> (\<open>fd_registry\<close>, \<open>elr\<close>): the reactor; in every
    state a loop reaches its set of descriptors is the kernel's interest list, as long as no registered descriptor is closed; timers run in time
    order and the descriptor is armed for the first of them; registrations from another thread are performed by the loop.
    \<open>Io_Threads\<close>: start-up handshake and round robin.  \<open>Scope_Mutex\<close>: the guard, with mutual exclusion as an invariant of the steps its
    operations make, and the undefined second unlock behind an early one.
  \<^item> \<open>Rpc_Base\<close> (\<open>controller_contract\<close>, \<open>ctl\<close> and \<open>ctl_err\<close>): error codes, controller, closure, interface, run time.
    \<open>Tcp_Connection\<close>, \<open>Rpc_Dispatcher\<close>: reading, writing, dispatching, registering.  \<open>Any_Input\<close>: buffers stay well formed whatever a peer sends.
    \<open>Stream_Input\<close>: requests cut into pieces by the network are answered as whole ones are.
  \<^item> \<open>Tcp_Server\<close>: accepting and the periodic clean-up.  \<open>Server_Loop\<close>: a pass of an IO thread's loop with the callbacks of its connections
    (\<open>node_task\<close>, \<open>node_round\<close>), and the whole server as a step relation \<open>server_step\<close> over the main thread, the IO threads and arriving bytes, in which a pass is one step.
    \<open>Server_World\<close>: the invariant of its reachable states, between passes.  \<open>Server_Live\<close> (\<open>independent_callbacks\<close>, \<open>reads\<close> and \<open>writes\<close>): waiting requests are answered,
    and a race of the clean-up with a write callback.  \<open>Server_Interleave\<close>: passes of different threads commute.
  \<^item> \<open>Tcp_Client\<close>, \<open>Rpc_Channel\<close>: the operations of a call and the closures it registers.  \<open>Call_Loop\<close>: the loop \<open>CallMethod\<close> waits in
    (\<open>call_round\<close>, \<open>call_loop\<close>).  \<open>System_Call\<close>: the client's and the server's loops joined.  \<open>Call_Failures\<close>: refused connections and reused descriptors.
    \<open>Call_Sequence\<close>: calls one after the other on a thread.
  \<^item> \<open>Config_File\<close>: the two configuration files.  \<open>Async_Log\<close>: the loggers (order and delivery of messages, the loss at \<open>flush\<close>),
    \<open>formatString\<close> and the handler of fatal signals, with the rounds the writing threads have time for before and after they are told to stop.  \<open>High_Avai\<close>: the supervisor.
  \<^item> \<open>Order_Pb\<close>: the messages \<^verbatim>\<open>protoc\<close> generates in \<^verbatim>\<open>test/order.pb.cc\<close>, over a record of the library's functions and its laws; they are parsed back
    as they were serialised.  \<open>Order_Example\<close>: the generated service and stub and the programs under \<^verbatim>\<open>test/\<close>.  \<open>Order_Restart\<close>: the server's
    program over the restarts of its supervisor, with the table of the discovery centre.
  \<^item> This theory: a call from registration to return, with the example programs as its instance.

  \<^bold>\<open>Correspondence.\<close>  A class is a record with the class's members (prefixed where two classes share a member's name), a method a definition
  with the method's name (a constructor is \<open>X_new\<close>, a destructor \<open>X_delete\<close>), composed as in the source.  Objects that
  pointers share are in a heap or table of their owner: timer events in \<open>tm_heap\<close>, descriptor events in the event table, the connection in the client.  Each loop
  has its own part of the global \<open>FdEventGroup\<close>, the descriptors it watches.  Closures are named by numbers or by values of
  the type \<open>task\<close>; the calls an operation makes are part of its result, and the loops of servers and clients run the closures themselves.
  What system calls return (sockets, clock, files, \<open>fork\<close>) is an argument of the operation, so theorems hold for every behaviour of the system that
  their premises do not exclude; what \<open>epoll_wait\<close> reports follows from what is registered and from the state of the sockets.

  \<^bold>\<open>Results of operations.\<close>  \<open>None\<close> is undefined behaviour or, where the text of a definition says so, the end of the process: access outside a vector or
  string, a null pointer dereferenced, \<open>int\<close> overflow.  The loops of \<open>decode\<close>, \<open>onRead\<close> and \<open>_InternalParse\<close> may run for ever; they are partial functions
  whose value \<open>None\<close> is not returning, with \<open>Returns\<close> and \<open>Undefined\<close> for the other outcomes, and that they return is part of the theorems.  All other loops
  terminate by their recursion, an event loop over the list of what its passes meet; no fuel is used.

  \<^bold>\<open>Bounds.\<close>  \<open>wire_ok\<close> has what the decoder's character arrays and 32-bit lengths hold: message ids below 100 bytes, method names
  and error texts below 512, no NUL in them, frames below \<open>2 ^ 31\<close> bytes.  \<open>buf_room\<close> bounds a buffer by \<open>1431655765\<close> bytes, the largest size whose one and a half
  fits an \<open>int\<close>.  A read that fills the input buffer is lost (\<open>Tcp_Connection\<close>), hence the premises that a frame is
  smaller than the free space of the buffer it is read into: below 128 bytes on a new connection.  The decoder searches for frames inside an unfinished frame too;
  \<open>waiting_tail\<close> has what an unread rest must satisfy for it to wait, and without it \<open>decode\<close> may hang.  One \<open>epoll_wait\<close> reports ten descriptors at most.  The
  supervisor's counter must fit the nine digits its array holds.

  \<^bold>\<open>Not modelled.\<close>  Log calls inside the other components, except where their arguments dereference a null pointer; freeing of memory where nothing
  can observe it.  The protobuf library and TinyXML are arguments, with concrete instances in the
  witnesses; of the generated code, what registers descriptors, arenas, swapping and cached sizes are left out, as they concern reflection and
  memory of that library only.  Interleaving is modelled at the passes of the loops, and more finely where a property depends on it: guards, the task queue,
  the start-up of threads, the loggers, and the clean-up within a pass.  Outside \<open>Scope_Mutex\<close> an operation under a mutex is one step, as if no
  guard were unlocked twice.  The loop of a call knows the tasks of this call only, not those of earlier calls of the thread that are still pending.
\<close>

section \<open>A call from end to end\<close>

text \<open>
  C1. A remote call from end to end.  A node registers a service at the discovery centre; then, with the centre answering from the table this has
  left, \<open>CallMethod\<close> finds the node for a method of the service, starts a connection to it and enters the loop of
  its thread; in three passes this loop finishes the connection and writes the frame of the request.  The node, in any reachable state,
  accepts the connection; the thread it is given to registers it in two passes; and when the bytes have reached it, three
  passes send exactly the frame of the response.  When that has reached the client, two more passes deliver it: it is parsed into the user's message, the
  user's closure runs once with the controller's error state as it was, and the closure ends the loop, so \<open>CallMethod\<close> returns.
\<close>

theorem registered_call_completes:
  assumes registered: "registerService control_port nets ip (uint p) service smap = Some (smap', msgs)" "\<forall>n. nets n = net_up ''add service success''"
      "word_ok (svc_full_name service)" "\<forall>x \<in> set (svc_methods service). word_ok x" "service_answers service x pb data"
      "full_name = svc_full_name service @ ''.'' @ x"
    and caller: "ce_net env = net_up (handle_query (centre_after m msgs) full_name)" "caller_ready env ip p i l"
      "choose_msg_id (ce_urandom env) rt ids c = Some (mid, c', ids')"
    and channel: "ch_is_init ch" "ch_controller ch = Some c" "\<not> Finished c" "ch_closure ch" "ch_response ch \<noteq> None"
    and request: "req = TinyPBProtocol_new\<lparr>m_msg_id := mid, m_method_name := full_name, m_pb_data := pb\<rparr>" "rsp = response_of req data"
      "wire_ok req" "wire_ok rsp" "frame_size req < 128" "frame_size rsp < 128"
    and closures: "closures_of env req k" "cc_user k = client_stop" "cc_parse k data = Some msg"
    and passes: "\<forall>e \<in> {e1, e2, e3}. serves e i l \<and> good_passes k i e" "serves e4 i l"
    and server: "fresh_server main_tid (sw_server w0)" "server_runs smap' main_tid w0 w" "can_accept main_tid ea fd w"
      "ne_order se = [int fd]" "ne_writable se (int fd)" "\<not> ne_error se (int fd)" "takes_all se fd (frame_bytes rsp)"
  shows "\<exists>ch1 l1 nd1 s nd sd nd2. CallMethod env full_name (True, True, True) (Some pb) te rt ids ch l = Some (ch1, l1, ids', Call_Loops req) \<and>
    call_loop [e1, e2, e3] k ch1 l1 = Some (Returns nd1) \<and>
    onAccept fd_ok inet_ntoa main_tid flag (int fd) sa (sw_server w) = Some s \<and>
    node_rounds [ea, ea] smap' (node_of (w\<lparr>sw_server := s\<rparr>) (next_thread (sw_server w))) = Some (Returns nd) \<and>
    node_rounds [se, se, se] smap' (arrive fd (cn_sent nd1) nd) = Some (Returns sd) \<and> nd_sent sd = sw_sent w @ [(fd, frame_bytes rsp)] \<and>
    call_rounds [e4, e5] k (arrive_call (snd (last (nd_sent sd))) nd1) = Some (Returns nd2) \<and> m_stop_flag (cn_loop nd2) \<and>
    ch_runs (cn_channel nd2) = ch_runs ch + 1 \<and> ch_response (cn_channel nd2) = Some msg \<and>
    ch_controller (cn_channel nd2) = Some (SetFinished True c')"
proof -
  have x: "x \<in> set (svc_methods service)" using registered(5) by (simp add: service_answers_def)
  note r = registered_resolves [OF registered(1-4) x]
  have possible: "call_possible env ip p i l"
    by (rule caller_ready_possible [OF caller(2)]) (unfold caller(1) registered(6) r(1), rule refl)
  obtain s nd where a: "onAccept fd_ok inet_ntoa main_tid flag (int fd) sa (sw_server w) = Some s"
      "node_rounds [ea, ea] smap' (node_of (w\<lparr>sw_server := s\<rparr>) (next_thread (sw_server w))) = Some (Returns nd)" "conn_waits fd nd" "loop_ok nd"
      "m_pending_tasks (nd_loop nd) = []" "\<not> m_stop_flag (nd_loop nd)" "int fd \<noteq> el_wakeup_fd (nd_loop nd)"
      "int fd \<noteq> fde_fd (el_timer (nd_loop nd))" "nd_sent nd = sw_sent w"
    using accepted_connection_waits [OF server_runs_inv [OF server(2) fresh_server_inv [OF server(1)]] server(3)] by blast
  have res: "call_result smap' req c = Some data" for c
    by (rule service_answers_result [OF registered(5) r(2)]) (simp_all add: request(1) registered(6))
  have asks: "asks smap' req data fd (arrive fd (frame_bytes req) nd)"
    by (rule waiting_conn_asks [OF a(3) res]) (use request in simp_all)
  have w: "watched se [fd] nd" using server(4-6) a(7,8) by (simp add: watched_def)
  have sz: "frame_size req \<le> 1431655765" using request(5) by simp
  from call_completes [OF possible channel(1,2) caller(3) channel(3-5) request(1) closures(1,2) sz passes w a(4-6) asks
      server(7) [unfolded request(2)] request(6) [unfolded request(2)] closures(3), of te e5] a(1,2,9)
  show ?thesis unfolding request(2) by metis
qed

lemma order_caller_ready: "caller_ready (order_env msgs) ''127.0.0.1'' 80 9 demo_loop"
  using demo_caller_ready by (simp add: caller_ready_def order_env_def)

theorem registered_call_completes_witness:
  "\<exists>smap' msgs ch1 l1 ids' nd1 s nd sd nd2.
    registerService ''9090'' (\<lambda>_. net_up ''add service success'') ''127.0.0.1'' (uint (80 :: 16 word)) (order_service demo_runtime OrderImpl) [] = Some (smap', msgs) \<and>
    gerOrderID (order_env msgs) demo_runtime 0 RunTime_new msg_id_init demo_loop 100 ''apple'' = Some (ch1, l1, ids', Call_Loops order_call) \<and>
    call_loop [demo_call_loop_env, demo_call_loop_env, demo_call_loop_env] order_closures ch1 l1 = Some (Returns nd1) \<and>
    onAccept (\<lambda>_. True) (\<lambda>_. ''0.0.0.0'') 2 0 (int 9) \<lparr>sin_family = 2, sin_addr = 5, sin_port = 6\<rparr> demo_server = Some s \<and>
    node_rounds [demo_node_env\<lparr>ne_order := [4, 9]\<rparr>, demo_node_env\<lparr>ne_order := [4, 9]\<rparr>] smap' (node_of (demo_world s) 0) = Some (Returns nd) \<and>
    node_rounds [demo_node_env\<lparr>ne_order := [9]\<rparr>, demo_node_env\<lparr>ne_order := [9]\<rparr>, demo_node_env\<lparr>ne_order := [9]\<rparr>] smap' (arrive 9 (cn_sent nd1) nd) = Some (Returns sd) \<and>
    call_rounds [demo_call_loop_env, demo_call_loop_env] order_closures (arrive_call (snd (last (nd_sent sd))) nd1) = Some (Returns nd2) \<and>
    m_stop_flag (cn_loop nd2) \<and> ch_runs (cn_channel nd2) = 1 \<and> ch_response (cn_channel nd2) = Some order_data"
proof -
  let ?net = "\<lambda>_ :: nat. net_up ''add service success''" and ?sv = "order_service demo_runtime OrderImpl" and ?e = demo_call_loop_env
  let ?id = "replicate 20 (CHR ''0'')" and ?rsp = "response_of order_call order_data" and ?sa = "\<lparr>sin_family = 2, sin_addr = 5, sin_port = 6\<rparr>"
  obtain smap' msgs where r1: "registerService ''9090'' ?net ''127.0.0.1'' (uint (80 :: 16 word)) ?sv [] = Some (smap', msgs)"
    using register_methods_texts [of ?net 0 "svc_full_name ?sv" "''127.0.0.1''" "uint (80 :: 16 word)" "svc_methods ?sv"]
    by (auto simp: registerService_def talon_eval)
  have r: "\<forall>n. ?net n = net_up ''add service success''" "word_ok (svc_full_name ?sv)" "\<forall>x \<in> set (svc_methods ?sv). word_ok x"
      "''Order.makeOrder'' = svc_full_name ?sv @ ''.'' @ ''makeOrder''"
    by (simp_all add: order_service_def word_ok_def Order_full_name_def Order_methods_def)
  have net: "ce_net (order_env msgs) = net_up (handle_query (centre_after [] msgs) ''Order.makeOrder'')" by (simp add: order_env_def)
  obtain ids' where ids: "choose_msg_id (ce_urandom (order_env msgs)) RunTime_new msg_id_init RpcController_new =
      Some (?id, SetMsgId ?id RpcController_new, ids')"
    using order_id_chosen by (auto simp: order_env_def)
  have ch: "ch_is_init order_channel" "ch_controller order_channel = Some RpcController_new" "\<not> Finished RpcController_new" "ch_closure order_channel"
      "ch_response order_channel \<noteq> None" "ch_runs order_channel + 1 = 1"
    by (simp_all add: order_channel_def channel_Init_def RpcChannel_new_def Finished_def RpcController_new_def)
  have req: "order_call = TinyPBProtocol_new\<lparr>m_msg_id := ?id, m_method_name := ''Order.makeOrder'', m_pb_data := m_pb_data order_call\<rparr>"
    by (simp add: order_call_def order_msg_def del: replicate.simps)
  have sz: "frame_size order_call < 128" "frame_size ?rsp < 128" using order_sizes by simp_all
  have k: "closures_of (order_env msgs) order_call order_closures" "cc_user order_closures = client_stop" "cc_parse order_closures order_data = Some order_data"
    using order_parse_data by (simp_all add: closures_of_def order_closures_def demo_closures_def order_env_def demo_call_env_def order_closure_def Let_def)
  have e: "\<forall>e \<in> {?e, ?e, ?e}. serves e 9 demo_loop \<and> good_passes order_closures 9 e" "serves ?e 9 demo_loop"
    using order_sizes(3) by (simp_all add: serves_def good_passes_def demo_call_loop_env_def order_closures_def demo_closures_def demo_loop_fds)
  have sv: "fresh_server 2 (sw_server (demo_world demo_server))" "server_runs smap' 2 (demo_world demo_server) (demo_world demo_server)"
      "ne_order (demo_node_env\<lparr>ne_order := [9]\<rparr>) = [int 9]" "ne_writable (demo_node_env\<lparr>ne_order := [9]\<rparr>) (int 9)"
      "\<not> ne_error (demo_node_env\<lparr>ne_order := [9]\<rparr>) (int 9)" "takes_all (demo_node_env\<lparr>ne_order := [9]\<rparr>) 9 (frame_bytes ?rsp)"
    using demo_server_fresh order_sizes(4) by (simp_all add: demo_world_def Starts demo_node_env_def takes_all_def)
  have w: "(demo_world demo_server)\<lparr>sw_server := s\<rparr> = demo_world s" "next_thread demo_server = 0"
      "sw_server (demo_world demo_server) = demo_server" for s
    by (simp_all add: demo_world_def next_thread_def demo_server_def)
  from registered_call_completes [OF r1 r(1-3) order_service_accepts r(4) net order_caller_ready ids ch(1-5) req refl order_sizes(1,2) sz k e
      sv(1,2) order_server_accepts sv(3-6), of 0 "\<lambda>_. True" "\<lambda>_. ''0.0.0.0''" 0 ?sa ?e, unfolded w ch(6)]
  show ?thesis unfolding gerOrderID_call using r1 by (elim exE conjE) (intro exI conjI, assumption+)
qed

end
